(* ===== verification/Prelude.thy ===== *)
theory Prelude
  imports Main "HOL-Library.Word" "HOL-Library.Code_Target_Nat"
begin

text \<open>
  Shared vocabulary of the development: the widths of Go's integers, the byte-level reading of
  \<^verbatim>\<open>encoding/binary\<close> (little and big endian), Go's truncated remainder, and the generic
  lemmas on lists and maps that several components use. The collections \<open>wire\<close> (byte layout)
  and \<open>handler\<close> (state updates of the handlers) are filled by the components.
\<close>

named_theorems wire "layout of encoded bytes"
named_theorems handler "what an operation leaves unchanged and what it sets"

type_synonym byte = "8 word"
type_synonym u16 = "16 word"
type_synonym u32 = "32 word"
type_synonym u64 = "64 word"

text \<open>A Go error as the components see it: the kind that callers test for with
  \<^verbatim>\<open>errors.Is\<close>, or any other error with its message.\<close>

datatype go_error =
    ErrorDisconnected
  | ErrWriteBlocked
  | ErrEOF
  | ErrStaleShare
  | ErrDupeShare
  | ErrDeadlineExceeded
  | ErrCanceled
  | ErrOther string

subsection \<open>encoding/binary\<close>

text \<open>The value of a byte sequence, least significant byte first, and the \<open>n\<close> bytes of a
  value in that order. \<^verbatim>\<open>binary.BigEndian\<close> is the reversal.\<close>

fun le_nat :: "byte list \<Rightarrow> nat" where
  "le_nat [] = 0"
| "le_nat (b # bs) = unat b + 256 * le_nat bs"

fun le_bytes :: "nat \<Rightarrow> nat \<Rightarrow> byte list" where
  "le_bytes 0 v = []"
| "le_bytes (Suc n) v = word_of_nat (v mod 256) # le_bytes n (v div 256)"

definition be_nat :: "byte list \<Rightarrow> nat" where
  "be_nat bs = le_nat (rev bs)"

definition be_bytes :: "nat \<Rightarrow> nat \<Rightarrow> byte list" where
  "be_bytes n v = rev (le_bytes n v)"

lemma length_le_bytes [simp, wire]: "length (le_bytes n v) = n"
  by (induction n arbitrary: v) auto

lemma length_be_bytes [simp, wire]: "length (be_bytes n v) = n"
  by (simp add: be_bytes_def)

lemma unat_byte_lt [simp]: "unat (b :: byte) < 256"
  using unsigned_less [of b] by simp

lemma le_nat_less: "le_nat bs < 256 ^ length bs"
proof (induction bs)
  case Nil
  then show ?case by simp
next
  case (Cons b bs)
  have "unat b + 256 * le_nat bs < 256 + 256 * le_nat bs" by simp
  also have "\<dots> = 256 * Suc (le_nat bs)" by simp
  also have "\<dots> \<le> 256 * 256 ^ length bs"
    using Cons by (intro mult_le_mono2) simp
  finally show ?case by simp
qed

lemma le_nat_le_bytes: "le_nat (le_bytes n v) = v mod 256 ^ n"
proof (induction n arbitrary: v)
  case 0
  then show ?case by simp
next
  case (Suc n)
  have "unat (word_of_nat (v mod 256) :: byte) = v mod 256"
    by (simp add: unat_of_nat)
  then have "le_nat (le_bytes (Suc n) v) = v mod 256 + 256 * (v div 256 mod 256 ^ n)"
    by (simp add: Suc)
  also have "\<dots> = v mod (256 * 256 ^ n)"
    by (simp add: mod_mult2_eq)
  finally show ?case by simp
qed

lemma le_bytes_le_nat: "length bs = n \<Longrightarrow> le_bytes n (le_nat bs) = bs"
proof (induction bs arbitrary: n)
  case Nil
  then show ?case by simp
next
  case (Cons b bs)
  have "(unat b + 256 * le_nat bs) mod 256 = unat b"
    by (simp add: mod_less)
  moreover have "(unat b + 256 * le_nat bs) div 256 = le_nat bs"
    by (simp add: div_eq_0_iff)
  ultimately show ?case using Cons by auto
qed

lemma le_nat_append: "le_nat (xs @ ys) = le_nat xs + 256 ^ length xs * le_nat ys"
  by (induction xs) (auto simp: algebra_simps)

lemma le_nat_replicate_zero [simp]: "le_nat (replicate n 0) = 0"
  by (induction n) auto

lemma unat_less_256_pow:
  shows "unat (w16 :: u16) < 256 ^ 2" and "unat (w32 :: u32) < 256 ^ 4"
    and "unat (w64 :: u64) < 256 ^ 8"
  using unsigned_less [of w16] unsigned_less [of w32] unsigned_less [of w64] by simp_all

subsection \<open>Integers\<close>

text \<open>Go's \<open>%\<close> truncates towards zero, so the result takes the sign of the dividend.\<close>

definition go_rem :: "int \<Rightarrow> int \<Rightarrow> int" where
  "go_rem a b = sgn a * (\<bar>a\<bar> mod \<bar>b\<bar>)"

lemma go_rem_nonneg: "0 \<le> a \<Longrightarrow> 0 < b \<Longrightarrow> go_rem a b = a mod b"
  by (cases "a = 0") (auto simp: go_rem_def)

lemma go_rem_neg: "a < 0 \<Longrightarrow> b \<noteq> 0 \<Longrightarrow> go_rem a b \<le> 0"
  by (simp add: go_rem_def)

subsection \<open>Lists and maps\<close>

lemma take_drop_split: "n \<le> length xs \<Longrightarrow> take n (xs @ ys) = take n xs \<and> drop n (xs @ ys) = drop n xs @ ys"
  by simp

lemma take_append_exact [simp]: "length xs = n \<Longrightarrow> take n (xs @ ys) = xs"
  by auto

lemma drop_append_exact [simp]: "length xs = n \<Longrightarrow> drop n (xs @ ys) = ys"
  by auto

lemma sum_fun_upd:
  fixes f :: "'a \<Rightarrow> 'b::comm_monoid_add"
  assumes "finite A" and "a \<in> A"
  shows "sum (f(a := y)) A = y + sum f (A - {a})"
proof -
  have "sum (f(a := y)) A = (f(a := y)) a + sum (f(a := y)) (A - {a})"
    using assms by (rule sum.remove)
  also have "sum (f(a := y)) (A - {a}) = sum f (A - {a})"
    by (rule sum.cong) auto
  finally show ?thesis by simp
qed

text \<open>One element of a list changes and others are appended: what is added up over the list. The elements
  are goroutines in \<^verbatim>\<open>Races\<close> and \<^verbatim>\<open>Writers\<close>.\<close>

lemma sum_step: "i < length ts \<Longrightarrow> sum_list (map f (ts[i := t] @ new)) + f (ts ! i) = sum_list (map f ts) + (f t + sum_list (map f new))"
  for f :: "'a \<Rightarrow> 'b::comm_monoid_add"
proof (induction ts arbitrary: i)
  case (Cons u ts)
  then show ?case by (cases i) (simp_all add: ac_simps)
qed simp

end
