(* ===== verification/GoStrings.thy ===== *)
theory GoStrings
  imports Prelude "HOL-Library.Sublist"
begin

text \<open>
  The functions of \<^verbatim>\<open>strings\<close>, \<^verbatim>\<open>strconv\<close>, \<^verbatim>\<open>fmt\<close> and \<^verbatim>\<open>encoding/hex\<close> that the bridge calls. A Go string
  is a byte sequence and \<open>char\<close> is a byte, so \<open>length\<close> is \<^verbatim>\<open>len\<close>. Where Go decodes UTF-8
  (\<^verbatim>\<open>TrimSpace\<close>, \<^verbatim>\<open>ToLower\<close>) the encodings of the runes that matter are written out.
\<close>

definition str_bytes :: "string \<Rightarrow> byte list" where
  "str_bytes s = map (\<lambda>c. word_of_nat (of_char c)) s"

definition bytes_str :: "byte list \<Rightarrow> string" where
  "bytes_str bs = map (\<lambda>b. char_of (unat b)) bs"

lemma length_str_bytes [simp, wire]: "length (str_bytes s) = length s"
  by (simp add: str_bytes_def)

lemma length_bytes_str [simp, wire]: "length (bytes_str bs) = length bs"
  by (simp add: bytes_str_def)

lemma of_char_less: "(of_char c :: nat) < 256"
  using of_char_mod_256 [of c, where 'a = nat] mod_less_divisor [of 256 "of_char c"] by simp

lemma byte_char_inverse: "char_of (unat (word_of_nat (of_char c) :: byte)) = c"
  by (simp add: unat_of_nat of_char_less)

lemma char_byte_inverse: "word_of_nat (of_char (char_of (unat b) :: char)) = (b :: byte)"
  by (simp add: of_char_of)

lemma bytes_str_bytes [simp]: "bytes_str (str_bytes s) = s"
  by (simp add: bytes_str_def str_bytes_def comp_def byte_char_inverse)

lemma str_bytes_str [simp]: "str_bytes (bytes_str bs) = bs"
  by (simp add: bytes_str_def str_bytes_def comp_def char_byte_inverse)

subsection \<open>Digits\<close>

definition hex_digit :: "nat \<Rightarrow> char" where
  "hex_digit n = (if n < 10 then char_of (48 + n) else char_of (87 + n))"

definition hex_val :: "char \<Rightarrow> nat option" where
  "hex_val c = (let n = of_char c in
     if 48 \<le> n \<and> n \<le> 57 then Some (n - 48)
     else if 97 \<le> n \<and> n \<le> 102 then Some (n - 87)
     else if 65 \<le> n \<and> n \<le> 70 then Some (n - 55)
     else None)"

definition dec_val :: "char \<Rightarrow> nat option" where
  "dec_val c = (let n = of_char c in if 48 \<le> n \<and> n \<le> 57 then Some (n - 48) else None)"

text \<open>The value of a digit string in base \<open>b\<close>, after the digits already read.\<close>

fun digits_value :: "nat \<Rightarrow> (char \<Rightarrow> nat option) \<Rightarrow> nat \<Rightarrow> string \<Rightarrow> nat option" where
  "digits_value b dv acc [] = Some acc"
| "digits_value b dv acc (c # cs) =
     (case dv c of None \<Rightarrow> None | Some d \<Rightarrow> digits_value b dv (acc * b + d) cs)"

abbreviation hex_value :: "nat \<Rightarrow> string \<Rightarrow> nat option" where
  "hex_value \<equiv> digits_value 16 hex_val"

abbreviation dec_value :: "nat \<Rightarrow> string \<Rightarrow> nat option" where
  "dec_value \<equiv> digits_value 10 dec_val"

lemma hex_val_digit: "n < 16 \<Longrightarrow> hex_val (hex_digit n) = Some n"
  by (auto simp: hex_val_def hex_digit_def Let_def of_char_of)

lemma hex_val_less: "hex_val c = Some d \<Longrightarrow> d < 16"
  by (auto simp: hex_val_def Let_def split: if_splits)

lemma dec_val_digit: "n < 10 \<Longrightarrow> dec_val (hex_digit n) = Some n"
  by (auto simp: dec_val_def hex_digit_def Let_def of_char_of)

lemma digits_value_append:
  "digits_value b dv acc (s @ t) = Option.bind (digits_value b dv acc s) (\<lambda>a. digits_value b dv a t)"
  by (induction s arbitrary: acc) (auto split: option.splits)

lemma digits_value_acc:
  "digits_value b dv acc s = map_option (\<lambda>v. acc * b ^ length s + v) (digits_value b dv 0 s)"
proof (induction s arbitrary: acc)
  case Nil
  then show ?case by simp
next
  case (Cons c s)
  show ?case
  proof (cases "dv c")
    case None
    then show ?thesis by simp
  next
    case (Some d)
    then show ?thesis
      using Cons [of "acc * b + d"] Cons [of d]
      by (cases "digits_value b dv 0 s") (auto simp: algebra_simps)
  qed
qed

lemma hex_value_less: "hex_value 0 s = Some v \<Longrightarrow> v < 16 ^ length s"
proof (induction s arbitrary: v)
  case Nil
  then show ?case by simp
next
  case (Cons c s)
  then obtain d where d: "hex_val c = Some d" by (auto split: option.splits)
  with Cons.prems have "hex_value d s = Some v" by simp
  then obtain w where w: "hex_value 0 s = Some w" and v: "v = d * 16 ^ length s + w"
    using digits_value_acc [of 16 hex_val d s] by auto
  have "v < d * 16 ^ length s + 16 ^ length s" using Cons.IH [OF w] v by simp
  also have "\<dots> = Suc d * 16 ^ length s" by simp
  also have "\<dots> \<le> 16 * 16 ^ length s" using hex_val_less [OF d] by (intro mult_le_mono1) simp
  finally show ?case by simp
qed

lemma hex_value_zeros: "hex_value 0 (replicate k (CHR ''0'') @ s) = hex_value 0 s"
proof -
  have "hex_value 0 (replicate k (CHR ''0'')) = Some 0"
    by (induction k) (auto simp: hex_val_def)
  then show ?thesis by (simp add: digits_value_append)
qed

subsection \<open>Formatting integers\<close>

fun digits_of :: "nat \<Rightarrow> nat \<Rightarrow> string" where
  "digits_of b n = (if b < 2 \<or> n < b then [hex_digit n] else digits_of b (n div b) @ [hex_digit (n mod b)])"

declare digits_of.simps [simp del]

definition zero_pad :: "nat \<Rightarrow> string \<Rightarrow> string" where
  "zero_pad w s = replicate (w - length s) (CHR ''0'') @ s"

text \<open>\<^verbatim>\<open>%x\<close> zero-padded to width \<open>w\<close> (\<^verbatim>\<open>%0*x\<close>), and \<^verbatim>\<open>%d\<close>.\<close>

definition fmt_hex :: "nat \<Rightarrow> nat \<Rightarrow> string" where
  "fmt_hex w n = zero_pad w (digits_of 16 n)"

definition fmt_dec :: "int \<Rightarrow> string" where
  "fmt_dec n = (if n < 0 then CHR ''-'' # digits_of 10 (nat (- n)) else digits_of 10 (nat n))"

lemma digits_of_value:
  assumes "\<And>d. d < b \<Longrightarrow> dv (hex_digit d) = Some d" and "2 \<le> b"
  shows "digits_value b dv 0 (digits_of b n) = Some n"
proof (induction n rule: less_induct)
  case (less n)
  show ?case
  proof (cases "n < b")
    case True
    then show ?thesis using assms by (subst digits_of.simps) simp
  next
    case False
    with assms(2) have "n div b < n" by (intro div_less_dividend) auto
    from less [OF this] False assms show ?thesis
      by (subst digits_of.simps) (auto simp: digits_value_append)
  qed
qed

lemma hex_digits_of_value [simp]: "hex_value 0 (digits_of 16 n) = Some n"
  by (rule digits_of_value) (auto simp: hex_val_digit)

lemma dec_digits_of_value [simp]: "dec_value 0 (digits_of 10 n) = Some n"
  by (rule digits_of_value) (auto simp: dec_val_digit)

lemma fmt_hex_value [simp]: "hex_value 0 (fmt_hex w n) = Some n"
  by (simp add: fmt_hex_def zero_pad_def hex_value_zeros)

lemma length_digits_of: "2 \<le> b \<Longrightarrow> n < b ^ k \<Longrightarrow> 0 < k \<Longrightarrow> length (digits_of b n) \<le> k"
proof (induction n arbitrary: k rule: less_induct)
  case (less n)
  show ?case
  proof (cases "n < b")
    case True
    then show ?thesis using less.prems by (subst digits_of.simps) simp
  next
    case False
    then obtain j where k: "k = Suc j" "0 < j"
      using less.prems by (cases k; cases "k - 1") auto
    have "n div b < b ^ j" using less.prems k by (intro less_mult_imp_div_less) (simp add: mult.commute)
    moreover have "n div b < n" using False less.prems by (intro div_less_dividend) auto
    ultimately have "length (digits_of b (n div b)) \<le> j" using less.IH less.prems k by blast
    then show ?thesis using False k less.prems by (subst digits_of.simps) auto
  qed
qed

lemma length_fmt_hex: "n < 16 ^ w \<Longrightarrow> 0 < w \<Longrightarrow> length (fmt_hex w n) = w"
  using length_digits_of [of 16 n w] by (simp add: fmt_hex_def zero_pad_def)

lemma fmt_hex_inject: "fmt_hex w m = fmt_hex w n \<Longrightarrow> m = n"
  by (metis fmt_hex_value option.inject)

text \<open>A number never contains the separator of a share key.\<close>

lemma set_digits_of: "2 \<le> b \<Longrightarrow> b \<le> 16 \<Longrightarrow> set (digits_of b n) \<subseteq> hex_digit ` {..<16}"
proof (induction n rule: less_induct)
  case (less n)
  show ?case
  proof (cases "n < b")
    case True
    then show ?thesis using less.prems by (subst digits_of.simps) auto
  next
    case False
    then have "n div b < n" using less.prems by (intro div_less_dividend) auto
    then have "set (digits_of b (n div b)) \<subseteq> hex_digit ` {..<16}" using less by blast
    moreover have "n mod b < 16" using less.prems mod_less_divisor [of b n] by linarith
    ultimately show ?thesis using False less.prems by (subst digits_of.simps) auto
  qed
qed

lemma notin_digits_of: "hex_val c = None \<Longrightarrow> 2 \<le> b \<Longrightarrow> b \<le> 16 \<Longrightarrow> c \<notin> set (digits_of b n)"
  using set_digits_of [of b n] hex_val_digit by force

lemma colon_notin_fmt_dec: "CHR '':'' \<notin> set (fmt_dec n)"
  using notin_digits_of [of "CHR '':''" 10] by (auto simp: fmt_dec_def hex_val_def)

lemma fmt_dec_inject: "fmt_dec m = fmt_dec n \<Longrightarrow> m = n"
proof -
  assume eq: "fmt_dec m = fmt_dec n"
  have minus: "CHR ''-'' \<notin> set (digits_of 10 k)" for k
    by (rule notin_digits_of) (simp_all add: hex_val_def)
  have inj: "j = k" if "digits_of 10 j = digits_of 10 k" for j k
    using that by (metis dec_digits_of_value option.inject)
  have s: "m < 0 \<longleftrightarrow> n < 0" using eq minus by (auto simp: fmt_dec_def split: if_splits) (metis list.set_intros(1))+
  show "m = n"
  proof (cases "m < 0")
    case True
    with eq s inj have "nat (- m) = nat (- n)" by (simp add: fmt_dec_def)
    with True s show ?thesis by simp
  next
    case False
    with eq s inj have "nat m = nat n" by (simp add: fmt_dec_def)
    with False s show ?thesis by simp
  qed
qed

subsection \<open>strconv\<close>

text \<open>\<^verbatim>\<open>ParseUint(s, b, 64)\<close> and \<^verbatim>\<open>ParseInt(s, 10, 0)\<close>; \<open>None\<close> is an error (syntax or range).
  With an explicit base no prefix and no underscore is accepted.\<close>

definition parse_uint :: "nat \<Rightarrow> (char \<Rightarrow> nat option) \<Rightarrow> string \<Rightarrow> nat option" where
  "parse_uint b dv s = (if s = [] then None
     else case digits_value b dv 0 s of
       None \<Rightarrow> None
     | Some v \<Rightarrow> if v < 2 ^ 64 then Some v else None)"

definition parse_int :: "string \<Rightarrow> int option" where
  "parse_int s = (case s of [] \<Rightarrow> None
     | c # cs \<Rightarrow>
        (let neg = (c = CHR ''-''); ds = (if c = CHR ''-'' \<or> c = CHR ''+'' then cs else s) in
         case parse_uint 10 dec_val ds of
           None \<Rightarrow> None
         | Some un \<Rightarrow>
             if \<not> neg \<and> 2 ^ 63 \<le> un then None
             else if neg \<and> 2 ^ 63 < un then None
             else Some (if neg then - int un else int un)))"

lemma parse_uint_less: "parse_uint b dv s = Some v \<Longrightarrow> v < 2 ^ 64"
  by (auto simp: parse_uint_def split: if_splits option.splits)

lemma digits_of_not_Nil [simp]: "digits_of b n \<noteq> []"
  by (subst digits_of.simps) auto

lemma parse_uint_fmt_hex: "n < 2 ^ 64 \<Longrightarrow> parse_uint 16 hex_val (fmt_hex w n) = Some n"
proof -
  assume "n < 2 ^ 64"
  moreover have "fmt_hex w n \<noteq> []" by (simp add: fmt_hex_def zero_pad_def)
  ultimately show ?thesis by (simp add: parse_uint_def)
qed

lemma parse_int_fmt_dec: "\<bar>n\<bar> < 2 ^ 63 \<Longrightarrow> parse_int (fmt_dec n) = Some n"
proof (cases "n < 0")
  case True
  assume "\<bar>n\<bar> < 2 ^ 63"
  with True show ?thesis by (auto simp: parse_int_def fmt_dec_def parse_uint_def Let_def)
next
  case False
  assume "\<bar>n\<bar> < 2 ^ 63"
  with False have v: "nat n < 2 ^ 63" by simp
  obtain c cs where s: "digits_of 10 (nat n) = c # cs" by (meson digits_of_not_Nil neq_Nil_conv)
  have "c \<noteq> CHR ''-''" and "c \<noteq> CHR ''+''"
    using notin_digits_of [of "CHR ''-''" 10 "nat n"] notin_digits_of [of "CHR ''+''" 10 "nat n"]
    by (auto simp: s hex_val_def)
  moreover have "dec_value 0 (c # cs) = Some (nat n)" by (metis s dec_digits_of_value)
  ultimately show ?thesis
    using False v by (simp add: parse_int_def fmt_dec_def parse_uint_def s Let_def del: digits_value.simps)
qed

subsection \<open>encoding/hex\<close>

text \<open>\<^verbatim>\<open>DecodeString\<close> with its error ignored: the bytes before the first malformed pair.\<close>

fun hex_decode :: "string \<Rightarrow> byte list" where
  "hex_decode (a # b # r) = (case (hex_val a, hex_val b) of
     (Some x, Some y) \<Rightarrow> word_of_nat (16 * x + y) # hex_decode r
   | _ \<Rightarrow> [])"
| "hex_decode _ = []"

definition is_hex :: "string \<Rightarrow> bool" where
  "is_hex s \<longleftrightarrow> list_all (\<lambda>c. hex_val c \<noteq> None) s"

lemma length_hex_decode: "is_hex s \<Longrightarrow> length (hex_decode s) = length s div 2"
  by (induction s rule: hex_decode.induct) (auto simp: is_hex_def)

lemma hex_decode_append:
  "is_hex s \<Longrightarrow> even (length s) \<Longrightarrow> hex_decode (s @ t) = hex_decode s @ hex_decode t"
  by (induction s rule: hex_decode.induct) (auto simp: is_hex_def)

text \<open>Hexadecimal text of even length and its bytes carry the same number, most significant
  digit first.\<close>

lemma hex_decode_be_nat:
  "is_hex s \<Longrightarrow> even (length s) \<Longrightarrow> hex_value 0 s = Some (be_nat (hex_decode s))"
proof (induction s rule: hex_decode.induct)
  case (1 a b r)
  then obtain x y where x: "hex_val a = Some x" and y: "hex_val b = Some y"
    by (auto simp: is_hex_def)
  have r: "is_hex r" "even (length r)" using 1 by (auto simp: is_hex_def)
  have "hex_value 0 r = Some (be_nat (hex_decode r))" using 1 x y r by (simp add: x y)
  moreover have "length (hex_decode r) * 2 = length r" using length_hex_decode r by simp
  then have "(16 :: nat) ^ length r = 256 ^ length (hex_decode r)"
    using power_mult [of "16 :: nat" 2 "length (hex_decode r)"] by (simp add: mult.commute)
  moreover have "unat (word_of_nat (16 * x + y) :: byte) = 16 * x + y"
    using hex_val_less [OF x] hex_val_less [OF y] by (subst unat_of_nat) simp
  moreover have "hex_value 0 (a # b # r) = hex_value (x * 16 + y) r" by (simp add: x y)
  moreover note digits_value_acc [of 16 hex_val "x * 16 + y" r]
  ultimately show ?case
    by (simp del: digits_value.simps add: x y be_nat_def le_nat_append)
qed (auto simp: be_nat_def is_hex_def)

subsection \<open>strings\<close>

fun contains :: "string \<Rightarrow> string \<Rightarrow> bool" where
  "contains [] p = (p = [])"
| "contains (c # s) p = (prefix p (c # s) \<or> contains s p)"

text \<open>\<^verbatim>\<open>Replace(s, old, "", 1)\<close>: the first occurrence, wherever it is.\<close>

fun remove_first :: "string \<Rightarrow> string \<Rightarrow> string" where
  "remove_first old [] = []"
| "remove_first old (c # s) =
     (if prefix old (c # s) then drop (length old) (c # s) else c # remove_first old s)"

text \<open>\<^verbatim>\<open>SplitN(s, sep, 2)\<close> for a one-byte separator.\<close>

fun split2 :: "char \<Rightarrow> string \<Rightarrow> string \<times> string option" where
  "split2 sep [] = ([], None)"
| "split2 sep (c # s) =
     (if c = sep then ([], Some s) else (case split2 sep s of (a, b) \<Rightarrow> (c # a, b)))"

text \<open>The UTF-8 encodings of the runes with \<^verbatim>\<open>unicode.IsSpace\<close>.\<close>

definition byte_string :: "nat list \<Rightarrow> string" where
  "byte_string = map char_of"

definition space_encodings :: "string list" where
  "space_encodings =
     map byte_string
       ([[9], [10], [11], [12], [13], [32], [194, 133], [194, 160], [225, 154, 128]]
        @ map (\<lambda>k. [226, 128, k]) [128, 129, 130, 131, 132, 133, 134, 135, 136, 137, 138, 168, 169, 175]
        @ [[226, 129, 159], [227, 128, 128]])"

text \<open>Strip from the front, as long as one of the patterns \<open>ps\<close> is there.\<close>

function strip_front :: "string list \<Rightarrow> string \<Rightarrow> string" where
  "strip_front ps s =
     (case find (\<lambda>p. p \<noteq> [] \<and> prefix p s) ps of
        None \<Rightarrow> s
      | Some p \<Rightarrow> strip_front ps (drop (length p) s))"
  by pat_completeness auto
termination
proof (relation "measure (\<lambda>(ps, s). length s)", goal_cases)
  case (2 ps s p)
  then have "p \<noteq> [] \<and> prefix p s" by (auto simp: find_Some_iff)
  then have "0 < length p" and "length p \<le> length s" by (auto simp: prefix_length_le)
  then show ?case by (simp del: length_greater_0_conv)
qed simp

declare strip_front.simps [simp del]

definition trim_space :: "string \<Rightarrow> string" where
  "trim_space s =
     rev (strip_front (map rev space_encodings) (rev (strip_front space_encodings s)))"

text \<open>\<^verbatim>\<open>ToLower\<close> as far as a search for ASCII text can see it: ASCII capitals, and the two
  non-ASCII runes whose lower case is ASCII (U+0130 to \<^verbatim>\<open>i\<close>, U+212A to \<^verbatim>\<open>k\<close>). All other
  runes map to non-ASCII text, which stands for itself here.\<close>

fun lower_ascii :: "string \<Rightarrow> string" where
  "lower_ascii [] = []"
| "lower_ascii (c # s) =
     (let n = (of_char c :: nat) in
      if prefix (byte_string [196, 176]) (c # s) then CHR ''i'' # lower_ascii (drop 1 s)
      else if prefix (byte_string [226, 132, 170]) (c # s) then CHR ''k'' # lower_ascii (drop 2 s)
      else if 65 \<le> n \<and> n \<le> 90 then char_of (n + 32) # lower_ascii s
      else c # lower_ascii s)"

lemma strip_front_suffix: "\<exists>a. s = a @ strip_front ps s"
proof (induction ps s rule: strip_front.induct)
  case (1 ps s)
  show ?case
  proof (cases "find (\<lambda>p. p \<noteq> [] \<and> prefix p s) ps")
    case None
    then show ?thesis by (subst strip_front.simps) simp
  next
    case (Some p)
    then have "prefix p s" by (auto simp: find_Some_iff)
    then have s: "s = p @ drop (length p) s" by (auto simp: prefix_def)
    obtain a where "drop (length p) s = a @ strip_front ps (drop (length p) s)"
      using "1.IH" [OF Some] by blast
    with s have "s = (p @ a) @ strip_front ps (drop (length p) s)" by simp
    moreover have "strip_front ps s = strip_front ps (drop (length p) s)"
      using Some by (subst strip_front.simps) simp
    ultimately show ?thesis by metis
  qed
qed

lemma strip_front_done:
  "p \<in> set ps \<Longrightarrow> p \<noteq> [] \<Longrightarrow> \<not> prefix p (strip_front ps s)"
proof (induction ps s rule: strip_front.induct)
  case (1 ps s)
  show ?case
  proof (cases "find (\<lambda>p. p \<noteq> [] \<and> prefix p s) ps")
    case None
    then have "\<not> prefix p s" using 1 by (auto simp: find_None_iff)
    then show ?thesis using None by (subst strip_front.simps) simp
  next
    case (Some q)
    then show ?thesis using 1 by (subst strip_front.simps) simp
  qed
qed

lemma strip_front_id:
  assumes "\<And>p. p \<in> set ps \<Longrightarrow> p \<noteq> [] \<Longrightarrow> \<not> prefix p s"
  shows "strip_front ps s = s"
proof -
  have "find (\<lambda>p. p \<noteq> [] \<and> prefix p s) ps = None"
    using assms by (auto simp: find_None_iff)
  then show ?thesis by (subst strip_front.simps) simp
qed

lemma split2_no_sep: "sep \<notin> set s \<Longrightarrow> split2 sep s = (s, None)"
  by (induction s) auto

lemma split2_sep: "sep \<notin> set a \<Longrightarrow> split2 sep (a @ sep # b) = (a, Some b)"
  by (induction a) auto

end
