(* ===== verification/Codecs.thy ===== *)
theory Codecs
  imports Prelude
begin

text \<open>
  Interfaces for byte encodings. A \<open>prefix_code\<close> can be cut off the front of a byte sequence in
  one way only; a \<open>wire_reader\<close> also has the function that does it. Encodings that are written
  one after the other (the hashed block header, the payloads of Stratum V2) are unambiguous
  because each field is such a code. The components interpret the two locales on their own
  encoders and readers.
\<close>

locale prefix_code =
  fixes enc :: "'a \<Rightarrow> byte list" and ok :: "'a \<Rightarrow> bool"
  assumes cancel: "ok x \<Longrightarrow> ok y \<Longrightarrow> enc x @ r = enc y @ s \<Longrightarrow> x = y \<and> r = s"

context prefix_code begin

lemma enc_inject: "ok x \<Longrightarrow> ok y \<Longrightarrow> enc x = enc y \<Longrightarrow> x = y"
  using cancel [of x y "[]" "[]"] by simp

lemma cancel_concat:
  assumes "length xs = length ys" and "list_all ok xs" and "list_all ok ys"
    and "concat (map enc xs) @ r = concat (map enc ys) @ s"
  shows "xs = ys \<and> r = s"
  using assms
proof (induction xs ys arbitrary: r s rule: list_induct2)
  case Nil
  then show ?case by simp
next
  case (Cons x xs y ys)
  then have "enc x @ (concat (map enc xs) @ r) = enc y @ (concat (map enc ys) @ s)" by simp
  moreover have "ok x" and "ok y" using Cons.prems by simp_all
  ultimately have xy: "x = y" and rest: "concat (map enc xs) @ r = concat (map enc ys) @ s"
    using cancel by blast+
  have "xs = ys \<and> r = s"
    by (rule Cons.IH) (use Cons.prems rest in \<open>simp_all only: list.pred_inject\<close>)
  with xy show ?case by simp
qed

end

text \<open>A reader takes the value off the front and returns the rest; it reads back what the
  encoder wrote, whatever follows.\<close>

locale wire_reader =
  fixes enc :: "'a \<Rightarrow> byte list" and read :: "byte list \<Rightarrow> ('a \<times> byte list) option"
    and ok :: "'a \<Rightarrow> bool"
  assumes read_enc: "ok x \<Longrightarrow> read (enc x @ r) = Some (x, r)"

context wire_reader begin

lemma read_enc_all: "ok x \<Longrightarrow> read (enc x) = Some (x, [])"
  using read_enc [of x "[]"] by simp

lemma enc_cancel: "ok x \<Longrightarrow> ok y \<Longrightarrow> enc x @ r = enc y @ s \<Longrightarrow> x = y \<and> r = s"
  by (metis read_enc option.inject prod.inject)

end

sublocale wire_reader \<subseteq> code: prefix_code enc ok
  by unfold_locales (rule enc_cancel)

text \<open>A count, then that many values: again a prefix code.\<close>

definition enc_counted :: "nat \<Rightarrow> ('a \<Rightarrow> byte list) \<Rightarrow> 'a list \<Rightarrow> byte list" where
  "enc_counted n enc xs = le_bytes n (length xs) @ concat (map enc xs)"

definition ok_counted :: "nat \<Rightarrow> ('a \<Rightarrow> bool) \<Rightarrow> 'a list \<Rightarrow> bool" where
  "ok_counted n ok xs \<longleftrightarrow> length xs < 256 ^ n \<and> list_all ok xs"

lemma le_bytes_cancel:
  assumes "u < 256 ^ n" and "v < 256 ^ n" and "le_bytes n u @ r = le_bytes n v @ s"
  shows "u = v \<and> r = s"
proof -
  have "le_bytes n u = le_bytes n v" and rs: "r = s" using assms(3) by simp_all
  then have "le_nat (le_bytes n u) = le_nat (le_bytes n v)" by simp
  then show ?thesis using assms rs by (simp add: le_nat_le_bytes)
qed

context prefix_code begin

lemma counted: "prefix_code (enc_counted n enc) (ok_counted n ok)"
proof
  fix xs ys r s
  assume wf: "ok_counted n ok xs" "ok_counted n ok ys"
    and eq: "enc_counted n enc xs @ r = enc_counted n enc ys @ s"
  have "le_bytes n (length xs) @ (concat (map enc xs) @ r)
      = le_bytes n (length ys) @ (concat (map enc ys) @ s)"
    using eq by (simp only: enc_counted_def append_assoc)
  moreover have "length xs < 256 ^ n" and "length ys < 256 ^ n" using wf by (simp_all add: ok_counted_def)
  ultimately have "length xs = length ys" and "concat (map enc xs) @ r = concat (map enc ys) @ s"
    using le_bytes_cancel by blast+
  then show "xs = ys \<and> r = s" using cancel_concat wf unfolding ok_counted_def by blast
qed

end

subsection \<open>Fixed-width integers, little endian\<close>

definition enc_u16 :: "u16 \<Rightarrow> byte list" where "enc_u16 v = le_bytes 2 (unat v)"
definition enc_u32 :: "u32 \<Rightarrow> byte list" where "enc_u32 v = le_bytes 4 (unat v)"
definition enc_u64 :: "u64 \<Rightarrow> byte list" where "enc_u64 v = le_bytes 8 (unat v)"

definition dec_u16 :: "byte list \<Rightarrow> u16" where "dec_u16 bs = word_of_nat (le_nat bs)"
definition dec_u32 :: "byte list \<Rightarrow> u32" where "dec_u32 bs = word_of_nat (le_nat bs)"
definition dec_u64 :: "byte list \<Rightarrow> u64" where "dec_u64 bs = word_of_nat (le_nat bs)"

lemma length_enc_uint [simp, wire]:
  "length (enc_u16 a) = 2" "length (enc_u32 b) = 4" "length (enc_u64 c) = 8"
  by (simp_all add: enc_u16_def enc_u32_def enc_u64_def)

lemma unat_inverse: "word_of_nat (unat w) = (w :: 'a::len word)"
  by simp

lemma dec_enc_uint [simp]:
  "dec_u16 (enc_u16 a) = a" "dec_u32 (enc_u32 b) = b" "dec_u64 (enc_u64 c) = c"
  using unat_less_256_pow(1) [of a] unat_less_256_pow(2) [of b] unat_less_256_pow(3) [of c]
  by (simp_all only: dec_u16_def dec_u32_def dec_u64_def enc_u16_def enc_u32_def enc_u64_def
      le_nat_le_bytes mod_less unat_inverse)

lemma unat_dec_u32: "length bs = 4 \<Longrightarrow> unat (dec_u32 bs) = le_nat bs"
  using le_nat_less [of bs] by (simp add: dec_u32_def unat_of_nat)

lemma unat_dec_u64: "length bs = 8 \<Longrightarrow> unat (dec_u64 bs) = le_nat bs"
  using le_nat_less [of bs] by (simp add: dec_u64_def unat_of_nat)

lemma enc_dec_u32: "length bs = 4 \<Longrightarrow> enc_u32 (dec_u32 bs) = bs"
  by (simp add: enc_u32_def unat_dec_u32 le_bytes_le_nat)

lemma enc_dec_u64: "length bs = 8 \<Longrightarrow> enc_u64 (dec_u64 bs) = bs"
  by (simp add: enc_u64_def unat_dec_u64 le_bytes_le_nat)

interpretation u16: prefix_code enc_u16 "\<lambda>_. True"
  by unfold_locales (metis append_eq_append_conv dec_enc_uint(1) length_enc_uint(1))

interpretation u32: prefix_code enc_u32 "\<lambda>_. True"
  by unfold_locales (metis append_eq_append_conv dec_enc_uint(2) length_enc_uint(2))

interpretation u64: prefix_code enc_u64 "\<lambda>_. True"
  by unfold_locales (metis append_eq_append_conv dec_enc_uint(3) length_enc_uint(3))

end
