(* ===== verification/Float64.thy ===== *)
theory Float64
  imports Prelude Complex_Main
begin

text \<open>
  Go's \<^verbatim>\<open>float64\<close> and the part of \<^verbatim>\<open>math/big.Float\<close> the bridge uses. A finite
  value is the rational number it denotes; every operation rounds its exact result to nearest,
  ties to even, to 53 bits (with gradual underflow at the exponent \<open>-1074\<close> and overflow to an
  infinity at \<open>2 ^ 1024\<close>). \<^verbatim>\<open>big.Float\<close> rounds the same way to a precision of its own
  and has no range limit that the bridge can reach. The two zeros are one value: nothing in the
  bridge divides by a float that can be zero or reads its sign. All definitions compute.

  The locale \<open>rounding\<close> is the interface between the two formats and their clients: a choice of
  the last place that is monotone and keeps \<open>p\<close> bits is enough for monotonicity, for the sign
  and for exactness on representable values.
\<close>

subsection \<open>Bit length and binary exponent\<close>

text \<open>\<open>nbits\<close> is \<^verbatim>\<open>BitLen\<close>: the number of binary digits, 0 for 0.\<close>

function nbits :: "int \<Rightarrow> nat" where
  "nbits n = (if n \<le> 0 then 0 else Suc (nbits (n div 2)))"
  by pat_completeness auto
termination
  by (relation "measure nat") auto

declare nbits.simps [simp del]

lemma nbits_0 [simp]: "nbits 0 = 0"
  by (simp add: nbits.simps)

lemma nbits_upper: "n < 2 ^ nbits n"
proof (induction n rule: nbits.induct)
  case (1 n)
  show ?case
  proof (cases "n \<le> 0")
    case False
    then have "n div 2 < 2 ^ nbits (n div 2)" using 1 by blast
    then have "n < 2 * 2 ^ nbits (n div 2)" by linarith
    with False show ?thesis by (subst nbits.simps) simp
  qed (simp add: nbits.simps)
qed

lemma nbits_lower: "0 < n \<Longrightarrow> 2 ^ nbits n \<le> 2 * n"
proof (induction n rule: nbits.induct)
  case (1 n)
  show ?case
  proof (cases "n = 1")
    case True
    then show ?thesis by (simp add: nbits.simps)
  next
    case False
    with 1 have "2 ^ nbits (n div 2) \<le> 2 * (n div 2)" by simp
    with 1 show ?thesis by (subst nbits.simps) auto
  qed
qed

text \<open>The exponent \<open>k\<close> with \<open>2 ^ k \<le> x < 2 ^ (k + 1)\<close>.\<close>

definition ilog2 :: "rat \<Rightarrow> int" where
  "ilog2 x = (if 1 \<le> x then int (nbits \<lfloor>x\<rfloor>) - 1
              else - int (nbits (\<lceil>1 / x\<rceil> - 1)))"

lemma powi_mono: "m \<le> n \<Longrightarrow> (2::rat) powi m \<le> 2 powi n"
  by (rule power_int_increasing) auto

lemma powi_less: "m < n \<Longrightarrow> (2::rat) powi m < 2 powi n"
  by (rule power_int_strict_increasing) auto

lemma powi_less_iff: "(2::rat) powi m < 2 powi n \<longleftrightarrow> m < n"
  using powi_less [of m n] powi_mono [of n m] by (meson leD not_le)

lemma powi_le_iff: "(2::rat) powi m \<le> 2 powi n \<longleftrightarrow> m \<le> n"
  using powi_less_iff [of n m] by (simp add: not_less [symmetric])

lemma powi_pos [simp]: "0 < (2::rat) powi n"
  by simp

lemma powi_plus: "(2::rat) powi (m + n) = 2 powi m * 2 powi n"
  by (rule power_int_add) simp

lemma powi_nat: "0 \<le> n \<Longrightarrow> (2::rat) powi n = of_int (2 ^ nat n)"
  by (simp add: power_int_def)

lemma nbits_rat:
  assumes "0 < n"
  shows "(2::rat) ^ nbits n \<le> 2 * of_int n" and "of_int n + 1 \<le> (2::rat) ^ nbits n"
proof -
  have "(of_int (2 ^ nbits n) :: rat) \<le> of_int (2 * n)"
    using nbits_lower [OF assms] by (simp only: of_int_le_iff)
  then show "(2::rat) ^ nbits n \<le> 2 * of_int n" by simp
  have "(of_int (n + 1) :: rat) \<le> of_int (2 ^ nbits n)"
    using nbits_upper [of n] by (simp only: of_int_le_iff)
  then show "of_int n + 1 \<le> (2::rat) ^ nbits n" by simp
qed

lemma ilog2_ge_one:
  assumes "1 \<le> x"
  shows "2 powi ilog2 x \<le> x \<and> x < 2 powi (ilog2 x + 1)"
proof -
  define n where "n = \<lfloor>x\<rfloor>"
  have n: "0 < n" using assms by (simp add: n_def)
  have "of_int n \<le> x" and "x < of_int n + 1" unfolding n_def by linarith+
  with nbits_rat [OF n] have "(2::rat) ^ nbits n \<le> 2 * x" and "x < 2 ^ nbits n" by linarith+
  moreover have "ilog2 x = int (nbits n) - 1" using assms by (simp add: ilog2_def n_def)
  moreover have "2 * (2::rat) powi (int (nbits n) - 1) = 2 ^ nbits n"
    by (simp add: power_int_diff)
  ultimately show ?thesis by (auto simp: power_int_add)
qed

lemma ilog2_lt_one:
  assumes "0 < x" and "x < 1"
  shows "2 powi ilog2 x \<le> x \<and> x < 2 powi (ilog2 x + 1)"
proof -
  define y where "y = 1 / x"
  define c where "c = \<lceil>y\<rceil> - 1"
  have y: "1 < y" using assms by (simp add: y_def)
  then have c: "0 < c" by (simp add: c_def)
  have "y \<le> of_int c + 1" and "of_int c < y" unfolding c_def by (simp, linarith)+
  with nbits_rat [OF c] have hi: "y \<le> 2 ^ nbits c" and lo: "(2::rat) ^ nbits c < 2 * y" by linarith+
  have e: "ilog2 x = - int (nbits c)" using assms by (simp add: ilog2_def c_def y_def)
  have x: "x = 1 / y" using assms by (simp add: y_def)
  have "1 / 2 ^ nbits c \<le> x"
    unfolding x using hi y by (intro divide_left_mono) auto
  moreover have "x < 2 / 2 ^ nbits c"
    unfolding x using lo y by (simp add: field_simps)
  ultimately show ?thesis
    unfolding e by (simp add: power_int_minus power_int_add power_int_diff inverse_eq_divide)
qed

lemma ilog2_bounds: "0 < x \<Longrightarrow> 2 powi ilog2 x \<le> x \<and> x < 2 powi (ilog2 x + 1)"
  using ilog2_ge_one ilog2_lt_one by (cases "1 \<le> x") auto

lemma ilog2_unique:
  assumes "0 < x" and "2 powi k \<le> x" and "x < 2 powi (k + 1)"
  shows "ilog2 x = k"
proof -
  have "(2::rat) powi k < 2 powi (ilog2 x + 1)" and "(2::rat) powi ilog2 x < 2 powi (k + 1)"
    using ilog2_bounds [OF assms(1)] assms by linarith+
  then show ?thesis by (simp add: powi_less_iff)
qed

lemma ilog2_mono:
  assumes "0 < x" and "x \<le> y"
  shows "ilog2 x \<le> ilog2 y"
proof (rule ccontr)
  assume "\<not> ilog2 x \<le> ilog2 y"
  then have "(2::rat) powi (ilog2 y + 1) \<le> 2 powi ilog2 x" by (intro powi_mono) simp
  moreover have "2 powi ilog2 x \<le> x" "y < 2 powi (ilog2 y + 1)"
    using ilog2_bounds [of x] ilog2_bounds [of y] assms by auto
  ultimately show False using assms by linarith
qed

subsection \<open>Round to nearest, ties to even\<close>

definition rne :: "rat \<Rightarrow> int" where
  "rne x = (let f = \<lfloor>x\<rfloor>; r = x - of_int f in
     if r < 1 / 2 then f else if 1 / 2 < r then f + 1 else if even f then f else f + 1)"

lemma rne_of_int [simp]: "rne (of_int n) = n"
  by (simp add: rne_def)

lemma rne_near: "\<bar>x - of_int n\<bar> < 1 / 2 \<Longrightarrow> rne x = n"
proof -
  assume a: "\<bar>x - of_int n\<bar> < 1 / 2"
  have "\<lfloor>x\<rfloor> = n \<or> \<lfloor>x\<rfloor> = n - 1" using a by linarith
  with a show "rne x = n" by (auto simp: rne_def Let_def)
qed

lemma rne_floor: "\<lfloor>x\<rfloor> \<le> rne x \<and> rne x \<le> \<lfloor>x\<rfloor> + 1"
  by (auto simp: rne_def Let_def)

lemma rne_mono:
  assumes "x \<le> y"
  shows "rne x \<le> rne y"
proof (cases "\<lfloor>x\<rfloor> = \<lfloor>y\<rfloor>")
  case True
  then show ?thesis using assms by (auto simp: rne_def Let_def)
next
  case False
  then have "\<lfloor>x\<rfloor> + 1 \<le> \<lfloor>y\<rfloor>" using floor_mono [OF assms] by linarith
  then show ?thesis using rne_floor [of x] rne_floor [of y] by linarith
qed

lemma rne_error: "\<bar>of_int (rne x) - x\<bar> \<le> 1 / 2"
proof -
  have "of_int \<lfloor>x\<rfloor> \<le> x" and "x < of_int \<lfloor>x\<rfloor> + 1" by linarith+
  then show ?thesis by (auto simp: rne_def Let_def abs_le_iff field_simps)
qed

text \<open>\<open>round_to ex x\<close> rounds \<open>x\<close> to a multiple of \<open>2 powi ex \<bar>x\<bar>\<close>, the value of the last
  place.\<close>

definition round_to :: "(rat \<Rightarrow> int) \<Rightarrow> rat \<Rightarrow> rat" where
  "round_to ex x = (if x = 0 then 0
     else sgn x * (of_int (rne (\<bar>x\<bar> / 2 powi ex \<bar>x\<bar>)) * 2 powi ex \<bar>x\<bar>))"

definition prec_exp :: "nat \<Rightarrow> rat \<Rightarrow> int" where
  "prec_exp p x = ilog2 x - (int p - 1)"

definition f64_exp :: "rat \<Rightarrow> int" where
  "f64_exp x = max (ilog2 x - 52) (- 1074)"

locale rounding =
  fixes ex :: "rat \<Rightarrow> int" and p :: nat
  assumes p_pos: "0 < p"
    and ex_mono: "0 < x \<Longrightarrow> x \<le> y \<Longrightarrow> ex x \<le> ex y"
    and ex_upper: "0 < x \<Longrightarrow> x \<le> 2 ^ p * 2 powi ex x"
    and ex_lower: "0 < x \<Longrightarrow> x \<le> y \<Longrightarrow> ex x < ex y \<Longrightarrow> 2 ^ p * 2 powi (ex y - 1) \<le> y"

context rounding begin

lemma round_pos_eq: "0 < x \<Longrightarrow> round_to ex x = of_int (rne (x / 2 powi ex x)) * 2 powi ex x"
  by (simp add: round_to_def)

lemma round_zero: "round_to ex 0 = 0"
  by (simp add: round_to_def)

lemma round_minus: "round_to ex (- x) = - round_to ex x"
  by (simp add: round_to_def sgn_minus)

lemma round_nonneg: "0 \<le> x \<Longrightarrow> 0 \<le> round_to ex x"
proof (cases "x = 0")
  case False
  assume "0 \<le> x"
  with False have x: "0 < x" by simp
  then have "0 \<le> x / 2 powi ex x" by simp
  then have "0 \<le> rne (x / 2 powi ex x)" using rne_mono [of 0] rne_of_int [of 0] by fastforce
  then show ?thesis using x by (simp add: round_pos_eq)
qed (simp add: round_zero)

text \<open>A value on the grid of its own last place, or a power-of-two boundary reached from
  below, is kept or reached exactly; in between the order is kept.\<close>

lemma round_mono_pos:
  assumes x: "0 < x" and xy: "x \<le> y"
  shows "round_to ex x \<le> round_to ex y"
proof (cases "ex x = ex y")
  case True
  have "rne (x / 2 powi ex x) \<le> rne (y / 2 powi ex y)"
    unfolding True using xy by (intro rne_mono divide_right_mono) auto
  then show ?thesis using x xy by (simp add: round_pos_eq True)
next
  case False
  then have lt: "ex x < ex y" using ex_mono [OF x xy] by simp
  have "x / 2 powi ex x \<le> of_int (2 ^ p)"
    using ex_upper [OF x] by (simp add: divide_le_eq)
  then have "rne (x / 2 powi ex x) \<le> 2 ^ p" using rne_mono rne_of_int by metis
  then have "(of_int (rne (x / 2 powi ex x)) :: rat) \<le> 2 ^ p"
    by (metis of_int_le_iff of_int_numeral of_int_power)
  then have "round_to ex x \<le> 2 ^ p * 2 powi ex x"
    using x by (simp add: round_pos_eq mult_right_mono)
  also have "\<dots> \<le> 2 ^ p * 2 powi (ex y - 1)"
    using lt by (intro mult_left_mono powi_mono) auto
  also have "\<dots> = 2 ^ p / 2 * 2 powi ex y" by (simp add: power_int_diff)
  also have "\<dots> \<le> round_to ex y"
  proof -
    obtain q where Suc: "p = Suc q" using p_pos gr0_implies_Suc by blast
    have "2 ^ p * (2 powi ex y / 2) \<le> y"
      using ex_lower [OF x xy lt] by (simp add: power_int_diff)
    then have "of_int (2 ^ q) \<le> y / 2 powi ex y"
      by (simp add: Suc field_simps)
    then have "2 ^ q \<le> rne (y / 2 powi ex y)" using rne_mono rne_of_int by metis
    then have "(2::rat) ^ q \<le> of_int (rne (y / 2 powi ex y))"
      by (metis of_int_le_iff of_int_numeral of_int_power)
    then show ?thesis using x xy by (simp add: round_pos_eq Suc mult_right_mono)
  qed
  finally show ?thesis .
qed

text \<open>Rounding keeps the order of all values, and its result is on the grid, so that rounding
  it again changes nothing.\<close>

lemma round_mono: "x \<le> y \<Longrightarrow> round_to ex x \<le> round_to ex y"
proof -
  assume xy: "x \<le> y"
  consider "0 < x" | "x \<le> 0" "0 \<le> y" | "y < 0" by linarith
  then show ?thesis
  proof cases
    case 1
    then show ?thesis using xy by (rule round_mono_pos)
  next
    case 2
    then have "round_to ex x \<le> 0" using round_nonneg [of "- x"] by (simp add: round_minus)
    also have "0 \<le> round_to ex y" using 2 by (simp add: round_nonneg)
    finally show ?thesis .
  next
    case 3
    then have "round_to ex (- y) \<le> round_to ex (- x)" using xy by (intro round_mono_pos) auto
    then show ?thesis by (simp add: round_minus)
  qed
qed

lemma round_on_grid:
  assumes "0 < x" and "x / 2 powi ex x = of_int k"
  shows "round_to ex x = x"
  using assms by (simp add: round_pos_eq) (metis divide_eq_eq powi_pos less_irrefl)

lemma round_idem_pos:
  assumes x: "0 < x"
  shows "round_to ex (round_to ex x) = round_to ex x"
proof (cases "round_to ex x = 0")
  case False
  define y where "y = round_to ex x"
  define k where "k = rne (x / 2 powi ex x)"
  have yk: "y = of_int k * 2 powi ex x" using x by (simp add: y_def k_def round_pos_eq)
  have y: "0 < y" using False round_nonneg [of x] x by (simp add: y_def)
  show ?thesis
  proof (cases "ex y \<le> ex x")
    case True
    then have "2 powi ex x / 2 powi ex y = (of_int (2 ^ nat (ex x - ex y)) :: rat)"
      using powi_plus [of "ex x - ex y" "ex y"] powi_nat [of "ex x - ex y"] by simp
    moreover have "y / 2 powi ex y = of_int k * (2 powi ex x / 2 powi ex y)"
      by (subst (1) yk) simp
    ultimately have "y / 2 powi ex y = of_int (k * 2 ^ nat (ex x - ex y))" by simp
    then show ?thesis using y round_on_grid unfolding y_def [symmetric] by blast
  next
    case False
    then have xy: "x \<le> y" using ex_mono [OF y, of x] by linarith
    have "2 ^ p * 2 powi (ex y - 1) \<le> y" using ex_lower [OF x xy] False by simp
    also have "y \<le> 2 ^ p * 2 powi ex x"
    proof -
      have "x / 2 powi ex x \<le> of_int (2 ^ p)" using ex_upper [OF x] by (simp add: divide_le_eq)
      then have "k \<le> 2 ^ p" unfolding k_def using rne_mono rne_of_int by metis
      then have "(of_int k :: rat) \<le> 2 ^ p" by (metis of_int_le_iff of_int_numeral of_int_power)
      then show ?thesis by (simp add: yk)
    qed
    finally have "(2::rat) powi (ex y - 1) \<le> 2 powi ex x" by simp
    then have "ex y - 1 \<le> ex x" by (simp add: powi_le_iff)
    with False have e: "ex y = ex x + 1" by simp
    have "y = 2 ^ p * 2 powi ex x"
      using \<open>2 ^ p * 2 powi (ex y - 1) \<le> y\<close> \<open>y \<le> 2 ^ p * 2 powi ex x\<close> e by simp
    moreover obtain q where "p = Suc q" using p_pos gr0_implies_Suc by blast
    ultimately have "y = of_int (2 ^ q) * 2 powi (ex x + 1)" by (simp add: power_int_add)
    then have "y / 2 powi ex y = of_int (2 ^ q)" unfolding e by simp
    then show ?thesis using y round_on_grid unfolding y_def [symmetric] by blast
  qed
qed (simp add: round_zero)

lemma round_idem: "round_to ex (round_to ex x) = round_to ex x"
proof -
  consider "0 < x" | "x = 0" | "0 < - x" by linarith
  then show ?thesis
  proof cases
    case 3
    then have "round_to ex (round_to ex (- x)) = round_to ex (- x)" by (rule round_idem_pos)
    then show ?thesis by (simp add: round_minus)
  qed (auto simp: round_idem_pos round_zero)
qed

end

lemma prec_exp_bounds:
  assumes "0 < x" and "0 < p"
  shows "x \<le> 2 ^ p * 2 powi prec_exp p x" and "2 ^ p * 2 powi (prec_exp p x - 1) \<le> x"
proof -
  have e: "(2::rat) ^ p * 2 powi (n - int p) = 2 powi n" for n
    by (simp add: power_int_diff)
  have "prec_exp p x = ilog2 x + 1 - int p" by (simp add: prec_exp_def)
  then have "2 ^ p * 2 powi prec_exp p x = (2::rat) powi (ilog2 x + 1)" by (simp only: e)
  then show "x \<le> 2 ^ p * 2 powi prec_exp p x"
    using ilog2_bounds [OF assms(1)] by simp
  have "prec_exp p x - 1 = ilog2 x - int p" by (simp add: prec_exp_def)
  then have "2 ^ p * 2 powi (prec_exp p x - 1) = (2::rat) powi ilog2 x" by (simp only: e)
  then show "2 ^ p * 2 powi (prec_exp p x - 1) \<le> x"
    using ilog2_bounds [OF assms(1)] by simp
qed

lemma rounding_prec: "0 < p \<Longrightarrow> rounding (prec_exp p) p"
  by unfold_locales (auto simp: prec_exp_bounds, auto simp: prec_exp_def ilog2_mono)

interpretation big53: rounding "prec_exp 53" 53
  by (rule rounding_prec) simp

interpretation dbl: rounding f64_exp 53
proof
  fix x y :: rat
  assume x: "0 < x"
  have f: "f64_exp x = max (prec_exp 53 x) (- 1074)" for x by (simp add: f64_exp_def prec_exp_def)
  show "x \<le> 2 ^ 53 * 2 powi f64_exp x"
  proof -
    have "x \<le> 2 ^ 53 * 2 powi prec_exp 53 x" using prec_exp_bounds(1) [OF x, of 53] by simp
    also have "\<dots> \<le> 2 ^ 53 * 2 powi f64_exp x"
      unfolding f by (intro mult_left_mono powi_mono) auto
    finally show ?thesis .
  qed
  assume xy: "x \<le> y"
  show "f64_exp x \<le> f64_exp y" using ilog2_mono [OF x xy] by (auto simp: f64_exp_def)
  assume "f64_exp x < f64_exp y"
  then have "f64_exp y = prec_exp 53 y" by (auto simp: f)
  then show "2 ^ 53 * 2 powi (f64_exp y - 1) \<le> y"
    using prec_exp_bounds(2) [of y 53] x xy by simp
qed simp


subsection \<open>float64\<close>

datatype f64 = NaN | PInf | NInf | Fin rat

definition to_f64 :: "rat \<Rightarrow> f64" where
  "to_f64 q = (let r = round_to f64_exp q in
     if 2 ^ 1024 \<le> r then PInf else if r \<le> - (2 ^ 1024) then NInf else Fin r)"

text \<open>The values that a \<^verbatim>\<open>float64\<close> variable can hold.\<close>

fun f64_ok :: "f64 \<Rightarrow> bool" where
  "f64_ok (Fin q) = (round_to f64_exp q = q \<and> - (2 ^ 1024) < q \<and> q < 2 ^ 1024)"
| "f64_ok _ = True"

text \<open>\<^verbatim>\<open>float64(n)\<close> for an integer.\<close>

definition f64_of_int :: "int \<Rightarrow> f64" where
  "f64_of_int n = to_f64 (of_int n)"

fun f64_neg :: "f64 \<Rightarrow> f64" where
  "f64_neg NaN = NaN"
| "f64_neg PInf = NInf"
| "f64_neg NInf = PInf"
| "f64_neg (Fin x) = Fin (- x)"

fun f64_add :: "f64 \<Rightarrow> f64 \<Rightarrow> f64" where
  "f64_add (Fin x) (Fin y) = to_f64 (x + y)"
| "f64_add NaN _ = NaN"
| "f64_add _ NaN = NaN"
| "f64_add PInf NInf = NaN"
| "f64_add NInf PInf = NaN"
| "f64_add PInf _ = PInf"
| "f64_add _ PInf = PInf"
| "f64_add NInf _ = NInf"
| "f64_add _ NInf = NInf"

text \<open>The sign decides a product or a quotient with an infinity.\<close>

fun f64_sgn :: "f64 \<Rightarrow> int" where
  "f64_sgn NaN = 0"
| "f64_sgn PInf = 1"
| "f64_sgn NInf = - 1"
| "f64_sgn (Fin x) = (if 0 < x then 1 else if x < 0 then - 1 else 0)"

definition f64_inf :: "int \<Rightarrow> f64" where
  "f64_inf s = (if 0 < s then PInf else if s < 0 then NInf else NaN)"

fun f64_mul :: "f64 \<Rightarrow> f64 \<Rightarrow> f64" where
  "f64_mul (Fin x) (Fin y) = to_f64 (x * y)"
| "f64_mul NaN _ = NaN"
| "f64_mul _ NaN = NaN"
| "f64_mul a b = f64_inf (f64_sgn a * f64_sgn b)"

fun f64_div :: "f64 \<Rightarrow> f64 \<Rightarrow> f64" where
  "f64_div (Fin x) (Fin y) = (if y = 0 then f64_inf (f64_sgn (Fin x)) else to_f64 (x / y))"
| "f64_div NaN _ = NaN"
| "f64_div _ NaN = NaN"
| "f64_div (Fin x) _ = Fin 0"
| "f64_div a (Fin y) = f64_inf (f64_sgn a * (if y < 0 then - 1 else 1))"
| "f64_div _ _ = NaN"

fun f64_less :: "f64 \<Rightarrow> f64 \<Rightarrow> bool" where
  "f64_less NaN _ = False"
| "f64_less _ NaN = False"
| "f64_less (Fin x) (Fin y) = (x < y)"
| "f64_less NInf b = (b \<noteq> NInf)"
| "f64_less _ NInf = False"
| "f64_less PInf _ = False"
| "f64_less _ PInf = True"

text \<open>Go's \<open>==\<close> on floats: no NaN equals anything.\<close>

definition f64_eq :: "f64 \<Rightarrow> f64 \<Rightarrow> bool" where
  "f64_eq a b \<longleftrightarrow> a \<noteq> NaN \<and> a = b"

fun f64_abs :: "f64 \<Rightarrow> f64" where
  "f64_abs (Fin x) = Fin \<bar>x\<bar>"
| "f64_abs NInf = PInf"
| "f64_abs a = a"

text \<open>\<^verbatim>\<open>math.Max\<close>: an infinity wins over NaN, NaN over the rest.\<close>

definition f64_max :: "f64 \<Rightarrow> f64 \<Rightarrow> f64" where
  "f64_max a b = (if a = PInf \<or> b = PInf then PInf
     else if a = NaN \<or> b = NaN then NaN
     else if f64_less a b then b else a)"

instantiation f64 :: "{zero, one, plus, minus, times, inverse, ord}"
begin

definition "0 = Fin 0"
definition "1 = Fin 1"
definition "a + b = f64_add a b"
definition "a - b = f64_add a (f64_neg b)"
definition "a * b = f64_mul a b"
definition "inverse a = f64_div (Fin 1) a"
definition "a div b = f64_div a b"
definition "a < b = f64_less a b"
definition "a \<le> b = (f64_less a b \<or> f64_eq a b)"

instance ..

end


lemmas f64_ops = zero_f64_def one_f64_def plus_f64_def minus_f64_def times_f64_def
  divide_f64_def less_f64_def less_eq_f64_def

subsection \<open>What the bridge needs of the operations\<close>

lemma to_f64_ok [simp]: "f64_ok (to_f64 q)"
  by (auto simp: to_f64_def Let_def dbl.round_idem)

lemma to_f64_Fin: "f64_ok (Fin q) \<Longrightarrow> to_f64 q = Fin q"
  by (auto simp: to_f64_def)

lemma to_f64_not_NaN [simp]: "to_f64 q \<noteq> NaN"
  by (auto simp: to_f64_def Let_def)

lemma to_f64_zero [simp]: "to_f64 0 = Fin 0"
  by (simp add: to_f64_def dbl.round_zero)

text \<open>The order of the values themselves, infinities included; NaN is not ordered.\<close>

fun f64_le :: "f64 \<Rightarrow> f64 \<Rightarrow> bool" where
  "f64_le NaN _ = False"
| "f64_le _ NaN = False"
| "f64_le NInf _ = True"
| "f64_le _ PInf = True"
| "f64_le (Fin x) (Fin y) = (x \<le> y)"
| "f64_le _ _ = False"

lemma f64_le_iff: "(a :: f64) \<le> b \<longleftrightarrow> f64_le a b"
  by (cases a; cases b) (auto simp: f64_ops f64_eq_def)

lemma f64_less_iff: "(a :: f64) < b \<longleftrightarrow> f64_le a b \<and> \<not> f64_le b a"
  by (cases a; cases b) (auto simp: f64_ops f64_eq_def)

lemma f64_le_refl: "a \<noteq> NaN \<Longrightarrow> f64_le a a"
  by (cases a) auto

lemma f64_le_trans: "f64_le a b \<Longrightarrow> f64_le b c \<Longrightarrow> f64_le a c"
  by (cases a; cases b; cases c) auto

lemma to_f64_mono: "x \<le> y \<Longrightarrow> f64_le (to_f64 x) (to_f64 y)"
  using dbl.round_mono [of x y] by (auto simp: to_f64_def Let_def)

lemma to_f64_ge: "x \<le> y \<Longrightarrow> f64_ok (Fin x) \<Longrightarrow> f64_le (Fin x) (to_f64 y)"
  by (metis to_f64_Fin to_f64_mono)

lemma to_f64_le: "x \<le> y \<Longrightarrow> f64_ok (Fin y) \<Longrightarrow> f64_le (to_f64 x) (Fin y)"
  by (metis to_f64_Fin to_f64_mono)

lemma f64_ok_ops [simp]:
  "f64_ok (f64_add a b)" if "f64_ok a" "f64_ok b" for a b
  using that by (cases a; cases b) auto

lemma f64_ok_mul [simp]: "f64_ok (f64_mul a b)"
  by (cases a; cases b) (auto simp: f64_inf_def)

lemma f64_ok_div [simp]: "f64_ok (f64_div a b)"
  by (cases a; cases b) (auto simp: f64_inf_def dbl.round_zero)

lemma f64_ok_max: "f64_ok a \<Longrightarrow> f64_ok b \<Longrightarrow> f64_ok (f64_max a b)"
  by (auto simp: f64_max_def)

lemma f64_ok_of_int [simp]: "f64_ok (f64_of_int n)"
  by (simp add: f64_of_int_def)

text \<open>Integers of up to 53 bits are represented exactly.\<close>

lemma ilog2_less:
  assumes "0 < x" and "x < 2 ^ n"
  shows "ilog2 x < int n"
proof (rule ccontr)
  assume "\<not> ilog2 x < int n"
  then have "(2::rat) powi int n \<le> 2 powi ilog2 x" by (intro powi_mono) simp
  then show False using ilog2_bounds [OF assms(1)] assms(2) by simp
qed

text \<open>Fractions whose numerator fits the mantissa are represented exactly.\<close>

lemma round_dyadic_exact:
  assumes "\<bar>n\<bar> < 2 ^ 53" and "k \<le> 1074"
  shows "round_to f64_exp (of_int n / 2 ^ k) = of_int n / 2 ^ k"
proof -
  have pos: "round_to f64_exp (of_int m / 2 ^ k) = of_int m / 2 ^ k" if m: "0 < m" "m < 2 ^ 53" for m
  proof -
    let ?x = "of_int m / 2 ^ k :: rat"
    have x: "0 < ?x" using m(1) by simp
    have "(of_int m :: rat) < 2 ^ 53" using m(2) by (metis of_int_less_iff of_int_numeral of_int_power)
    then have "?x < 2 powi (53 - int k)" by (simp add: power_int_diff divide_strict_right_mono)
    then have "(2::rat) powi ilog2 ?x < 2 powi (53 - int k)" using ilog2_bounds [OF x] by linarith
    then have e: "f64_exp ?x \<le> - int k" using assms(2) by (simp add: f64_exp_def powi_less_iff)
    have "?x / 2 powi f64_exp ?x = of_int m * 2 powi (- int k - f64_exp ?x)"
      by (simp add: power_int_diff power_int_minus divide_inverse)
    also have "\<dots> = of_int (m * 2 ^ nat (- int k - f64_exp ?x))"
      using powi_nat [of "- int k - f64_exp ?x"] e by simp
    finally show ?thesis by (rule dbl.round_on_grid [OF x])
  qed
  consider "0 < n" | "n = 0" | "0 < - n" by linarith
  then show ?thesis
  proof cases
    case 3
    then have "round_to f64_exp (- (of_int n / 2 ^ k)) = - (of_int n / 2 ^ k)"
      using pos [of "- n"] assms by simp
    then show ?thesis unfolding dbl.round_minus by simp
  qed (use assms pos in \<open>auto simp: dbl.round_zero\<close>)
qed

lemma to_f64_dyadic:
  assumes "\<bar>n\<bar> < 2 ^ 53" and "k \<le> 1074"
  shows "to_f64 (of_int n / 2 ^ k) = Fin (of_int n / 2 ^ k)"
proof -
  have "\<bar>of_int n :: rat\<bar> < 2 ^ 53"
    using assms by (metis of_int_abs of_int_less_iff of_int_numeral of_int_power)
  moreover have "\<bar>of_int n / 2 ^ k :: rat\<bar> \<le> \<bar>of_int n\<bar>"
    by (simp add: divide_le_eq mult_le_cancel_left1)
  moreover have "(2::rat) ^ 53 \<le> 2 ^ 1024" by (rule power_increasing) auto
  ultimately have "\<bar>of_int n / 2 ^ k :: rat\<bar> < 2 ^ 1024" by linarith
  then have "\<not> 2 ^ 1024 \<le> (of_int n / 2 ^ k :: rat)" "\<not> of_int n / 2 ^ k \<le> (- (2 ^ 1024) :: rat)"
    unfolding abs_less_iff by linarith+
  then show ?thesis
    unfolding to_f64_def round_dyadic_exact [OF assms] Let_def by (simp only: if_False)
qed

lemma f64_of_int_exact: "\<bar>n\<bar> < 2 ^ 53 \<Longrightarrow> f64_of_int n = Fin (of_int n)"
  using to_f64_dyadic [of n 0] by (simp add: f64_of_int_def)

lemma f64_eval_int: "\<bar>n\<bar> < 2 ^ 53 \<Longrightarrow> q = of_int n \<Longrightarrow> to_f64 q = Fin q"
  using to_f64_dyadic [of n 0] by simp

text \<open>The two 53-bit roundings used by \<^verbatim>\<open>big.Float\<close> operations whose operands come from
  \<^verbatim>\<open>big.NewFloat\<close>, and rounding to a precision in general.\<close>

definition big_round :: "nat \<Rightarrow> rat \<Rightarrow> rat" where
  "big_round p x = round_to (prec_exp p) x"

lemma big_round_mono: "0 < p \<Longrightarrow> x \<le> y \<Longrightarrow> big_round p x \<le> big_round p y"
  unfolding big_round_def by (rule rounding.round_mono [OF rounding_prec])

lemma big_round_nonneg: "0 < p \<Longrightarrow> 0 \<le> x \<Longrightarrow> 0 \<le> big_round p x"
  unfolding big_round_def by (rule rounding.round_nonneg [OF rounding_prec])

lemma big_round_pow2: "0 < p \<Longrightarrow> big_round p (2 powi n) = 2 powi n"
proof -
  assume p: "0 < p"
  have il: "ilog2 (2 powi n) = n"
  proof -
    have b: "2 powi ilog2 (2 powi n) \<le> (2::rat) powi n" "(2::rat) powi n < 2 powi (ilog2 (2 powi n) + 1)"
      using ilog2_bounds [of "2 powi n"] by auto
    then have "ilog2 (2 powi n) \<le> n" by (simp add: powi_le_iff)
    moreover have "n < ilog2 (2 powi n) + 1" using b(2) by (simp add: powi_less_iff)
    ultimately show ?thesis by simp
  qed
  have "prec_exp p (2 powi n) = n - (int p - 1)" by (simp add: prec_exp_def il)
  then have "2 powi n / 2 powi prec_exp p (2 powi n) = (2::rat) powi (int p - 1)"
    by (simp add: power_int_diff)
  also have "\<dots> = of_int (2 ^ nat (int p - 1))" using p by (intro powi_nat) simp
  finally show ?thesis
    unfolding big_round_def
    using rounding.round_on_grid [OF rounding_prec [OF p], of "2 powi n"] by simp
qed

end
