(* ===== verification/Hasher.thy ===== *)
theory Hasher
  imports GoStrings Codecs Float64
begin

unbundle bit_operations_syntax

text \<open>
  \<^verbatim>\<open>src/cryptixstratum/hasher.go\<close>: the three views of a difficulty (\<^verbatim>\<open>cryptixDiff\<close>), the
  compact target of a header, the serialization that is hashed into the pre-proof-of-work
  hash, and the two forms in which that hash is sent to a miner. BLAKE2b is not in the
  repository: it is the parameter \<open>blake2b\<close> (digest size, key, input).

  A panic is \<open>None\<close>: \<^verbatim>\<open>big.NewFloat\<close> panics on NaN, a slice expression on a short header.
\<close>

text \<open>The header of the block that the node hands out (\<^verbatim>\<open>appmessage.RPCBlock\<close>), the fields the
  bridge reads; the rest of the block is not looked at and stays a parameter.\<close>

record rpc_header =
  Version :: u32
  Parents :: "string list list"
  HashMerkleRoot :: string
  AcceptedIDMerkleRoot :: string
  UTXOCommitment :: string
  Timestamp :: u64
  Bits :: u32
  Nonce :: u64
  DAAScore :: u64
  BlueScore :: u64
  BlueWork :: string
  PruningPoint :: string

record 'tx rpc_block =
  Header :: rpc_header
  Transactions :: 'tx

subsection \<open>Difficulty\<close>

definition maxTarget :: rat where
  "maxTarget = round_to f64_exp (2 ^ 224 - 1)"

definition minHash :: rat where
  "minHash = big_round 53 (2 ^ 256 / maxTarget)"

definition bigGig :: rat where
  "bigGig = 10 ^ 9"

text \<open>\<^verbatim>\<open>big.Float.Int\<close>: truncation towards zero.\<close>

definition trunc :: "rat \<Rightarrow> int" where
  "trunc x = (if 0 \<le> x then \<lfloor>x\<rfloor> else \<lceil>x\<rceil>)"

text \<open>The inner \<open>None\<close> is the nil \<^verbatim>\<open>*big.Int\<close> that \<^verbatim>\<open>Int\<close> returns for an infinity (difficulty 0).\<close>

definition DiffToTarget :: "f64 \<Rightarrow> int option option" where
  "DiffToTarget diff = (case diff of
     NaN \<Rightarrow> None
   | PInf \<Rightarrow> Some (Some 0)
   | NInf \<Rightarrow> Some (Some 0)
   | Fin d \<Rightarrow> Some (if d = 0 then None else Some (trunc (big_round 53 (maxTarget / d)))))"

definition TargetToDiff :: "int \<Rightarrow> f64" where
  "TargetToDiff target = (if target = 0 then PInf
     else to_f64 (big_round (max 53 (max (nbits \<bar>target\<bar>) 64)) (maxTarget / of_int target)))"

definition DiffToHash :: "f64 \<Rightarrow> f64 option" where
  "DiffToHash diff = (case diff of
     NaN \<Rightarrow> None
   | PInf \<Rightarrow> Some PInf
   | NInf \<Rightarrow> Some NInf
   | Fin d \<Rightarrow> Some (to_f64 (big_round 53 (big_round 53 (minHash * d) / bigGig))))"

definition BigDiffToLittle :: "int \<Rightarrow> f64" where
  "BigDiffToLittle diff = (if diff = 0 then PInf
     else to_f64 (big_round 256 (big_round 256 (2 ^ 255 / of_int diff) / 2 ^ 31)))"

record cryptixDiff =
  hashValue :: f64
  diffValue :: f64
  targetValue :: "int option"

definition newCryptixDiff :: cryptixDiff where
  "newCryptixDiff = \<lparr>hashValue = 0, diffValue = 0, targetValue = None\<rparr>"

definition setDiffValue :: "f64 \<Rightarrow> cryptixDiff \<Rightarrow> cryptixDiff option" where
  "setDiffValue diff k = (case (DiffToTarget diff, DiffToHash diff) of
     (Some t, Some h) \<Rightarrow> Some (k\<lparr>diffValue := diff, targetValue := t, hashValue := h\<rparr>)
   | _ \<Rightarrow> None)"

definition CalculateTarget :: "u64 \<Rightarrow> int" where
  "CalculateTarget bits =
     (let truncated = drop_bit 24 bits;
          mantissa = bits AND 16777215
      in if truncated \<le> 3
         then uint (drop_bit (unat (8 * (3 - truncated))) mantissa)
         else uint mantissa * 2 ^ unat (8 * (drop_bit 24 bits - 3)))"

subsection \<open>Serialization\<close>

text \<open>The hasher's state is the bytes written to it.\<close>

definition write16 :: "byte list \<Rightarrow> u16 \<Rightarrow> byte list" where
  "write16 hs v = hs @ enc_u16 v"

definition write64 :: "byte list \<Rightarrow> u64 \<Rightarrow> byte list" where
  "write64 hs v = hs @ enc_u64 v"

definition writeHexString :: "byte list \<Rightarrow> string \<Rightarrow> byte list" where
  "writeHexString hs s = hs @ hex_decode s"

text \<open>The loop that pads the blue work with zeros to the length computed before it.\<close>

function pad_front :: "nat \<Rightarrow> string \<Rightarrow> string" where
  "pad_front padding bw = (if length bw < padding then pad_front padding (CHR ''0'' # bw) else bw)"
  by pat_completeness auto
termination
  by (relation "measure (\<lambda>(padding, bw). padding - length bw)") auto

declare pad_front.simps [simp del]

definition write_parents :: "byte list \<Rightarrow> string list list \<Rightarrow> byte list" where
  "write_parents hs ps =
     fold (\<lambda>v hs. fold (\<lambda>h hs. writeHexString hs h) v (write64 hs (word_of_nat (length v)))) ps hs"

definition header_details :: "rpc_header \<Rightarrow> byte list" where
  "header_details h = enc_u64 0 @ enc_u32 (Bits h) @ enc_u64 0 @ enc_u64 (DAAScore h) @ enc_u64 (BlueScore h)"

definition padded_blue_work :: "string \<Rightarrow> string" where
  "padded_blue_work bw = pad_front (length bw + length bw mod 2) bw"

definition header_bytes :: "rpc_header \<Rightarrow> byte list" where
  "header_bytes h =
     (let hs = write16 [] (ucast (Version h));
          hs = write64 hs (word_of_nat (length (Parents h)));
          hs = write_parents hs (Parents h);
          hs = writeHexString hs (HashMerkleRoot h);
          hs = writeHexString hs (AcceptedIDMerkleRoot h);
          hs = writeHexString hs (UTXOCommitment h);
          hs = hs @ header_details h;
          bw = padded_blue_work (BlueWork h);
          hs = write64 hs (word_of_nat (length (hex_decode bw)));
          hs = writeHexString hs bw
      in writeHexString hs (PruningPoint h))"

definition SerializeBlockHeader ::
    "(nat \<Rightarrow> byte list \<Rightarrow> (byte list \<Rightarrow> byte list) option) \<Rightarrow> 'tx rpc_block \<Rightarrow> go_error + byte list" where
  "SerializeBlockHeader blake2b template =
     (case blake2b 32 (str_bytes ''BlockHash'') of
        None \<Rightarrow> Inl (ErrOther ''blake2b'')
      | Some sum256 \<Rightarrow> Inr (sum256 (header_bytes (Header template))))"

subsection \<open>Jobs\<close>

text \<open>\<^verbatim>\<open>bb.SetString(fmt.Sprintf("%x", v), 16)\<close> and back to 64 bits.\<close>

definition via_hex :: "u64 \<Rightarrow> u64" where
  "via_hex v = (case hex_value 0 (fmt_hex 0 (unat v)) of None \<Rightarrow> 0 | Some n \<Rightarrow> word_of_nat n)"

definition GenerateJobHeader :: "byte list \<Rightarrow> u64 list option" where
  "GenerateJobHeader headerData = (if length headerData < 32 then None
     else Some (map (\<lambda>i. via_hex (dec_u64 (take 8 (drop i headerData)))) [0, 8, 16, 24]))"

definition GenerateLargeJobParams :: "byte list \<Rightarrow> u64 \<Rightarrow> string option" where
  "GenerateLargeJobParams headerData timestamp = (if length headerData < 32 then None
     else (let timestampBytes = be_bytes 8 (unat timestamp);
               ids = map (\<lambda>i. be_nat (take 8 (drop i headerData))) [0, 8, 16, 24]
                     @ [le_nat timestampBytes]
           in Some (concat (map (fmt_hex 16) ids))))"

end
