(* ===== verification/HasherLemmas.thy ===== *)
theory HasherLemmas
  imports Hasher
begin

unbundle bit_operations_syntax

text \<open>
  What \<open>Hasher\<close> computes: the constants, the compact target as one formula, the order and the
  bounds of targets, the two job encodings as inverses of byte decoding, and the hashed block
  header as an unambiguous encoding of the template.
\<close>

subsection \<open>Constants and targets\<close>

text \<open>The literal with 56 hexadecimal F digits is a float constant, so it is the power of two.\<close>

lemma maxTarget_eq: "maxTarget = 2 ^ 224"
proof -
  have "ilog2 (2 ^ 224 - 1) = 223" by (rule ilog2_unique) simp_all
  then have e: "f64_exp (2 ^ 224 - 1) = 171" by (simp add: f64_exp_def)
  have "rne ((2 ^ 224 - 1) / 2 powi 171) = 2 ^ 53" by (rule rne_near) simp
  with e show ?thesis by (simp add: maxTarget_def round_to_def)
qed

lemma minHash_eq: "minHash = 2 ^ 32"
proof -
  have "(2::rat) ^ 256 / maxTarget = 2 powi 32" by (simp add: maxTarget_eq)
  then show ?thesis using big_round_pow2 [of 53 32] by (simp add: minHash_def)
qed

lemma uint_and_24: "uint (w AND 16777215 :: u64) = uint w mod 2 ^ 24"
proof -
  have "(16777215 :: u64) = mask 24" by (simp add: mask_eq_exp_minus_1)
  then have "w AND 16777215 = take_bit 24 w" by (simp add: take_bit_eq_mask)
  then have "uint (w AND 16777215) = take_bit 24 (uint w)" by (simp only: unsigned_take_bit_eq)
  then show ?thesis by (simp add: take_bit_eq_mod)
qed

lemma trunc_mono: "x \<le> y \<Longrightarrow> trunc x \<le> trunc y"
proof -
  assume xy: "x \<le> y"
  have "\<lceil>x\<rceil> \<le> \<lfloor>y\<rfloor>" if "\<not> 0 \<le> x" "0 \<le> y"
  proof -
    have "\<lceil>x\<rceil> \<le> 0" using that by (simp add: ceiling_le_iff)
    also have "0 \<le> \<lfloor>y\<rfloor>" using that by simp
    finally show ?thesis .
  qed
  then show "trunc x \<le> trunc y"
    unfolding trunc_def using xy floor_mono [OF xy] ceiling_mono [OF xy] by auto
qed

lemma DiffToTarget_Fin:
  "d \<noteq> 0 \<Longrightarrow> DiffToTarget (Fin d) = Some (Some (trunc (big_round 53 (2 ^ 224 / d))))"
  by (simp add: DiffToTarget_def maxTarget_eq)

lemma target_antitone:
  assumes "0 < d" and "d \<le> e"
  shows "trunc (big_round 53 (2 ^ 224 / e)) \<le> trunc (big_round 53 (2 ^ 224 / d))"
  using assms by (intro trunc_mono big_round_mono divide_left_mono) auto

lemma target_nonneg: "0 < d \<Longrightarrow> 0 \<le> trunc (big_round 53 (2 ^ 224 / d))"
  using big_round_nonneg [of 53 "2 ^ 224 / d"] by (simp add: trunc_def)

lemma target_le_pow2:
  assumes "2 powi (- n) \<le> d"
  shows "trunc (big_round 53 (2 ^ 224 / d)) \<le> \<lfloor>(2::rat) powi (224 + n)\<rfloor>"
proof -
  have d: "0 < d" using assms powi_pos [of "- n"] by linarith
  have "2 ^ 224 / d \<le> 2 ^ 224 / 2 powi (- n)" using assms d by (intro divide_left_mono) auto
  also have "\<dots> = 2 powi (224 + n)" by (simp add: power_int_add power_int_minus divide_inverse)
  finally have "big_round 53 (2 ^ 224 / d) \<le> big_round 53 (2 powi (224 + n))"
    by (intro big_round_mono) auto
  also have "\<dots> = 2 powi (224 + n)" by (rule big_round_pow2) simp
  finally have "trunc (big_round 53 (2 ^ 224 / d)) \<le> trunc (2 powi (224 + n))" by (rule trunc_mono)
  then show ?thesis by (simp add: trunc_def)
qed

subsection \<open>Job encodings\<close>

lemma via_hex_id [simp]: "via_hex v = v"
  by (simp add: via_hex_def)

lemma take8_split:
  assumes "32 \<le> length xs"
  shows "take 8 xs @ take 8 (drop 8 xs) @ take 8 (drop 16 xs) @ take 8 (drop 24 xs) = take 32 xs"
proof -
  have "take 32 xs = take (8 + (8 + (8 + 8))) xs" by simp
  also have "\<dots> = take 8 xs @ take 8 (drop 8 xs) @ take 8 (drop 16 xs) @ take 8 (drop 24 xs)"
    by (simp only: take_add drop_drop) simp
  finally show ?thesis by simp
qed

lemma is_hex_digits_of: "2 \<le> b \<Longrightarrow> b \<le> 16 \<Longrightarrow> is_hex (digits_of b n)"
  using set_digits_of [of b n] hex_val_digit by (fastforce simp: is_hex_def list_all_iff)

lemma is_hex_fmt_hex: "is_hex (fmt_hex w n)"
  using is_hex_digits_of [of 16 n]
  by (auto simp: fmt_hex_def zero_pad_def is_hex_def hex_val_def list_all_iff set_replicate_conv_if)

lemma be_bytes_be_nat: "length bs = n \<Longrightarrow> be_bytes n (be_nat bs) = bs"
  by (simp add: be_bytes_def be_nat_def le_bytes_le_nat)

lemma be_nat_less: "be_nat bs < 256 ^ length bs"
  using le_nat_less [of "rev bs"] by (simp add: be_nat_def)

lemma hex_decode_fmt_hex:
  assumes "n < 256 ^ 8"
  shows "hex_decode (fmt_hex 16 n) = be_bytes 8 n"
proof -
  have l: "length (fmt_hex 16 n) = 16" using assms by (intro length_fmt_hex) auto
  then have "length (hex_decode (fmt_hex 16 n)) = 8"
    using length_hex_decode [OF is_hex_fmt_hex, of 16 n] by simp
  moreover have "be_nat (hex_decode (fmt_hex 16 n)) = n"
    using hex_decode_be_nat [OF is_hex_fmt_hex, of 16 n] l by simp
  ultimately show ?thesis using be_bytes_be_nat [of "hex_decode (fmt_hex 16 n)" 8] by simp
qed

lemma hex_decode_fields:
  "\<forall>v \<in> set vs. v < 256 ^ 8 \<Longrightarrow>
   hex_decode (concat (map (fmt_hex 16) vs)) = concat (map (be_bytes 8) vs)"
proof (induction vs)
  case Nil
  then show ?case by simp
next
  case (Cons v vs)
  then have "even (length (fmt_hex 16 v))" using length_fmt_hex [of v 16] by simp
  then show ?case using Cons by (simp add: hex_decode_append is_hex_fmt_hex hex_decode_fmt_hex)
qed

lemma length_hex_fields:
  "\<forall>v \<in> set vs. v < 256 ^ 8 \<Longrightarrow> length (concat (map (fmt_hex 16) vs)) = 16 * length vs"
  by (induction vs) (auto simp: length_fmt_hex)

subsection \<open>The hashed header\<close>

lemma pad_front_eq: "pad_front padding bw = replicate (padding - length bw) (CHR ''0'') @ bw"
proof (induction padding bw rule: pad_front.induct)
  case (1 padding bw)
  show ?case
  proof (cases "length bw < padding")
    case True
    then have "padding - length bw = Suc (padding - Suc (length bw))" by simp
    then show ?thesis using 1 True
      by (subst pad_front.simps) (simp add: replicate_app_Cons_same)
  qed (subst pad_front.simps, simp)
qed

lemma padded_blue_work_eq: "padded_blue_work bw = replicate (length bw mod 2) (CHR ''0'') @ bw"
  by (simp add: padded_blue_work_def pad_front_eq)

lemma fold_writeHexString:
  "fold (\<lambda>h hs. writeHexString hs h) v hs = hs @ concat (map hex_decode v)"
  by (induction v arbitrary: hs) (auto simp: writeHexString_def)

text \<open>The header as one concatenation of fields.\<close>

abbreviation enc_level :: "string list \<Rightarrow> byte list" where
  "enc_level v \<equiv> enc_u64 (word_of_nat (length v)) @ concat (map hex_decode v)"

lemma write_parents_eq: "write_parents hs ps = hs @ concat (map enc_level ps)"
  by (induction ps arbitrary: hs)
    (auto simp: write_parents_def fold_writeHexString write64_def)

lemma header_bytes_eq:
  "header_bytes h = enc_u16 (ucast (Version h))
     @ enc_u64 (word_of_nat (length (Parents h))) @ concat (map enc_level (Parents h))
     @ hex_decode (HashMerkleRoot h) @ hex_decode (AcceptedIDMerkleRoot h)
     @ hex_decode (UTXOCommitment h) @ header_details h
     @ enc_u64 (word_of_nat (length (hex_decode (padded_blue_work (BlueWork h)))))
     @ hex_decode (padded_blue_work (BlueWork h)) @ hex_decode (PruningPoint h)"
  by (simp add: header_bytes_def write_parents_eq write16_def write64_def writeHexString_def Let_def)

text \<open>Text that the node prints: lower-case hexadecimal, 64 characters for a hash.\<close>

definition lower_hex :: "string \<Rightarrow> bool" where
  "lower_hex s \<longleftrightarrow> list_all (\<lambda>c. case hex_val c of None \<Rightarrow> False | Some d \<Rightarrow> hex_digit d = c) s"

definition hash_text :: "string \<Rightarrow> bool" where
  "hash_text s \<longleftrightarrow> lower_hex s \<and> length s = 64"

lemma lower_hex_is_hex: "lower_hex s \<Longrightarrow> is_hex s"
  by (auto simp: lower_hex_def is_hex_def list_all_iff split: option.splits)

lemma hex_decode_inject:
  "lower_hex s \<Longrightarrow> lower_hex t \<Longrightarrow> even (length s) \<Longrightarrow> length s = length t \<Longrightarrow>
   hex_decode s = hex_decode t \<Longrightarrow> s = t"
proof (induction s arbitrary: t rule: hex_decode.induct)
  case (1 a b r)
  then obtain c d u where t: "t = c # d # u" by (cases t; cases "tl t") auto
  from "1.prems" obtain x y where x: "hex_val a = Some x" "hex_digit x = a"
    and y: "hex_val b = Some y" "hex_digit y = b"
    by (auto simp: lower_hex_def split: option.splits)
  from "1.prems" obtain x' y' where x': "hex_val c = Some x'" "hex_digit x' = c"
    and y': "hex_val d = Some y'" "hex_digit y' = d"
    by (auto simp: t lower_hex_def split: option.splits)
  have bnd: "x < 16" "y < 16" "x' < 16" "y' < 16"
    using x(1) y(1) x'(1) y'(1) hex_val_less by blast+
  have byte: "unat (word_of_nat (16 * m + n) :: byte) = 16 * m + n" if "m < 16" "n < 16" for m n
    using that by (subst unat_of_nat) simp
  have "(word_of_nat (16 * x + y) :: byte) = word_of_nat (16 * x' + y')"
    using "1.prems"(5) by (simp add: t x y x' y')
  then have "16 * x + y = 16 * x' + y'" using byte bnd by metis
  then have xy: "16 * x + y = 16 * x' + y'" .
  from arg_cong [OF xy, of "\<lambda>n. n div 16"] bnd have "x = x'" by simp
  moreover from this xy have "y = y'" by simp
  moreover have "r = u"
    using "1.prems" by (intro "1.IH" [OF refl x(1) y(1)]) (auto simp: t x y x' y' lower_hex_def)
  ultimately show ?case using t x y x' y' by simp
qed auto

lemma length_decode_hash: "hash_text s \<Longrightarrow> length (hex_decode s) = 32"
  by (simp add: hash_text_def length_hex_decode lower_hex_is_hex)

interpretation hash: prefix_code hex_decode hash_text
proof
  fix x y r s
  assume "hash_text x" "hash_text y" "hex_decode x @ r = hex_decode y @ s"
  moreover from this have "hex_decode x = hex_decode y \<and> r = s"
    by (simp add: length_decode_hash)
  ultimately show "x = y \<and> r = s" using hex_decode_inject by (simp add: hash_text_def)
qed

lemma enc_level_counted: "length v < 2 ^ 64 \<Longrightarrow> enc_level v = enc_counted 8 hex_decode v"
  by (simp add: enc_counted_def enc_u64_def unat_of_nat)

interpretation level: prefix_code "enc_counted 8 hex_decode" "ok_counted 8 hash_text"
  by (rule hash.counted)

interpretation levels: prefix_code "enc_counted 8 (enc_counted 8 hex_decode)"
    "ok_counted 8 (ok_counted 8 hash_text)"
  by (rule level.counted)

text \<open>A block template as the node sends it: hashes are printed in full, and no list is longer
  than a 64-bit count.\<close>

definition template_ok :: "rpc_header \<Rightarrow> bool" where
  "template_ok h \<longleftrightarrow> ok_counted 8 (ok_counted 8 hash_text) (Parents h)
     \<and> hash_text (HashMerkleRoot h) \<and> hash_text (AcceptedIDMerkleRoot h)
     \<and> hash_text (UTXOCommitment h) \<and> hash_text (PruningPoint h)
     \<and> lower_hex (BlueWork h) \<and> length (BlueWork h) < 2 ^ 64"

lemma header_bytes_fields:
  assumes "template_ok h"
  shows "header_bytes h = enc_u16 (ucast (Version h))
     @ enc_counted 8 (enc_counted 8 hex_decode) (Parents h)
     @ hex_decode (HashMerkleRoot h) @ hex_decode (AcceptedIDMerkleRoot h)
     @ hex_decode (UTXOCommitment h)
     @ enc_u64 0 @ enc_u32 (Bits h) @ enc_u64 0 @ enc_u64 (DAAScore h) @ enc_u64 (BlueScore h)
     @ enc_u64 (word_of_nat (length (hex_decode (padded_blue_work (BlueWork h)))))
     @ hex_decode (padded_blue_work (BlueWork h)) @ hex_decode (PruningPoint h)"
proof -
  have len: "length (Parents h) < 2 ^ 64"
    and lev: "\<forall>v \<in> set (Parents h). length v < 2 ^ 64"
    using assms by (auto simp: template_ok_def ok_counted_def list_all_iff)
  have "concat (map enc_level (Parents h)) = concat (map (enc_counted 8 hex_decode) (Parents h))"
    using lev enc_level_counted by (intro arg_cong [where f = concat] map_cong) auto
  moreover have "enc_u64 (word_of_nat (length (Parents h))) = le_bytes 8 (length (Parents h))"
    using len by (simp add: enc_u64_def unat_of_nat)
  ultimately show ?thesis
    by (simp add: header_bytes_eq enc_counted_def [of 8 "enc_counted 8 hex_decode"] header_details_def)
qed

lemma zero_lower_hex: "hex_val (CHR ''0'') = Some 0" "hex_digit 0 = CHR ''0''"
  by code_simp+

lemma lower_hex_padded: "lower_hex bw \<Longrightarrow> lower_hex (padded_blue_work bw)"
  by (auto simp: padded_blue_work_eq lower_hex_def list_all_iff zero_lower_hex set_replicate_conv_if)

lemma even_padded: "even (length (padded_blue_work bw))"
  by (simp add: padded_blue_work_eq)

lemma length_padded: "length (padded_blue_work bw) \<le> Suc (length bw)"
  using mod_less_divisor [of 2 "length bw"] by (simp add: padded_blue_work_eq)

lemma blue_work_cancel:
  assumes "lower_hex b" "length b < 2 ^ 64" "lower_hex c" "length c < 2 ^ 64"
    and eq: "enc_u64 (word_of_nat (length (hex_decode (padded_blue_work b))))
        @ hex_decode (padded_blue_work b) @ r
      = enc_u64 (word_of_nat (length (hex_decode (padded_blue_work c))))
        @ hex_decode (padded_blue_work c) @ s"
  shows "padded_blue_work b = padded_blue_work c \<and> r = s"
proof -
  let ?n = "\<lambda>b. length (hex_decode (padded_blue_work b))"
  have len: "?n b = length (padded_blue_work b) div 2" if "lower_hex b" for b
    using that by (simp add: length_hex_decode lower_hex_is_hex lower_hex_padded)
  have small: "?n b < 2 ^ 64" if "lower_hex b" "length b < 2 ^ 64" for b
    using len [OF that(1)] length_padded [of b] that(2) by simp
  have w: "(word_of_nat (?n b) :: u64) = word_of_nat (?n c)"
    and rest: "hex_decode (padded_blue_work b) @ r = hex_decode (padded_blue_work c) @ s"
    using u64.cancel [OF TrueI TrueI eq] by blast+
  from w have "unat (word_of_nat (?n b) :: u64) = unat (word_of_nat (?n c) :: u64)" by simp
  then have n: "?n b = ?n c" using small assms by (simp add: unat_of_nat)
  with rest have dec: "hex_decode (padded_blue_work b) = hex_decode (padded_blue_work c)" and "r = s"
    by auto
  have "length (padded_blue_work b) = length (padded_blue_work c)"
    using n len assms even_padded by (metis dvd_mult_div_cancel)
  then have "padded_blue_work b = padded_blue_work c"
    using hex_decode_inject dec even_padded lower_hex_padded assms by blast
  with \<open>r = s\<close> show ?thesis by simp
qed

text \<open>
  C9: the bytes hashed for a block template determine every consensus field of it (the version
  up to the 16 bits that are written, the blue work up to its zero padding): two templates that
  differ in one of them are hashed from different bytes.
\<close>

theorem header_bytes_inject:
  assumes "template_ok h" and "template_ok k" and "header_bytes h = header_bytes k"
  shows "(ucast (Version h) :: u16) = ucast (Version k) \<and> Parents h = Parents k
    \<and> HashMerkleRoot h = HashMerkleRoot k \<and> AcceptedIDMerkleRoot h = AcceptedIDMerkleRoot k
    \<and> UTXOCommitment h = UTXOCommitment k \<and> Bits h = Bits k \<and> DAAScore h = DAAScore k
    \<and> BlueScore h = BlueScore k
    \<and> padded_blue_work (BlueWork h) = padded_blue_work (BlueWork k)
    \<and> PruningPoint h = PruningPoint k"
proof -
  note eq = assms(3) [unfolded header_bytes_fields [OF assms(1)] header_bytes_fields [OF assms(2)]]
  note ok = assms(1,2) [unfolded template_ok_def]
  note version = u16.cancel [OF TrueI TrueI eq]
  have p: "ok_counted 8 (ok_counted 8 hash_text) (Parents h)"
    "ok_counted 8 (ok_counted 8 hash_text) (Parents k)" using ok by simp_all
  have m: "hash_text (HashMerkleRoot h)" "hash_text (HashMerkleRoot k)" using ok by simp_all
  have a: "hash_text (AcceptedIDMerkleRoot h)" "hash_text (AcceptedIDMerkleRoot k)" using ok by simp_all
  have u: "hash_text (UTXOCommitment h)" "hash_text (UTXOCommitment k)" using ok by simp_all
  have w: "lower_hex (BlueWork h)" "length (BlueWork h) < 2 ^ 64"
    "lower_hex (BlueWork k)" "length (BlueWork k) < 2 ^ 64" using ok by simp_all
  have pp: "hash_text (PruningPoint h)" "hash_text (PruningPoint k)" using ok by simp_all
  note parents = levels.cancel [OF p version [THEN conjunct2]]
  note merkle = hash.cancel [OF m parents [THEN conjunct2]]
  note accepted = hash.cancel [OF a merkle [THEN conjunct2]]
  note utxo = hash.cancel [OF u accepted [THEN conjunct2]]
  note ts = u64.cancel [OF TrueI TrueI utxo [THEN conjunct2]]
  note bits = u32.cancel [OF TrueI TrueI ts [THEN conjunct2]]
  note nonce = u64.cancel [OF TrueI TrueI bits [THEN conjunct2]]
  note daa = u64.cancel [OF TrueI TrueI nonce [THEN conjunct2]]
  note blue = u64.cancel [OF TrueI TrueI daa [THEN conjunct2]]
  note work = blue_work_cancel [OF w blue [THEN conjunct2]]
  note pruning = hash.enc_inject [OF pp work [THEN conjunct2]]
  show ?thesis
    using version parents merkle accepted utxo bits daa blue work pruning
    by (elim conjE, intro conjI)
qed

definition sample_header :: rpc_header where
  "sample_header = \<lparr>Version = 1, Parents = [[replicate 64 (CHR ''a'')], []],
     HashMerkleRoot = replicate 64 (CHR ''b''), AcceptedIDMerkleRoot = replicate 64 (CHR ''c''),
     UTXOCommitment = replicate 64 (CHR ''d''), Timestamp = 1662696346, Bits = 453325233,
     Nonce = 7, DAAScore = 19, BlueScore = 20, BlueWork = ''30df5'',
     PruningPoint = replicate 64 (CHR ''e'')\<rparr>"

lemma sample_header_ok: "template_ok sample_header"
  by code_simp

theorem header_bytes_inject_witness:
  "(let k = sample_header\<lparr>Timestamp := 5, Nonce := 9\<rparr> in
     header_bytes sample_header = header_bytes k \<and> Parents sample_header = Parents k
     \<and> Bits sample_header = Bits k)"
proof -
  let ?k = "sample_header\<lparr>Timestamp := 5, Nonce := 9\<rparr>"
  have k: "template_ok ?k" by code_simp
  have eq: "header_bytes sample_header = header_bytes ?k"
    by (simp add: header_bytes_def header_details_def)
  show ?thesis
    using header_bytes_inject [OF sample_header_ok k eq] eq unfolding Let_def by blast
qed

subsection \<open>Properties of jobs and targets\<close>

lemma uint_drop_bit: "uint (drop_bit n w) = uint w div 2 ^ n" for w :: u64
proof -
  have "uint (drop_bit n w) = drop_bit n (uint w)"
    by (rule bit_eqI) (auto simp: bit_uint_iff bit_drop_bit_eq Bit_Operations.bit_drop_bit_eq
        dest: bit_imp_le_length)
  then show ?thesis by (simp add: drop_bit_eq_div)
qed

lemma eight_times:
  assumes "0 \<le> n" and "n < 2 ^ 40"
  shows "unat (8 * word_of_int n :: u64) = 8 * nat n"
proof -
  have "(8 * word_of_int n :: u64) = word_of_int (8 * n)" by simp
  then have "uint (8 * word_of_int n :: u64) = (8 * n) mod 2 ^ 64"
    by (simp only: uint_word_of_int) simp
  then have "uint (8 * word_of_int n :: u64) = 8 * n" using assms by simp
  then show ?thesis using assms by (simp add: unat_eq_nat_uint nat_mult_distrib del: nat_uint_eq)
qed

text \<open>
  The compact target of a header is the truncated value of mantissa times \<open>256 ^ (exponent - 3)\<close>,
  where the low 24 bits are the mantissa and the bits above them the exponent, for every 64-bit
  input: both branches of the code and their shifts are one formula.
\<close>

theorem CalculateTarget_formula:
  "CalculateTarget bits
     = \<lfloor>of_int (uint bits mod 2 ^ 24) * (256::rat) powi (uint bits div 2 ^ 24 - 3)\<rfloor>"
proof -
  define e where "e = uint bits div 2 ^ 24"
  define m where "m = uint bits mod 2 ^ 24"
  have mant: "uint (bits AND 16777215) = m" by (simp add: uint_and_24 m_def)
  have ue: "uint (drop_bit 24 bits) = e"
    by (simp only: e_def uint_drop_bit)
  have e0: "0 \<le> e" "e < 2 ^ 40"
    using uint_bounded [of bits] uint_nonnegative [of bits]
      pos_imp_zdiv_nonneg_iff [of "2 ^ 24" "uint bits"]
    by (auto simp: e_def div_less_iff_less_mult)
  have e_le: "drop_bit 24 bits \<le> 3 \<longleftrightarrow> e \<le> 3" using ue by (simp add: word_le_def)
  show ?thesis
  proof (cases "e \<le> 3")
    case True
    have "3 - drop_bit 24 bits = (word_of_int (3 - e) :: u64)" using ue by (metis word_of_int_uint wi_hom_sub word_of_int_numeral)
    then have k: "unat (8 * (3 - drop_bit 24 bits)) = 8 * nat (3 - e)"
      using True e0 eight_times [of "3 - e"] by simp
    have "CalculateTarget bits = m div 2 ^ (8 * nat (3 - e))"
      using True by (simp only: CalculateTarget_def Let_def e_le if_True k uint_drop_bit mant)
    also have "\<dots> = \<lfloor>of_int m / of_int (2 ^ (8 * nat (3 - e))) :: rat\<rfloor>"
      by (simp only: floor_divide_of_int_eq)
    also have "(of_int m / of_int (2 ^ (8 * nat (3 - e))) :: rat) = of_int m * 256 powi (e - 3)"
    proof -
      have "(256::rat) powi (e - 3) = inverse (256 ^ nat (3 - e))"
        using True by (cases "e = 3") (auto simp: power_int_def power_one_over inverse_eq_divide)
      then show ?thesis by (simp add: power_mult divide_inverse)
    qed
    finally show ?thesis by (simp add: m_def e_def)
  next
    case False
    have "drop_bit 24 bits - 3 = (word_of_int (e - 3) :: u64)" using ue by (metis word_of_int_uint wi_hom_sub word_of_int_numeral)
    then have k: "unat (8 * (drop_bit 24 bits - 3)) = 8 * nat (e - 3)"
      using False e0 eight_times [of "e - 3"] by simp
    have "(of_int m * 256 powi (e - 3) :: rat) = of_int (m * 256 ^ nat (e - 3))"
      using False by (simp add: power_int_def)
    moreover have "CalculateTarget bits = m * 256 ^ nat (e - 3)"
      using False by (simp only: CalculateTarget_def Let_def e_le if_False k mant power_mult) simp
    ultimately show ?thesis by (simp only: floor_of_int flip: m_def e_def)
  qed
qed

text \<open>
  The four numbers of \<^verbatim>\<open>GenerateJobHeader\<close>, written back as little-endian words, are the 32
  bytes of the header hash; a hash shorter than 32 bytes makes the call panic.
\<close>

theorem GenerateJobHeader_roundtrip:
  "GenerateJobHeader headerData = (if length headerData < 32 then None
     else Some (map dec_u64 [take 8 headerData, take 8 (drop 8 headerData),
       take 8 (drop 16 headerData), take 8 (drop 24 headerData)]))
   \<and> map_option (\<lambda>ids. concat (map enc_u64 ids)) (GenerateJobHeader headerData)
     = (if length headerData < 32 then None else Some (take 32 headerData))"
  using take8_split [of headerData]
  by (auto simp: GenerateJobHeader_def enc_dec_u64)

text \<open>
  The job text for BzMiner-style miners is always 80 characters, and its bytes are the header
  hash followed by the timestamp in little-endian order; a short hash makes the call panic.
\<close>

theorem GenerateLargeJobParams_bytes:
  "case GenerateLargeJobParams headerData timestamp of
     None \<Rightarrow> length headerData < 32
   | Some s \<Rightarrow> length s = 80 \<and> is_hex s
       \<and> hex_decode s = take 32 headerData @ enc_u64 timestamp"
proof (cases "length headerData < 32")
  case True
  then show ?thesis by (simp add: GenerateLargeJobParams_def)
next
  case False
  define vs where "vs = map (\<lambda>i. be_nat (take 8 (drop i headerData))) [0, 8, 16, 24]
    @ [le_nat (be_bytes 8 (unat timestamp))]"
  have s: "GenerateLargeJobParams headerData timestamp = Some (concat (map (fmt_hex 16) vs))"
    using False by (simp add: GenerateLargeJobParams_def vs_def Let_def)
  have small: "\<forall>v \<in> set vs. v < 256 ^ 8"
    using False be_nat_less [of "take 8 headerData"] be_nat_less [of "take 8 (drop 8 headerData)"]
      be_nat_less [of "take 8 (drop 16 headerData)"] be_nat_less [of "take 8 (drop 24 headerData)"]
      le_nat_less [of "be_bytes 8 (unat timestamp)"]
    by (auto simp: vs_def)
  have "be_bytes 8 (le_nat (be_bytes 8 (unat timestamp))) = enc_u64 timestamp"
    by (simp add: be_bytes_def le_bytes_le_nat enc_u64_def)
  then have "concat (map (be_bytes 8) vs) = take 32 headerData @ enc_u64 timestamp"
    using False take8_split [of headerData] by (simp add: vs_def be_bytes_be_nat)
  moreover have "is_hex (concat (map (fmt_hex 16) vs))"
    using is_hex_fmt_hex by (fastforce simp: is_hex_def list_all_iff)
  moreover have "length vs = 5" by (simp add: vs_def)
  ultimately show ?thesis
    using hex_decode_fields [OF small] length_hex_fields [OF small] by (simp add: s)
qed

end
