(* ===== verification/MiningState.thy ===== *)
theory MiningState
  imports HasherLemmas
begin

text \<open>
  \<^verbatim>\<open>src/cryptixstratum/mining_state.go\<close>: what the bridge keeps for one connection. The jobs sent to
  the miner are a ring of 32 slots; \<^verbatim>\<open>jobCounter\<close> (an \<^verbatim>\<open>int\<close>, one step per block template) is an
  integer that does not come near 64 bits. The locks make each operation atomic. \<open>None\<close> of a
  result is a panic (a NaN difficulty, or a nil target that is copied).

  The locale \<open>job_store\<close> is what the connection handlers use of the ring: the identifier sent with
  a job finds that job for as long as fewer than 32 newer ones were added.
\<close>

definition maxjobs :: int where
  "maxjobs = 32"

record 'tx MiningState =
  Jobs :: "int \<rightharpoonup> 'tx rpc_block"
  jobCounter :: int
  bigDiff :: int
  initialized :: bool
  useBigJob :: bool
  connectTime :: int
  stratumDiff :: "cryptixDiff option"

definition MiningStateGenerator :: "int \<Rightarrow> 'tx MiningState" where
  "MiningStateGenerator now = \<lparr>Jobs = Map.empty, jobCounter = 0, bigDiff = 0, initialized = False,
     useBigJob = False, connectTime = now, stratumDiff = None\<rparr>"

definition AddJob :: "'tx rpc_block \<Rightarrow> 'tx MiningState \<Rightarrow> int \<times> 'tx MiningState" where
  "AddJob job ms =
     (let idx = jobCounter ms + 1
      in (idx, ms\<lparr>jobCounter := idx, Jobs := (Jobs ms)(go_rem idx maxjobs \<mapsto> job)\<rparr>))"

definition GetJob :: "'tx MiningState \<Rightarrow> int \<Rightarrow> 'tx rpc_block option" where
  "GetJob ms i = Jobs ms (go_rem i maxjobs)"

text \<open>The regular expression \<^verbatim>\<open>.*BzMiner.*\<close>, unanchored.\<close>

definition bigJobRegex :: "string \<Rightarrow> bool" where
  "bigJobRegex s = contains s ''BzMiner''"

definition InitializeIfNeeded ::
    "string \<Rightarrow> f64 \<Rightarrow> 'tx MiningState \<Rightarrow> (bool \<times> 'tx MiningState) option" where
  "InitializeIfNeeded remoteApp minShareDiff ms =
     (if initialized ms then Some (False, ms)
      else (case setDiffValue minShareDiff newCryptixDiff of
        None \<Rightarrow> None
      | Some k \<Rightarrow> Some (True, ms\<lparr>initialized := True, useBigJob := bigJobRegex remoteApp,
                               stratumDiff := Some k\<rparr>)))"

definition SetNetworkTarget :: "u64 \<Rightarrow> 'tx MiningState \<Rightarrow> f64 \<times> 'tx MiningState" where
  "SetNetworkTarget bits ms =
     (let t = CalculateTarget bits in (TargetToDiff t, ms\<lparr>bigDiff := t\<rparr>))"

definition SetStratumDiff :: "f64 \<Rightarrow> 'tx MiningState \<Rightarrow> (f64 \<times> 'tx MiningState) option" where
  "SetStratumDiff d ms =
     (let k = (case stratumDiff ms of None \<Rightarrow> newCryptixDiff | Some k \<Rightarrow> k) in
      case setDiffValue d k of
        None \<Rightarrow> None
      | Some k' \<Rightarrow> Some (diffValue k, ms\<lparr>stratumDiff := Some k'\<rparr>))"

definition GetStratumDiffValue :: "'tx MiningState \<Rightarrow> f64" where
  "GetStratumDiffValue ms = (case stratumDiff ms of None \<Rightarrow> 0 | Some k \<Rightarrow> diffValue k)"

definition GetUseBigJob :: "'tx MiningState \<Rightarrow> bool" where
  "GetUseBigJob ms = useBigJob ms"

text \<open>Hash value, copy of the target (\<open>None\<close> is nil), difficulty; copying a nil target panics.\<close>

definition GetStratumDiffSnapshot :: "'tx MiningState \<Rightarrow> (f64 \<times> int option \<times> f64) option" where
  "GetStratumDiffSnapshot ms = (case stratumDiff ms of
     None \<Rightarrow> Some (0, None, 0)
   | Some k \<Rightarrow> (case targetValue k of
       None \<Rightarrow> None
     | Some t \<Rightarrow> Some (hashValue k, Some t, diffValue k)))"

subsection \<open>The ring of jobs\<close>

definition add_all :: "('j \<Rightarrow> 's \<Rightarrow> int \<times> 's) \<Rightarrow> 'j list \<Rightarrow> 's \<Rightarrow> 's" where
  "add_all add js s = fold (\<lambda>j s. snd (add j s)) js s"

locale job_store =
  fixes add :: "'j \<Rightarrow> 's \<Rightarrow> int \<times> 's" and get :: "'s \<Rightarrow> int \<Rightarrow> 'j option"
    and count :: "'s \<Rightarrow> int" and cap :: int
  assumes cap_pos: "0 < cap"
    and add_id: "fst (add j s) = count s + 1"
    and add_count: "count (snd (add j s)) = count s + 1"
    and get_add: "0 \<le> count s \<Longrightarrow> 0 \<le> i \<Longrightarrow>
      get (snd (add j s)) i = (if i mod cap = (count s + 1) mod cap then Some j else get s i)"

context job_store begin

lemma count_add_all: "count (add_all add js s) = count s + int (length js)"
  by (induction js arbitrary: s) (auto simp: add_all_def add_count)

lemma add_all_snoc: "add_all add (js @ [j]) s = snd (add j (add_all add js s))"
  by (simp add: add_all_def)

text \<open>The newest identifier not above the counter that shares the slot of \<open>i\<close>.\<close>

lemma get_add_all:
  assumes "0 \<le> count s" and "0 \<le> i"
  shows "get (add_all add js s) i =
    (let n = count s + int (length js); k = n - (n - i) mod cap
     in if k \<le> count s then get s i else Some (js ! nat (k - count s - 1)))"
proof (induction js rule: rev_induct)
  case Nil
  have "0 \<le> (count s - i) mod cap" using cap_pos by simp
  then show ?case by (simp add: add_all_def Let_def)
next
  case (snoc j js)
  let ?c = "count s + int (length js)"
  have pos: "0 \<le> ?c" using assms by simp
  have n: "count s + int (length (js @ [j])) = ?c + 1" by simp
  have "get (add_all add (js @ [j]) s) i
      = (if i mod cap = (?c + 1) mod cap then Some j else get (add_all add js s) i)"
    using get_add [of "add_all add js s" i j] assms pos by (simp add: add_all_snoc count_add_all)
  also have "\<dots> = (let n = count s + int (length (js @ [j])); k = n - (n - i) mod cap
     in if k \<le> count s then get s i else Some ((js @ [j]) ! nat (k - count s - 1)))"
  proof (cases "i mod cap = (?c + 1) mod cap")
    case True
    then have "(?c + 1 - i) mod cap = 0" by (metis mod_eq_dvd_iff mod_0_imp_dvd dvd_imp_mod_0)
    then show ?thesis unfolding Let_def n using True by (simp only:) (simp add: nth_append)
  next
    case False
    have nz: "(?c + 1 - i) mod cap \<noteq> 0"
      using False by (metis mod_eq_dvd_iff mod_0_imp_dvd)
    have "(?c + 1 - i) mod cap = (?c - i) mod cap + 1"
    proof -
      have "(?c + 1 - i) mod cap = ((?c - i) mod cap + 1) mod cap"
        using mod_add_left_eq [of "?c - i" cap 1] by (simp add: algebra_simps)
      moreover have "(?c - i) mod cap + 1 \<le> cap" using cap_pos pos_mod_bound [of cap "?c - i"] by linarith
      moreover have "0 \<le> (?c - i) mod cap" using cap_pos by simp
      ultimately show ?thesis using nz by (cases "(?c - i) mod cap + 1 = cap") auto
    qed
    then have k: "?c + 1 - (?c + 1 - i) mod cap = ?c - (?c - i) mod cap" by simp
    have "0 \<le> (?c - i) mod cap" using cap_pos by simp
    then have "nat (?c - (?c - i) mod cap - count s - 1) < length js"
      if "\<not> ?c - (?c - i) mod cap \<le> count s" using that by linarith
    then show ?thesis unfolding Let_def n k snoc using False by (auto simp: nth_append)
  qed
  finally show ?case .
qed

text \<open>The identifier of a new job finds it until \<open>cap\<close> newer jobs were added.\<close>

lemma fresh_job:
  assumes "0 \<le> count s" and "int (length js) < cap"
  shows "get (add_all add js (snd (add j s))) (fst (add j s)) = Some j"
proof -
  let ?s = "snd (add j s)"
  have "(count ?s + int (length js) - (count s + 1)) mod cap = int (length js)"
    using assms by (simp add: add_count)
  then show ?thesis
    using get_add_all [of ?s "count s + 1" js] get_add [of s "count s + 1" j] assms
    by (simp add: add_id add_count Let_def)
qed

end

interpretation jobs: job_store AddJob GetJob jobCounter maxjobs
  by unfold_locales
    (auto simp: AddJob_def GetJob_def maxjobs_def Let_def go_rem_nonneg)

lemma Jobs_AddJob:
  "Jobs (snd (AddJob b ms)) = (Jobs ms)(go_rem (jobCounter ms + 1) maxjobs \<mapsto> b)"
  by (simp add: AddJob_def Let_def)

text \<open>
  C23: after any sequence of jobs was added to a fresh state, an identifier from 0 on finds the
  newest job whose number has the same remainder modulo 32, if there is one. So the last 32
  identifiers find exactly their own job, an older identifier finds a newer job, and an
  identifier that was not handed out yet finds an old job. A negative identifier finds nothing,
  unless it is a multiple of 32, which means slot 0.
\<close>

theorem GetJob_newest_in_slot:
  fixes js :: "'tx rpc_block list"
  shows "GetJob (add_all AddJob js (MiningStateGenerator now)) i =
    (let n = int (length js);
         k = (if 0 \<le> i then n - (n - i) mod 32 else if i mod 32 = 0 then n - n mod 32 else 0)
     in if k \<le> 0 then None else Some (js ! nat (k - 1)))"
proof -
  let ?g = "MiningStateGenerator now :: 'tx MiningState"
  let ?s = "add_all AddJob js ?g"
  have empty: "GetJob ?g j = None" for j by (simp add: GetJob_def MiningStateGenerator_def)
  have c0: "jobCounter ?g = 0" by (simp add: MiningStateGenerator_def)
  have nonneg: "GetJob ?s j = (let n = int (length js); k = n - (n - j) mod 32
      in if k \<le> 0 then None else Some (js ! nat (k - 1)))" if "0 \<le> j" for j
    using jobs.get_add_all [of ?g j js] that by (simp add: c0 empty maxjobs_def Let_def)
  have slots: "Jobs (add_all AddJob js ?g) s = None" if "s < 0" for s
  proof (induction js rule: rev_induct)
    case Nil
    then show ?case by (simp add: add_all_def MiningStateGenerator_def)
  next
    case (snoc j js)
    have "go_rem (jobCounter (add_all AddJob js ?g) + 1) maxjobs \<noteq> s"
      using that jobs.count_add_all [of js ?g] pos_mod_sign [of 32 "int (length js) + 1"]
      by (simp add: c0 go_rem_nonneg maxjobs_def)
    with snoc show ?case by (simp add: jobs.add_all_snoc Jobs_AddJob)
  qed
  show ?thesis
  proof (cases "0 \<le> i")
    case True
    then show ?thesis using nonneg by simp
  next
    case False
    then have r: "go_rem i maxjobs = - ((- i) mod 32)" by (simp add: go_rem_def maxjobs_def)
    show ?thesis
    proof (cases "i mod 32 = 0")
      case True
      then have "go_rem i maxjobs = 0" using r by (simp add: zmod_zminus1_eq_if)
      then have "GetJob ?s i = GetJob ?s 0" by (simp add: GetJob_def go_rem_nonneg maxjobs_def)
      then show ?thesis using nonneg [of 0] True False by (simp add: Let_def)
    next
      case False
      then have "0 < (- i) mod 32" by (simp add: zmod_zminus1_eq_if)
      then show ?thesis using r slots False \<open>\<not> 0 \<le> i\<close> by (simp add: GetJob_def Let_def)
    qed
  qed
qed

lemma GetJob_AddJob:
  "0 \<le> jobCounter ms \<Longrightarrow> GetJob (snd (AddJob b ms)) (fst (AddJob b ms)) = Some b"
  using jobs.fresh_job [of ms "[]" b] by (simp add: add_all_def maxjobs_def)

text \<open>
  The identifier that \<^verbatim>\<open>AddJob\<close> returns keeps finding its job while at most 31 newer jobs are
  added, whatever the state was.
\<close>

lemma GetJob_fresh:
  assumes "0 \<le> jobCounter ms" and "length js < 32"
  shows "GetJob (add_all AddJob js (snd (AddJob b ms))) (fst (AddJob b ms)) = Some b"
  using assms by (intro jobs.fresh_job) (simp_all add: maxjobs_def)

subsection \<open>Difficulties that have a target\<close>

text \<open>A difficulty for which no operation panics: neither NaN nor zero. A connection whose
  difficulty was set from such values always has a target.\<close>

definition diff_ok :: "f64 \<Rightarrow> bool" where
  "diff_ok d \<longleftrightarrow> d \<noteq> NaN \<and> d \<noteq> Fin 0"

definition mining_ok :: "'tx MiningState \<Rightarrow> bool" where
  "mining_ok ms \<longleftrightarrow> (case stratumDiff ms of None \<Rightarrow> True
     | Some k \<Rightarrow> diff_ok (diffValue k) \<and> targetValue k \<noteq> None)"

lemma setDiffValue_ok:
  assumes "diff_ok d"
  shows "\<exists>k'. setDiffValue d k = Some k' \<and> diffValue k' = d \<and> targetValue k' \<noteq> None"
  using assms by (cases d) (auto simp: setDiffValue_def DiffToTarget_def DiffToHash_def diff_ok_def)

lemma MiningStateGenerator_ok: "mining_ok (MiningStateGenerator now)"
  by (simp add: mining_ok_def MiningStateGenerator_def)

lemma InitializeIfNeeded_ok:
  assumes "mining_ok ms" and "diff_ok d"
  shows "\<exists>b ms'. InitializeIfNeeded app d ms = Some (b, ms') \<and> mining_ok ms'"
  using assms setDiffValue_ok [OF assms(2), of newCryptixDiff]
  by (auto simp: InitializeIfNeeded_def mining_ok_def)

lemma SetStratumDiff_ok:
  assumes "diff_ok d"
  shows "\<exists>old ms'. SetStratumDiff d ms = Some (old, ms') \<and> mining_ok ms' \<and> GetStratumDiffValue ms' = d"
  using assms setDiffValue_ok [OF assms, of "case stratumDiff ms of None \<Rightarrow> newCryptixDiff | Some k \<Rightarrow> k"]
  by (auto simp: SetStratumDiff_def mining_ok_def GetStratumDiffValue_def Let_def)

lemma mining_ok_frame [simp]:
  "mining_ok (snd (AddJob b ms)) = mining_ok ms"
  "mining_ok (snd (SetNetworkTarget bits ms)) = mining_ok ms"
  by (simp_all add: mining_ok_def AddJob_def SetNetworkTarget_def Let_def)

lemma snapshot_ok: "mining_ok ms \<Longrightarrow> GetStratumDiffSnapshot ms \<noteq> None"
  by (auto simp: mining_ok_def GetStratumDiffSnapshot_def split: option.splits)

lemma GetStratumDiffValue_ok: "mining_ok ms \<Longrightarrow> GetStratumDiffValue ms \<noteq> NaN"
  by (auto simp: mining_ok_def GetStratumDiffValue_def diff_ok_def zero_f64_def split: option.splits)

end
