(* ===== verification/Sv2Codec.thy ===== *)
theory Sv2Codec
  imports HasherLemmas
begin

unbundle bit_operations_syntax

text \<open>
  \<^verbatim>\<open>src/cryptixstratum/sv2_codec.go\<close>: the framing of Stratum V2 (6-byte header, 24-bit length), the
  cursor that reads payloads, the three payloads the bridge receives and the eight it sends.
  The connection is the bytes still to come and the error that ends them.
\<close>

definition sv2ExtStandard :: u16 where "sv2ExtStandard = 0"
definition sv2ExtChannel :: u16 where "sv2ExtChannel = 0x8000"
definition sv2MsgSetupConnection :: byte where "sv2MsgSetupConnection = 0"
definition sv2MsgSetupConnectionSuccess :: byte where "sv2MsgSetupConnectionSuccess = 1"
definition sv2MsgSetupConnectionError :: byte where "sv2MsgSetupConnectionError = 2"
definition sv2MsgOpenStandardMiningChannel :: byte where "sv2MsgOpenStandardMiningChannel = 0x10"
definition sv2MsgOpenMiningChannelSuccess :: byte where "sv2MsgOpenMiningChannelSuccess = 0x11"
definition sv2MsgOpenMiningChannelError :: byte where "sv2MsgOpenMiningChannelError = 0x12"
definition sv2MsgNewMiningJob :: byte where "sv2MsgNewMiningJob = 0x15"
definition sv2MsgSubmitSharesStandard :: byte where "sv2MsgSubmitSharesStandard = 0x1A"
definition sv2MsgSubmitSharesSuccess :: byte where "sv2MsgSubmitSharesSuccess = 0x1C"
definition sv2MsgSubmitSharesError :: byte where "sv2MsgSubmitSharesError = 0x1D"
definition sv2MsgSetNewPrevHash :: byte where "sv2MsgSetNewPrevHash = 0x20"
definition sv2MsgSetTarget :: byte where "sv2MsgSetTarget = 0x21"

definition sv2MaxFramePayloadBytes :: nat where
  "sv2MaxFramePayloadBytes = 1048576"

lemmas sv2_message_types = sv2MsgSetupConnection_def sv2MsgSetupConnectionSuccess_def
  sv2MsgSetupConnectionError_def sv2MsgOpenStandardMiningChannel_def
  sv2MsgOpenMiningChannelSuccess_def sv2MsgOpenMiningChannelError_def sv2MsgNewMiningJob_def
  sv2MsgSubmitSharesStandard_def sv2MsgSubmitSharesSuccess_def sv2MsgSubmitSharesError_def
  sv2MsgSetNewPrevHash_def sv2MsgSetTarget_def

subsection \<open>Frames\<close>

record sv2Frame =
  ExtensionType :: u16
  MessageType :: byte
  Payload :: "byte list"

record reader =
  pending :: "byte list"
  ending :: go_error

text \<open>\<^verbatim>\<open>io.ReadFull\<close>: all \<open>n\<close> bytes, or the error that ends the stream. A stream that ends in the
  middle gives \<^verbatim>\<open>io.ErrUnexpectedEOF\<close>, which the only caller replaces by \<^verbatim>\<open>io.EOF\<close>; both are
  \<open>ErrEOF\<close> here.\<close>

definition ReadFull :: "nat \<Rightarrow> reader \<Rightarrow> go_error + byte list \<times> reader" where
  "ReadFull n rd = (if n \<le> length (pending rd)
     then Inr (take n (pending rd), rd\<lparr>pending := drop n (pending rd)\<rparr>)
     else Inl (ending rd))"

definition payload_len :: "byte \<Rightarrow> byte \<Rightarrow> byte \<Rightarrow> nat" where
  "payload_len b0 b1 b2 = unat b0 OR push_bit 8 (unat b1) OR push_bit 16 (unat b2)"

definition readSV2Frame :: "reader \<Rightarrow> go_error + sv2Frame \<times> reader" where
  "readSV2Frame rd = (case ReadFull 6 rd of
     Inl e \<Rightarrow> Inl e
   | Inr (header, rd1) \<Rightarrow>
       (let extensionType = dec_u16 (take 2 header);
            messageType = header ! 2;
            payloadLen = payload_len (header ! 3) (header ! 4) (header ! 5)
        in if sv2MaxFramePayloadBytes < payloadLen then Inl (ErrOther ''sv2 frame too large'')
           else (case ReadFull payloadLen rd1 of
               Inl e \<Rightarrow> Inl e
             | Inr (payload, rd2) \<Rightarrow>
                 Inr (\<lparr>ExtensionType = extensionType, MessageType = messageType,
                        Payload = payload\<rparr>, rd2))))"

definition encodeSV2Frame :: "u16 \<Rightarrow> byte \<Rightarrow> byte list \<Rightarrow> go_error + byte list" where
  "encodeSV2Frame extensionType messageType payload =
     (if 0xFFFFFF < length payload then Inl (ErrOther ''sv2 payload too large'')
      else Inr (enc_u16 extensionType @ [messageType]
        @ [word_of_nat (length payload), word_of_nat (drop_bit 8 (length payload)),
           word_of_nat (drop_bit 16 (length payload))]
        @ payload))"

subsection \<open>The cursor\<close>

record sv2Cursor =
  cdata :: "byte list"
  pos :: nat

definition newSV2Cursor :: "byte list \<Rightarrow> sv2Cursor" where
  "newSV2Cursor bs = \<lparr>cdata = bs, pos = 0\<rparr>"

definition remaining :: "sv2Cursor \<Rightarrow> int" where
  "remaining c = int (length (cdata c)) - int (pos c)"

definition readBytes :: "nat \<Rightarrow> sv2Cursor \<Rightarrow> byte list option \<times> sv2Cursor" where
  "readBytes n c = (if remaining c < int n then (None, c)
     else (Some (take n (drop (pos c) (cdata c))), c\<lparr>pos := pos c + n\<rparr>))"

definition readU8 :: "sv2Cursor \<Rightarrow> byte option \<times> sv2Cursor" where
  "readU8 c = (case readBytes 1 c of (None, c') \<Rightarrow> (None, c') | (Some v, c') \<Rightarrow> (Some (v ! 0), c'))"

definition readU16 :: "sv2Cursor \<Rightarrow> u16 option \<times> sv2Cursor" where
  "readU16 c = (case readBytes 2 c of (None, c') \<Rightarrow> (None, c') | (Some v, c') \<Rightarrow> (Some (dec_u16 v), c'))"

definition readU32 :: "sv2Cursor \<Rightarrow> u32 option \<times> sv2Cursor" where
  "readU32 c = (case readBytes 4 c of (None, c') \<Rightarrow> (None, c') | (Some v, c') \<Rightarrow> (Some (dec_u32 v), c'))"

definition readStr0_255 :: "sv2Cursor \<Rightarrow> string option \<times> sv2Cursor" where
  "readStr0_255 c = (case readU8 c of
     (None, c') \<Rightarrow> (None, c')
   | (Some n, c') \<Rightarrow> (case readBytes (unat n) c' of
       (None, c'') \<Rightarrow> (None, c'')
     | (Some v, c'') \<Rightarrow> (Some (bytes_str v), c'')))"

text \<open>A read whose failure ends the parse with an error of its own.\<close>

definition need ::
    "(sv2Cursor \<Rightarrow> 'a option \<times> sv2Cursor) \<Rightarrow> string \<Rightarrow> sv2Cursor
     \<Rightarrow> ('a \<Rightarrow> sv2Cursor \<Rightarrow> string + 'b) \<Rightarrow> string + 'b" where
  "need rd msg c k = (case rd c of (None, _) \<Rightarrow> Inl msg | (Some v, c') \<Rightarrow> k v c')"

subsection \<open>Payloads received\<close>

definition parseSV2SetupConnectionPayload :: "byte list \<Rightarrow> string + string" where
  "parseSV2SetupConnectionPayload payload =
    (let cursor = newSV2Cursor payload in
     need readU8 ''missing protocol'' cursor (\<lambda>_ cursor.
     need readU16 ''missing min version'' cursor (\<lambda>_ cursor.
     need readU16 ''missing max version'' cursor (\<lambda>_ cursor.
     need readU32 ''missing flags'' cursor (\<lambda>_ cursor.
     need readStr0_255 ''missing host'' cursor (\<lambda>_ cursor.
     need readU16 ''missing port'' cursor (\<lambda>_ cursor.
     need readStr0_255 ''missing vendor'' cursor (\<lambda>vendor cursor.
     need readStr0_255 ''missing hardware version'' cursor (\<lambda>_ cursor.
     need readStr0_255 ''missing firmware'' cursor (\<lambda>firmware cursor.
     need readStr0_255 ''missing device id'' cursor (\<lambda>_ cursor.
     if firmware \<noteq> [] then Inr firmware
     else if vendor \<noteq> [] then Inr vendor
     else Inr ''sv2-client'')))))))))))"

definition parseSV2OpenStandardChannelPayload :: "byte list \<Rightarrow> string + u32 \<times> string" where
  "parseSV2OpenStandardChannelPayload payload =
    (let cursor = newSV2Cursor payload in
     need readU32 ''missing request id'' cursor (\<lambda>requestID cursor.
     need readStr0_255 ''missing worker'' cursor (\<lambda>worker cursor.
     need (readBytes 4) ''missing nominal hashrate'' cursor (\<lambda>_ cursor.
     need (readBytes 32) ''missing max target'' cursor (\<lambda>_ cursor.
     Inr (requestID, worker))))))"

definition parseSV2SubmitSharePayload ::
    "byte list \<Rightarrow> string + u32 \<times> u32 \<times> u32 \<times> u32 \<times> u32" where
  "parseSV2SubmitSharePayload payload =
    (let cursor = newSV2Cursor payload in
     need readU32 ''missing channel id'' cursor (\<lambda>channelID cursor.
     need readU32 ''missing sequence'' cursor (\<lambda>sequence cursor.
     need readU32 ''missing job id'' cursor (\<lambda>jobID cursor.
     need readU32 ''missing nonce'' cursor (\<lambda>nonce cursor.
     need readU32 ''missing ntime'' cursor (\<lambda>ntime cursor.
     need readU32 ''missing version'' cursor (\<lambda>_ cursor.
     Inr (channelID, sequence, jobID, nonce, ntime))))))))"

subsection \<open>Payloads sent\<close>

definition putU16 :: "byte list \<Rightarrow> u16 \<Rightarrow> byte list" where
  "putU16 out v = out @ enc_u16 v"

definition putU32 :: "byte list \<Rightarrow> u32 \<Rightarrow> byte list" where
  "putU32 out v = out @ enc_u32 v"

definition printable :: "char \<Rightarrow> bool" where
  "printable c \<longleftrightarrow> (let n = (of_char c :: nat) in 32 \<le> n \<and> n \<le> 126)"

fun sanitize :: "string \<Rightarrow> string \<Rightarrow> string" where
  "sanitize acc [] = acc"
| "sanitize acc (c # cs) = (if length acc < 255
     then sanitize (if printable c then acc @ [c] else acc) cs else acc)"

definition putStr0_255 :: "byte list \<Rightarrow> string \<Rightarrow> byte list" where
  "putStr0_255 out v = (let sanitized = sanitize [] v in
     out @ [word_of_nat (length sanitized)] @ str_bytes sanitized)"

definition encodeSV2SetupConnectionSuccessPayload :: "u16 \<Rightarrow> u32 \<Rightarrow> byte list" where
  "encodeSV2SetupConnectionSuccessPayload usedVersion flags = putU32 (putU16 [] usedVersion) flags"

definition encodeSV2SetupConnectionErrorPayload :: "u32 \<Rightarrow> string \<Rightarrow> byte list" where
  "encodeSV2SetupConnectionErrorPayload flags code = putStr0_255 (putU32 [] flags) code"

definition encodeSV2OpenChannelSuccessPayload ::
    "u32 \<Rightarrow> u32 \<Rightarrow> byte list \<Rightarrow> byte list \<Rightarrow> byte list" where
  "encodeSV2OpenChannelSuccessPayload requestID channelID targetLE extranonce =
     (let extranonce = (if 255 < length extranonce then take 255 extranonce else extranonce);
          out = putU32 [] requestID;
          out = putU32 out channelID;
          out = out @ targetLE;
          out = out @ [word_of_nat (length extranonce)];
          out = out @ extranonce
      in putU32 out 0)"

definition encodeSV2OpenChannelErrorPayload :: "u32 \<Rightarrow> string \<Rightarrow> byte list" where
  "encodeSV2OpenChannelErrorPayload requestID code = putStr0_255 (putU32 [] requestID) code"

definition encodeSV2SetTargetPayload :: "u32 \<Rightarrow> byte list \<Rightarrow> byte list" where
  "encodeSV2SetTargetPayload channelID targetLE = putU32 [] channelID @ targetLE"

definition encodeSV2NewMiningJobPayload :: "u32 \<Rightarrow> u32 \<Rightarrow> u32 \<Rightarrow> byte list \<Rightarrow> byte list" where
  "encodeSV2NewMiningJobPayload channelID jobID version prePowHash =
     (let out = putU32 (putU32 [] channelID) jobID;
          out = out @ [0];
          out = putU32 out version
      in out @ prePowHash)"

definition encodeSV2SetNewPrevHashPayload ::
    "u32 \<Rightarrow> u32 \<Rightarrow> byte list \<Rightarrow> u32 \<Rightarrow> u32 \<Rightarrow> byte list" where
  "encodeSV2SetNewPrevHashPayload channelID jobID prevHash minNTime nBits =
     (let out = putU32 (putU32 [] channelID) jobID;
          out = out @ prevHash
      in putU32 (putU32 out minNTime) nBits)"

definition encodeSV2SubmitSuccessPayload :: "u32 \<Rightarrow> u32 \<Rightarrow> byte list" where
  "encodeSV2SubmitSuccessPayload channelID sequence = putU32 (putU32 [] channelID) sequence"

definition encodeSV2SubmitErrorPayload :: "u32 \<Rightarrow> u32 \<Rightarrow> string \<Rightarrow> byte list" where
  "encodeSV2SubmitErrorPayload channelID sequence code =
     putStr0_255 (putU32 (putU32 [] channelID) sequence) code"

subsection \<open>Targets\<close>

text \<open>\<^verbatim>\<open>big.Int.Bytes\<close>: the absolute value, big endian, without leading zeros.\<close>

fun big_bytes :: "nat \<Rightarrow> byte list" where
  "big_bytes n = (if n = 0 then [] else big_bytes (n div 256) @ [word_of_nat (n mod 256)])"

declare big_bytes.simps [simp del]

definition min_sv2_diff :: f64 where
  "min_sv2_diff = to_f64 (1 / 100000)"

text \<open>\<open>None\<close> is a panic: NaN, or a nil target (which the lower bound excludes).\<close>

definition diffToSV2TargetLE :: "f64 \<Rightarrow> byte list option" where
  "diffToSV2TargetLE diff = (case DiffToTarget (f64_max diff min_sv2_diff) of
     Some (Some target) \<Rightarrow>
       (let be = big_bytes (nat \<bar>target\<bar>)
        in Some (map (\<lambda>i. if i < length be then be ! (length be - 1 - i) else 0) [0..<32]))
   | _ \<Rightarrow> None)"

definition bytesToFixed32 :: "byte list \<Rightarrow> go_error + byte list" where
  "bytesToFixed32 input = (if length input \<noteq> 32 then Inl (ErrOther ''expected 32-byte hash'')
     else Inr input)"

end
