(* ===== verification/Sv2CodecLemmas.thy ===== *)
theory Sv2CodecLemmas
  imports Sv2Codec
begin

unbundle bit_operations_syntax

text \<open>
  The Stratum V2 codec: frames survive the way through the stream and are cut off exactly, the
  payload parsers accept exactly the layouts of the protocol (followed by anything), what the
  bridge sends can be read field by field, and the target of a channel is the 256-bit
  little-endian form of the share target. The locale \<open>field_reader\<close> is the contract of one
  cursor read; each read of the code is an interpretation.
\<close>

subsection \<open>Frames\<close>

lemma add_eq_or_8: "m < 256 \<Longrightarrow> m OR push_bit 8 n = m + 256 * n" for m n :: nat
proof -
  assume m: "m < 256"
  have "m + push_bit 8 n = m OR push_bit 8 n"
  proof (rule disjunctive_add)
    fix i
    have "take_bit 8 m = m" using m by (simp add: take_bit_eq_mod)
    then have "bit m i \<Longrightarrow> i < 8" by (metis bit_take_bit_iff)
    then show "\<not> bit m i \<or> \<not> bit (push_bit 8 n) i" by (auto simp: bit_push_bit_iff)
  qed
  then show ?thesis by (simp add: push_bit_eq_mult mult.commute)
qed

lemma payload_len_eq: "payload_len b0 b1 b2 = le_nat [b0, b1, b2]"
proof -
  have "push_bit 8 (unat b1) OR push_bit 16 (unat b2) = push_bit 8 (unat b1 OR push_bit 8 (unat b2))"
    by (simp add: push_bit_or push_bit_push_bit)
  then have "payload_len b0 b1 b2 = unat b0 OR push_bit 8 (unat b1 OR push_bit 8 (unat b2))"
    by (simp add: payload_len_def or.assoc)
  then show ?thesis by (simp add: add_eq_or_8)
qed

lemma len_bytes:
  "[word_of_nat n, word_of_nat (drop_bit 8 n), word_of_nat (drop_bit 16 n)] = le_bytes 3 n"
proof -
  have b: "(word_of_nat (k mod 256) :: byte) = word_of_nat k" for k
  proof -
    have "unat (word_of_nat (k mod 256) :: byte) = unat (word_of_nat k :: byte)"
      by (simp add: unat_of_nat)
    then show ?thesis by (simp only: word_unat_eq_iff)
  qed
  show ?thesis
    by (simp add: numeral_3_eq_3 b drop_bit_eq_div div_mult2_eq [symmetric])
qed

lemma encodeSV2Frame_layout:
  "encodeSV2Frame ext mt payload = (if 0xFFFFFF < length payload then Inl (ErrOther ''sv2 payload too large'')
     else Inr (enc_u16 ext @ [mt] @ le_bytes 3 (length payload) @ payload))"
  by (simp add: encodeSV2Frame_def len_bytes)

lemma readSV2Frame_layout:
  assumes "length lb = 3"
  shows "readSV2Frame \<lparr>pending = enc_u16 ext @ [mt] @ lb @ body, ending = e\<rparr> =
    (if sv2MaxFramePayloadBytes < le_nat lb then Inl (ErrOther ''sv2 frame too large'')
     else if length body < le_nat lb then Inl e
     else Inr (\<lparr>ExtensionType = ext, MessageType = mt, Payload = take (le_nat lb) body\<rparr>,
               \<lparr>pending = drop (le_nat lb) body, ending = e\<rparr>))"
proof -
  obtain x y z where lb: "lb = [x, y, z]"
    using assms by (auto simp: numeral_3_eq_3 length_Suc_conv)
  obtain p q where ext: "enc_u16 ext = [p, q]"
    by (simp add: enc_u16_def numeral_2_eq_2)
  have d: "dec_u16 [p, q] = ext" using dec_enc_uint(1) [of ext] ext by simp
  show ?thesis
    by (simp add: readSV2Frame_def ReadFull_def ext lb d payload_len_eq Let_def not_le
        numeral_eq_Suc del: le_nat.simps)
qed

text \<open>
  C26: a frame that \<^verbatim>\<open>encodeSV2Frame\<close> produced is read back exactly, and the stream continues
  right behind it; the reader refuses the frames between its own 1 MiB limit and the 24-bit limit
  of the encoder, and the encoder refuses longer payloads.
\<close>

theorem sv2_frame_roundtrip:
  "case encodeSV2Frame ext mt payload of
     Inl _ \<Rightarrow> 2 ^ 24 \<le> length payload
   | Inr bs \<Rightarrow> length payload < 2 ^ 24 \<and> length bs = 6 + length payload
       \<and> readSV2Frame \<lparr>pending = bs @ tail, ending = e\<rparr> =
         (if 2 ^ 20 < length payload then Inl (ErrOther ''sv2 frame too large'')
          else Inr (\<lparr>ExtensionType = ext, MessageType = mt, Payload = payload\<rparr>,
                    \<lparr>pending = tail, ending = e\<rparr>))"
proof (cases "0xFFFFFF < length payload")
  case True
  then show ?thesis by (simp add: encodeSV2Frame_def)
next
  case False
  then have "le_nat (le_bytes 3 (length payload)) = length payload"
    by (simp add: le_nat_le_bytes)
  then show ?thesis
    using False readSV2Frame_layout [of "le_bytes 3 (length payload)" ext mt "payload @ tail" e]
    by (simp add: encodeSV2Frame_layout sv2MaxFramePayloadBytes_def)
qed

text \<open>
  C25: a successful read consumes one whole frame: the bytes taken are the encoding of the frame
  returned, the payload is within the limit, and the rest of the stream is untouched. A stream
  that ends inside a frame yields the error that ended it.
\<close>

theorem readSV2Frame_exact:
  "case readSV2Frame rd of
     Inr (f, rd') \<Rightarrow> ending rd' = ending rd \<and> length (Payload f) \<le> 2 ^ 20
       \<and> (\<exists>bs. encodeSV2Frame (ExtensionType f) (MessageType f) (Payload f) = Inr bs
              \<and> pending rd = bs @ pending rd')
   | Inl e \<Rightarrow> e = ending rd \<or> 6 \<le> length (pending rd)"
proof (cases "length (pending rd) < 6")
  case True
  then show ?thesis by (simp add: readSV2Frame_def ReadFull_def)
next
  case False
  obtain bs where rd: "rd = \<lparr>pending = bs, ending = ending rd\<rparr>" by (cases rd) auto
  then have len: "6 \<le> length bs" using False by (metis not_le reader.select_convs(1))
  define lb where "lb = take 3 (drop 3 bs)"
  have lb: "length lb = 3" using len by (simp add: lb_def)
  have "length (take 2 bs) = 2" using len by simp
  then have e2: "enc_u16 (dec_u16 (take 2 bs)) = take 2 bs"
    using le_nat_less [of "take 2 bs"]
    by (simp add: enc_u16_def dec_u16_def unat_of_nat le_bytes_le_nat)
  have bs: "bs = enc_u16 (dec_u16 (take 2 bs)) @ [bs ! 2] @ lb @ drop 6 bs"
  proof -
    have "bs = take 2 bs @ drop 2 bs" by simp
    also have "drop 2 bs = bs ! 2 # drop 3 bs"
      using len Cons_nth_drop_Suc [of 2 bs] by simp
    also have "drop 3 bs = lb @ drop 6 bs"
      using append_take_drop_id [of 3 "drop 3 bs"] by (simp add: lb_def)
    finally show ?thesis using e2 by simp
  qed
  define n where "n = le_nat lb"
  have n: "n < 2 ^ 24" using le_nat_less [of lb] lb by (simp add: n_def)
  have lbn: "le_bytes 3 n = lb" using lb by (simp add: n_def le_bytes_le_nat)
  have read: "readSV2Frame rd =
    (if sv2MaxFramePayloadBytes < n then Inl (ErrOther ''sv2 frame too large'')
     else if length (drop 6 bs) < n then Inl (ending rd)
     else Inr (\<lparr>ExtensionType = dec_u16 (take 2 bs), MessageType = bs ! 2, Payload = take n (drop 6 bs)\<rparr>,
               \<lparr>pending = drop n (drop 6 bs), ending = ending rd\<rparr>))"
    using readSV2Frame_layout [OF lb, of "dec_u16 (take 2 bs)" "bs ! 2" "drop 6 bs" "ending rd"] rd bs
    by (simp add: n_def)
  show ?thesis
  proof (cases "sv2MaxFramePayloadBytes < n \<or> length (drop 6 bs) < n")
    case True
    moreover have "pending rd = bs" by (subst rd) simp
    ultimately show ?thesis using read len by (auto simp del: length_drop)
  next
    case F: False
    then have lt: "length (take n (drop 6 bs)) = n" by simp
    have "encodeSV2Frame (dec_u16 (take 2 bs)) (bs ! 2) (take n (drop 6 bs))
        = Inr (enc_u16 (dec_u16 (take 2 bs)) @ [bs ! 2] @ lb @ take n (drop 6 bs))"
      using n by (simp only: encodeSV2Frame_layout lt lbn) simp
    moreover have "pending rd = (enc_u16 (dec_u16 (take 2 bs)) @ [bs ! 2] @ lb @ take n (drop 6 bs))
        @ drop n (drop 6 bs)"
      using bs rd by (metis append.assoc append_take_drop_id reader.select_convs(1))
    ultimately show ?thesis
      using F read lt by (simp add: sv2MaxFramePayloadBytes_def del: drop_drop length_take)
  qed
qed

subsection \<open>The cursor\<close>

definition unread :: "sv2Cursor \<Rightarrow> byte list" where
  "unread c = drop (pos c) (cdata c)"

definition cursor_ok :: "sv2Cursor \<Rightarrow> bool" where
  "cursor_ok c \<longleftrightarrow> pos c \<le> length (cdata c)"

lemma new_cursor [simp]: "unread (newSV2Cursor bs) = bs" "cursor_ok (newSV2Cursor bs)"
  by (simp_all add: unread_def cursor_ok_def newSV2Cursor_def)

text \<open>The contract of a read: it succeeds exactly when the unread bytes start with an encoded
  value, and then stands right behind it.\<close>

locale field_reader =
  fixes rd :: "sv2Cursor \<Rightarrow> 'a option \<times> sv2Cursor" and enc :: "'a \<Rightarrow> byte list" and ok :: "'a \<Rightarrow> bool"
  assumes rd_enc: "cursor_ok c \<Longrightarrow> ok x \<Longrightarrow> unread c = enc x @ r \<Longrightarrow>
      \<exists>c'. rd c = (Some x, c') \<and> cursor_ok c' \<and> unread c' = r"
    and rd_Some: "cursor_ok c \<Longrightarrow> rd c = (Some x, c') \<Longrightarrow>
      ok x \<and> cursor_ok c' \<and> unread c = enc x @ unread c'"

context field_reader begin

lemma need_enc:
  assumes "cursor_ok c" and "ok x" and "unread c = enc x @ r"
    and "\<And>c'. cursor_ok c' \<Longrightarrow> unread c' = r \<Longrightarrow> k x c' = y"
  shows "need rd msg c k = y"
  using rd_enc [OF assms(1-3)] assms(4) by (auto simp: need_def)

lemma need_Inr:
  assumes "cursor_ok c" and "need rd msg c k = Inr y"
  obtains x c' where "k x c' = Inr y" and "ok x" and "cursor_ok c'" and "unread c = enc x @ unread c'"
  using assms rd_Some [OF assms(1)] by (auto simp: need_def split: prod.splits option.splits)

end

text \<open>Hence every read is a reader in the sense of \<open>Codecs\<close>, and its encoding a prefix code.\<close>

sublocale field_reader \<subseteq> wire:
    wire_reader enc "\<lambda>bs. case rd (newSV2Cursor bs) of (None, _) \<Rightarrow> None | (Some x, c) \<Rightarrow> Some (x, unread c)" ok
proof
  fix x r
  assume "ok x"
  then obtain c' where "rd (newSV2Cursor (enc x @ r)) = (Some x, c')" "unread c' = r"
    using rd_enc [of "newSV2Cursor (enc x @ r)" x r] by auto
  then show "(case rd (newSV2Cursor (enc x @ r)) of (None, _) \<Rightarrow> None
      | (Some x, c) \<Rightarrow> Some (x, unread c)) = Some (x, r)" by simp
qed

lemma readBytes_eq:
  assumes "cursor_ok c"
  shows "readBytes n c = (if length (unread c) < n then (None, c)
    else (Some (take n (unread c)), c\<lparr>pos := pos c + n\<rparr>))"
  using assms by (auto simp: readBytes_def remaining_def unread_def cursor_ok_def)

lemma advance:
  assumes "cursor_ok c" and "n \<le> length (unread c)"
  shows "cursor_ok (c\<lparr>pos := pos c + n\<rparr>)" and "unread (c\<lparr>pos := pos c + n\<rparr>) = drop n (unread c)"
  using assms by (auto simp: cursor_ok_def unread_def add.commute)

interpretation rBytes: field_reader "readBytes n" "\<lambda>bs. bs" "\<lambda>bs. length bs = n" for n
proof
  fix c x r
  assume "cursor_ok c" "length x = n" "unread c = x @ r"
  then show "\<exists>c'. readBytes n c = (Some x, c') \<and> cursor_ok c' \<and> unread c' = r"
    using advance [of c n] by (simp add: readBytes_eq)
next
  fix c x c'
  assume "cursor_ok c" "readBytes n c = (Some x, c')"
  then show "length x = n \<and> cursor_ok c' \<and> unread c = x @ unread c'"
    using advance [of c n] by (auto simp: readBytes_eq split: if_splits)
qed

text \<open>The fixed-width reads decode the bytes that \<open>readBytes\<close> returns.\<close>

lemma fixed_reader:
  assumes rd: "\<And>c. rd c = (case readBytes n c of (None, c') \<Rightarrow> (None, c') | (Some v, c') \<Rightarrow> (Some (dec v), c'))"
    and len: "\<And>x. length (enc x) = n" and de: "\<And>x. dec (enc x) = x"
    and ed: "\<And>v. length v = n \<Longrightarrow> enc (dec v) = v"
  shows "field_reader rd enc (\<lambda>_. True)"
proof
  fix c x r
  assume "cursor_ok c" "unread c = enc x @ r"
  then obtain c' where "readBytes n c = (Some (enc x), c')" "cursor_ok c'" "unread c' = r"
    using rBytes.rd_enc [of c "enc x" n r] len by auto
  then show "\<exists>c'. rd c = (Some x, c') \<and> cursor_ok c' \<and> unread c' = r" by (simp add: rd de)
next
  fix c x c'
  assume c: "cursor_ok c" and "rd c = (Some x, c')"
  then obtain v where v: "readBytes n c = (Some v, c')" "x = dec v"
    by (auto simp: rd split: prod.splits option.splits)
  then show "True \<and> cursor_ok c' \<and> unread c = enc x @ unread c'"
    using rBytes.rd_Some [OF c v(1)] ed by simp
qed

lemma enc_dec_u16: "length bs = 2 \<Longrightarrow> enc_u16 (dec_u16 bs) = bs"
  using le_nat_less [of bs] by (simp add: enc_u16_def dec_u16_def unat_of_nat le_bytes_le_nat)

interpretation rU8: field_reader readU8 "\<lambda>b. [b]" "\<lambda>_. True"
  by (rule fixed_reader [where dec = "\<lambda>v. v ! 0"]) (auto simp: readU8_def length_Suc_conv)

interpretation rU16: field_reader readU16 enc_u16 "\<lambda>_. True"
  by (rule fixed_reader) (auto simp: readU16_def enc_dec_u16)

interpretation rU32: field_reader readU32 enc_u32 "\<lambda>_. True"
  by (rule fixed_reader) (auto simp: readU32_def enc_dec_u32)

text \<open>A length byte, then that many bytes.\<close>

definition enc_str :: "string \<Rightarrow> byte list" where
  "enc_str s = word_of_nat (length s) # str_bytes s"

definition short :: "string \<Rightarrow> bool" where
  "short s \<longleftrightarrow> length s \<le> 255"

interpretation rStr: field_reader readStr0_255 enc_str short
proof
  fix c x r
  assume c: "cursor_ok c" and "short x" and u: "unread c = enc_str x @ r"
  then have n: "unat (word_of_nat (length x) :: byte) = length x" by (simp add: short_def unat_of_nat)
  from c u obtain c1 where c1: "readU8 c = (Some (word_of_nat (length x)), c1)"
    "cursor_ok c1" "unread c1 = str_bytes x @ r"
    using rU8.rd_enc [of c "word_of_nat (length x)" "str_bytes x @ r"] by (auto simp: enc_str_def)
  then obtain c2 where "readBytes (length x) c1 = (Some (str_bytes x), c2)" "cursor_ok c2" "unread c2 = r"
    using rBytes.rd_enc [of c1 "str_bytes x" "length x" r] by auto
  with c1 n show "\<exists>c'. readStr0_255 c = (Some x, c') \<and> cursor_ok c' \<and> unread c' = r"
    by (simp add: readStr0_255_def)
next
  fix c x c'
  assume c: "cursor_ok c" and "readStr0_255 c = (Some x, c')"
  then obtain n c1 v where n: "readU8 c = (Some n, c1)" and v: "readBytes (unat n) c1 = (Some v, c')"
    and x: "x = bytes_str v"
    by (auto simp: readStr0_255_def split: prod.splits option.splits)
  have "unat n < 256" by simp
  then have n_le: "unat n \<le> 255" by linarith
  have c1: "cursor_ok c1" "unread c = n # unread c1" using rU8.rd_Some [OF c n] by simp_all
  then have "length v = unat n" "cursor_ok c'" "unread c1 = v @ unread c'"
    using rBytes.rd_Some [OF c1(1) v] by simp_all
  then show "short x \<and> cursor_ok c' \<and> unread c = enc_str x @ unread c'"
    using c1 n_le by (simp add: x short_def enc_str_def)
qed

subsection \<open>What the parsers accept\<close>

text \<open>The layouts of the protocol's messages.\<close>

definition setup_layout ::
    "byte \<Rightarrow> u16 \<Rightarrow> u16 \<Rightarrow> u32 \<Rightarrow> string \<Rightarrow> u16 \<Rightarrow> string \<Rightarrow> string \<Rightarrow> string \<Rightarrow> string \<Rightarrow> byte list" where
  "setup_layout proto minv maxv flags host port vendor hw fw dev =
     [proto] @ enc_u16 minv @ enc_u16 maxv @ enc_u32 flags @ enc_str host @ enc_u16 port
     @ enc_str vendor @ enc_str hw @ enc_str fw @ enc_str dev"

definition open_layout :: "u32 \<Rightarrow> string \<Rightarrow> byte list \<Rightarrow> byte list \<Rightarrow> byte list" where
  "open_layout requestID worker hashrate target = enc_u32 requestID @ enc_str worker @ hashrate @ target"

definition submit_layout :: "u32 \<Rightarrow> u32 \<Rightarrow> u32 \<Rightarrow> u32 \<Rightarrow> u32 \<Rightarrow> u32 \<Rightarrow> byte list" where
  "submit_layout channelID sequence jobID nonce ntime version =
     enc_u32 channelID @ enc_u32 sequence @ enc_u32 jobID @ enc_u32 nonce @ enc_u32 ntime @ enc_u32 version"

lemmas need_encs = rU8.need_enc rU16.need_enc rU32.need_enc rStr.need_enc rBytes.need_enc

lemmas need_Inrs = rU8.need_Inr [rotated] rU16.need_Inr [rotated] rU32.need_Inr [rotated]
  rStr.need_Inr [rotated] rBytes.need_Inr [rotated]

lemma parse_submit_layout:
  "parseSV2SubmitSharePayload (submit_layout ch sq job nonce ntime ver @ rest)
     = Inr (ch, sq, job, nonce, ntime)"
proof -
  have u: "unread (newSV2Cursor (submit_layout ch sq job nonce ntime ver @ rest)) =
      enc_u32 ch @ enc_u32 sq @ enc_u32 job @ enc_u32 nonce @ enc_u32 ntime @ enc_u32 ver @ rest"
    by (simp add: submit_layout_def)
  show ?thesis
    unfolding parseSV2SubmitSharePayload_def Let_def
    by (rule rU32.need_enc [OF new_cursor(2) TrueI u],
        (rule rU32.need_enc, assumption, rule TrueI, assumption)+) (rule refl)
qed

lemma parse_open_layout:
  assumes "short worker" and "length hr = 4" and "length mt = 32"
  shows "parseSV2OpenStandardChannelPayload (open_layout rid worker hr mt @ rest) = Inr (rid, worker)"
proof -
  have u: "unread (newSV2Cursor (open_layout rid worker hr mt @ rest)) =
      enc_u32 rid @ enc_str worker @ hr @ mt @ rest"
    by (simp add: open_layout_def)
  show ?thesis
    unfolding parseSV2OpenStandardChannelPayload_def Let_def
    by (rule rU32.need_enc [OF new_cursor(2) TrueI u],
        (rule need_encs, assumption, rule TrueI assms, assumption)+) (rule refl)
qed

lemma parse_setup_layout:
  assumes "short host" and "short vendor" and "short hw" and "short fw" and "short dev"
  shows "parseSV2SetupConnectionPayload (setup_layout pr mn mx fl host port vendor hw fw dev @ rest)
    = Inr (if fw \<noteq> [] then fw else if vendor \<noteq> [] then vendor else ''sv2-client'')"
proof -
  have u: "unread (newSV2Cursor (setup_layout pr mn mx fl host port vendor hw fw dev @ rest)) =
      [pr] @ enc_u16 mn @ enc_u16 mx @ enc_u32 fl @ enc_str host @ enc_u16 port @ enc_str vendor
      @ enc_str hw @ enc_str fw @ enc_str dev @ rest"
    by (simp add: setup_layout_def)
  show ?thesis
    unfolding parseSV2SetupConnectionPayload_def Let_def
    by (rule rU8.need_enc [OF new_cursor(2) TrueI u],
        (rule need_encs, assumption, rule TrueI assms, assumption)+) simp
qed

lemma parse_submit_Inr:
  assumes "parseSV2SubmitSharePayload p = Inr r"
  shows "\<exists>ch sq job nonce ntime ver rest. p = submit_layout ch sq job nonce ntime ver @ rest
    \<and> r = (ch, sq, job, nonce, ntime)"
  using assms unfolding parseSV2SubmitSharePayload_def Let_def
  by (subst new_cursor(1) [of p, symmetric], elim need_Inrs, simp_all add: submit_layout_def) blast

lemma parse_open_Inr:
  assumes "parseSV2OpenStandardChannelPayload p = Inr r"
  shows "\<exists>rid worker hr mt rest. p = open_layout rid worker hr mt @ rest
    \<and> short worker \<and> length hr = 4 \<and> length mt = 32 \<and> r = (rid, worker)"
  using assms unfolding parseSV2OpenStandardChannelPayload_def Let_def
  by (subst new_cursor(1) [of p, symmetric], elim need_Inrs, simp_all add: open_layout_def) blast

lemma parse_setup_Inr:
  assumes "parseSV2SetupConnectionPayload p = Inr r"
  shows "\<exists>pr mn mx fl host port vendor hw fw dev rest.
    p = setup_layout pr mn mx fl host port vendor hw fw dev @ rest
    \<and> short host \<and> short vendor \<and> short hw \<and> short fw \<and> short dev
    \<and> r = (if fw \<noteq> [] then fw else if vendor \<noteq> [] then vendor else ''sv2-client'')
    \<and> r \<noteq> []"
  using assms unfolding parseSV2SetupConnectionPayload_def Let_def
  apply (elim need_Inrs)
  subgoal for pr c1 mn c2 mx c3 fl c4 host c5 port c6 vendor c7 hw c8 fw c9 dev c10
    by (rule exI [of _ pr], rule exI [of _ mn], rule exI [of _ mx], rule exI [of _ fl],
        rule exI [of _ host], rule exI [of _ port], rule exI [of _ vendor], rule exI [of _ hw],
        rule exI [of _ fw], rule exI [of _ dev], rule exI [of _ "unread c10"])
      (auto simp: setup_layout_def split: if_splits)
  by (assumption | rule new_cursor(2))+

text \<open>
  C24: a submit payload is accepted exactly when it starts with the six 32-bit fields of the
  message, little endian and in the protocol's order; then the parser returns the first five.
  Trailing bytes are ignored, everything shorter is an error.
\<close>

theorem submit_payload_iff:
  "parseSV2SubmitSharePayload p = Inr (ch, sq, job, nonce, ntime) \<longleftrightarrow>
     (\<exists>ver rest. p = submit_layout ch sq job nonce ntime ver @ rest)"
  using parse_submit_layout parse_submit_Inr by fastforce

text \<open>
  An open-channel payload is accepted exactly when it starts with request id, worker string
  of at most 255 bytes, 4 bytes of hash rate and 32 bytes of target; the parser returns the first
  two.
\<close>

theorem open_payload_iff:
  "parseSV2OpenStandardChannelPayload p = Inr (rid, worker) \<longleftrightarrow>
     (\<exists>hr mt rest. p = open_layout rid worker hr mt @ rest
        \<and> short worker \<and> length hr = 4 \<and> length mt = 32)"
  using parse_open_layout parse_open_Inr by fastforce

text \<open>
  A setup payload is accepted exactly when it has the ten fields of the message; the client
  is then named by its firmware, else by its vendor, else \<^verbatim>\<open>sv2-client\<close>, so never by the empty
  string.
\<close>

theorem setup_payload_iff:
  "parseSV2SetupConnectionPayload p = Inr app \<longleftrightarrow>
     (\<exists>pr mn mx fl host port vendor hw fw dev rest.
        p = setup_layout pr mn mx fl host port vendor hw fw dev @ rest
        \<and> short host \<and> short vendor \<and> short hw \<and> short fw \<and> short dev
        \<and> app = (if fw \<noteq> [] then fw else if vendor \<noteq> [] then vendor else ''sv2-client'')
        \<and> app \<noteq> [])"
  by (rule iffI, erule parse_setup_Inr, elim exE conjE, simp only: parse_setup_layout)

subsection \<open>What the bridge sends\<close>

lemma sanitize_eq: "length acc \<le> 255 \<Longrightarrow> sanitize acc v = acc @ take (255 - length acc) (filter printable v)"
proof (induction acc v rule: sanitize.induct)
  case (2 acc c cs)
  show ?case
  proof (cases "length acc < 255 \<and> printable c")
    case True
    then have "255 - length acc = Suc (254 - length acc)" by arith
    then show ?thesis using 2 True by simp
  qed (use 2 in auto)
qed simp

lemma short_take [simp]: "short (take 255 s)"
  by (simp add: short_def)

lemma putStr_eq [wire]: "putStr0_255 out v = out @ enc_str (take 255 (filter printable v))"
  by (simp add: putStr0_255_def sanitize_eq enc_str_def)

text \<open>
  The text of an error message arrives as its printable ASCII characters, cut off after 255:
  reading the payload of a refused share with the cursor yields the channel, the sequence number
  and that text, and leaves what follows.
\<close>

theorem submit_error_readable:
  "need readU32 m1 (newSV2Cursor (encodeSV2SubmitErrorPayload ch sq code @ rest)) (\<lambda>x c.
   need readU32 m2 c (\<lambda>y c. need readStr0_255 m3 c (\<lambda>s c. Inr (x, y, s, unread c))))
   = Inr (ch, sq, take 255 (filter printable code), rest)"
proof -
  have u: "unread (newSV2Cursor (encodeSV2SubmitErrorPayload ch sq code @ rest)) =
      enc_u32 ch @ enc_u32 sq @ enc_str (take 255 (filter printable code)) @ rest"
    by (simp add: encodeSV2SubmitErrorPayload_def putU32_def wire)
  show ?thesis
    by (rule rU32.need_enc [OF new_cursor(2) TrueI u],
        (rule need_encs, assumption, rule TrueI short_take, assumption)+) simp
qed

text \<open>
  The answer to an opened channel determines what it says: the request, the channel, the
  target and the extranonce (of at most 255 bytes) can be recovered from the payload.
\<close>

theorem open_success_readable:
  assumes "length target = 32" and "length xn \<le> 255"
  shows "need readU32 m1 (newSV2Cursor (encodeSV2OpenChannelSuccessPayload rid ch target xn)) (\<lambda>x c.
   need readU32 m2 c (\<lambda>y c. need (readBytes 32) m3 c (\<lambda>t c.
   need readStr0_255 m4 c (\<lambda>e c. need readU32 m5 c (\<lambda>g c. Inr (x, y, t, str_bytes e, g, unread c))))))
   = Inr (rid, ch, target, xn, 0, [])"
proof -
  have u: "unread (newSV2Cursor (encodeSV2OpenChannelSuccessPayload rid ch target xn)) =
      enc_u32 rid @ enc_u32 ch @ target @ enc_str (bytes_str xn) @ enc_u32 0 @ []"
    using assms by (simp add: encodeSV2OpenChannelSuccessPayload_def putU32_def Let_def enc_str_def)
  have s: "short (bytes_str xn)" using assms by (simp add: short_def)
  show ?thesis
    by (rule rU32.need_enc [OF new_cursor(2) TrueI u],
        (rule need_encs, assumption, rule TrueI s assms, assumption)+) simp
qed

theorem open_success_readable_witness:
  "need readU32 [] (newSV2Cursor (encodeSV2OpenChannelSuccessPayload 7 9 (replicate 32 1) [2, 3])) (\<lambda>x c.
   need readU32 [] c (\<lambda>y c. need (readBytes 32) [] c (\<lambda>t c.
   need readStr0_255 [] c (\<lambda>e c. need readU32 [] c (\<lambda>g c. Inr (x, y, t, str_bytes e, g, unread c))))))
   = Inr (7, 9, replicate 32 1, [2, 3], 0, [])"
  by (rule open_success_readable) simp_all

subsection \<open>The target of a channel\<close>

lemma big_bytes_nat: "be_nat (big_bytes n) = n"
proof (induction n rule: big_bytes.induct)
  case (1 n)
  show ?case
  proof (cases "n = 0")
    case True
    then show ?thesis by (subst big_bytes.simps) (simp add: be_nat_def)
  next
    case False
    have "unat (word_of_nat (n mod 256) :: byte) = n mod 256" by (subst unat_of_nat) simp
    then show ?thesis using 1 [OF False] False by (subst big_bytes.simps) (simp add: be_nat_def)
  qed
qed

lemma length_big_bytes: "n < 256 ^ k \<Longrightarrow> length (big_bytes n) \<le> k"
proof (induction n arbitrary: k rule: big_bytes.induct)
  case (1 n)
  show ?case
  proof (cases "n = 0")
    case True
    then show ?thesis by (subst big_bytes.simps) simp
  next
    case False
    then obtain j where k: "k = Suc j" using "1.prems" by (cases k) auto
    have "n div 256 < 256 ^ j" using "1.prems" k by (intro less_mult_imp_div_less) (simp add: mult.commute)
    then show ?thesis using "1.IH" [OF False] k False by (subst big_bytes.simps) simp
  qed
qed

lemma map_pad_right:
  assumes "length xs \<le> n"
  shows "map (\<lambda>i. if i < length xs then xs ! (length xs - 1 - i) else z) [0..<n]
    = rev xs @ replicate (n - length xs) z"
  using assms by (intro nth_equalityI) (auto simp: nth_append rev_nth)

lemma min_sv2_diff_eq: "min_sv2_diff = Fin (5902958103587057 / 2 ^ 69)"
proof -
  have "ilog2 (1 / 100000) = - 17" by (rule ilog2_unique) (simp_all add: power_int_minus)
  then have e: "f64_exp (1 / 100000) = - 69" by (simp add: f64_exp_def)
  have "rne (2 ^ 69 / 100000) = 5902958103587057" by (rule rne_near) simp
  then show ?thesis
    by (simp add: min_sv2_diff_def to_f64_def round_to_def e power_int_minus Let_def)
qed

lemma min_sv2_diff_le:
  "diff \<noteq> NaN \<Longrightarrow> f64_max diff min_sv2_diff = PInf \<or>
   (\<exists>d. f64_max diff min_sv2_diff = Fin d \<and> 2 powi (- 17) \<le> d)"
proof -
  assume "diff \<noteq> NaN"
  moreover obtain m where m: "m = (5902958103587057 / 2 ^ 69 :: rat)" by blast
  moreover have "2 powi (- 17) \<le> m" by (simp add: m power_int_minus)
  ultimately show ?thesis
    by (cases diff) (auto simp: f64_max_def min_sv2_diff_eq m [symmetric])
qed

lemma diffToSV2TargetLE_value_holds:
  "case diffToSV2TargetLE diff of
     None \<Rightarrow> diff = NaN
   | Some bs \<Rightarrow> length bs = 32
       \<and> DiffToTarget (f64_max diff min_sv2_diff) = Some (Some (int (le_nat bs)))"
proof (cases "diff = NaN")
  case True
  then show ?thesis by (simp add: diffToSV2TargetLE_def f64_max_def min_sv2_diff_eq DiffToTarget_def)
next
  case False
  obtain t where t: "DiffToTarget (f64_max diff min_sv2_diff) = Some (Some t)" "0 \<le> t" "t < 2 ^ 256"
    using min_sv2_diff_le [OF False]
  proof (elim disjE exE conjE)
    assume "f64_max diff min_sv2_diff = PInf"
    then show thesis using that [of 0] by (simp add: DiffToTarget_def)
  next
    fix d assume d: "f64_max diff min_sv2_diff = Fin d" "2 powi (- 17) \<le> d"
    then have pos: "0 < d" using powi_pos [of "- 17"] by linarith
    have "trunc (big_round 53 (2 ^ 224 / d)) \<le> 2 ^ 241" using target_le_pow2 [OF d(2)] by simp
    also have "\<dots> < (2::int) ^ 256" by simp
    finally show thesis
      using that [of "trunc (big_round 53 (2 ^ 224 / d))"] d(1) pos target_nonneg [OF pos]
      by (simp add: DiffToTarget_Fin)
  qed
  have "nat \<bar>t\<bar> < 256 ^ 32" using t by (simp add: nat_less_iff)
  then have len: "length (big_bytes (nat \<bar>t\<bar>)) \<le> 32" by (rule length_big_bytes)
  have "le_nat (rev (big_bytes (nat \<bar>t\<bar>))) = nat \<bar>t\<bar>" using big_bytes_nat by (simp add: be_nat_def)
  then have "le_nat (rev (big_bytes (nat \<bar>t\<bar>)) @ replicate (32 - length (big_bytes (nat \<bar>t\<bar>))) 0) = nat \<bar>t\<bar>"
    by (simp add: le_nat_append)
  then have "int (le_nat (rev (big_bytes (nat \<bar>t\<bar>)) @ replicate (32 - length (big_bytes (nat \<bar>t\<bar>))) 0)) = t"
    using t by simp
  moreover have "diffToSV2TargetLE diff
      = Some (rev (big_bytes (nat \<bar>t\<bar>)) @ replicate (32 - length (big_bytes (nat \<bar>t\<bar>))) 0)"
    by (simp only: t(1) diffToSV2TargetLE_def Let_def map_pad_right [OF len] option.case)
  ultimately show ?thesis using t len by (simp only: option.case) simp
qed

text \<open>
  The target of a channel is the share target of its difficulty, raised to at least
  \<^verbatim>\<open>1e-5\<close>, as 32 bytes, least significant first. It always fits: only NaN makes the computation
  panic.
\<close>

theorem diffToSV2TargetLE_value:
  "case diffToSV2TargetLE diff of
     None \<Rightarrow> diff = NaN
   | Some bs \<Rightarrow> length bs = 32
       \<and> DiffToTarget (f64_max diff min_sv2_diff) = Some (Some (int (le_nat bs)))"
  by (rule diffToSV2TargetLE_value_holds)

end
