(* ===== verification/StratumContext.thy ===== *)
theory StratumContext
  imports GoStrings Float64
begin

text \<open>
  \<^verbatim>\<open>src/gostratum/stratum_context.go\<close> and \<^verbatim>\<open>jsonrpc_event.go\<close>: the connection of one client. The
  record has the fields of \<^verbatim>\<open>StratumContext\<close>; \<open>'st\<close> is its \<^verbatim>\<open>State\<close>. The socket and the
  disconnect channel are visible through five more fields: what was written, how the next write
  attempts will end, whether the connection was closed, whether a disconnect runs in the
  background (\<^verbatim>\<open>checkDisconnect\<close>), and how many events were put into the channel. Logging is left out.

  A message is kept as the value that \<^verbatim>\<open>json.Marshal\<close> encodes (a line of its own on the wire), or
  as raw bytes. The operations that write are interpretations of the locale \<open>message_out\<close>.
\<close>

subsection \<open>Messages\<close>

text \<open>A value of type \<^verbatim>\<open>any\<close>, as JSON can carry it.\<close>

datatype go_any =
    ANil
  | ABool bool
  | AInt int
  | AFloat f64
  | AStr string
  | AList "go_any list"
  | AMap "(string \<times> go_any) list"

fun marshal_ok :: "go_any \<Rightarrow> bool" where
  "marshal_ok (AFloat d) = (case d of Fin _ \<Rightarrow> True | _ \<Rightarrow> False)"
| "marshal_ok (AList xs) = list_all marshal_ok xs"
| "marshal_ok (AMap kvs) = list_all (\<lambda>(_, v). marshal_ok v) kvs"
| "marshal_ok _ = True"

record JsonRpcEvent =
  eventId :: go_any
  jsonrpc :: string
  Method :: string
  Params :: "go_any list"

record JsonRpcResponse =
  respId :: go_any
  Result :: go_any
  respError :: "go_any list option"

definition NewEvent :: "string \<Rightarrow> string \<Rightarrow> go_any list \<Rightarrow> JsonRpcEvent" where
  "NewEvent i meth params = \<lparr>eventId = (if i = [] then ANil else AStr i), jsonrpc = ''2.0'',
     Method = meth, Params = params\<rparr>"

definition NewResponse :: "JsonRpcEvent \<Rightarrow> go_any \<Rightarrow> go_any list option \<Rightarrow> JsonRpcResponse" where
  "NewResponse event results err = \<lparr>respId = eventId event, Result = results, respError = err\<rparr>"

definition event_ok :: "JsonRpcEvent \<Rightarrow> bool" where
  "event_ok e \<longleftrightarrow> marshal_ok (eventId e) \<and> list_all marshal_ok (Params e)"

definition response_ok :: "JsonRpcResponse \<Rightarrow> bool" where
  "response_ok r \<longleftrightarrow> marshal_ok (respId r) \<and> marshal_ok (Result r)
     \<and> (case respError r of None \<Rightarrow> True | Some xs \<Rightarrow> list_all marshal_ok xs)"

datatype wire = WEvent JsonRpcEvent | WResponse JsonRpcResponse | WRaw "byte list"

subsection \<open>The connection\<close>

text \<open>How one attempt to write ends: the lock is taken, the deadline cannot be set, the socket
  reports an error, or the data is written.\<close>

datatype write_result = WriteOk | LockBusy | DeadlineFailed | WriteFailed

record 'st StratumContext =
  RemoteAddr :: string
  WalletAddr :: string
  WorkerName :: string
  RemoteApp :: string
  Id :: u32
  disconnecting :: bool
  sv2Enabled :: bool
  sv2ChannelID :: u32
  State :: 'st
  Extranonce :: string
  onDisconnect :: "bool option"
  sent :: "wire list"
  net :: "write_result list"
  connClosed :: bool
  asyncDisconnect :: bool
  queued :: nat

text \<open>\<open>onDisconnect\<close> is nil (\<open>None\<close>), or a channel with room (\<open>Some True\<close>) or without. The script
  \<open>net\<close> continues with successful writes.\<close>

record ContextSummary =
  sumRemoteAddr :: string
  sumWalletAddr :: string
  sumWorkerName :: string
  sumRemoteApp :: string

definition Connected :: "'st StratumContext \<Rightarrow> bool" where
  "Connected sc \<longleftrightarrow> \<not> disconnecting sc"

definition EnableSV2 :: "u32 \<Rightarrow> 'st StratumContext \<Rightarrow> 'st StratumContext" where
  "EnableSV2 channelID sc = sc\<lparr>sv2Enabled := True, sv2ChannelID := channelID\<rparr>"

definition DisableSV2 :: "'st StratumContext \<Rightarrow> 'st StratumContext" where
  "DisableSV2 sc = sc\<lparr>sv2Enabled := False, sv2ChannelID := 0\<rparr>"

definition IsSV2 :: "'st StratumContext \<Rightarrow> bool" where
  "IsSV2 sc = sv2Enabled sc"

definition SV2ChannelID :: "'st StratumContext \<Rightarrow> u32" where
  "SV2ChannelID sc = sv2ChannelID sc"

definition Summary :: "'st StratumContext \<Rightarrow> ContextSummary" where
  "Summary sc = \<lparr>sumRemoteAddr = RemoteAddr sc, sumWalletAddr = WalletAddr sc,
     sumWorkerName = WorkerName sc, sumRemoteApp = RemoteApp sc\<rparr>"

definition checkDisconnect :: "go_error option \<Rightarrow> 'st StratumContext \<Rightarrow> 'st StratumContext" where
  "checkDisconnect err sc = (if err \<noteq> None then sc\<lparr>asyncDisconnect := True\<rparr> else sc)"

definition write_data :: "wire \<Rightarrow> 'st StratumContext \<Rightarrow> go_error option \<times> 'st StratumContext" where
  "write_data data sc =
     (let sc' = sc\<lparr>net := tl (net sc)\<rparr>
      in case (if net sc = [] then WriteOk else hd (net sc)) of
           LockBusy \<Rightarrow> (Some ErrWriteBlocked, sc')
         | DeadlineFailed \<Rightarrow> (Some (ErrOther ''failed setting write deadline for connection''), sc')
         | WriteFailed \<Rightarrow> (let err = Some (ErrOther ''write'') in (err, checkDisconnect err sc'))
         | WriteOk \<Rightarrow> (None, checkDisconnect None (sc'\<lparr>sent := sent sc @ [data]\<rparr>)))"

text \<open>The loop of \<^verbatim>\<open>writeWithBackoff\<close> with the attempts that are left.\<close>

primrec writeAttempts :: "nat \<Rightarrow> wire \<Rightarrow> 'st StratumContext \<Rightarrow> go_error option \<times> 'st StratumContext" where
  "writeAttempts 0 data sc = (Some (ErrOther ''failed writing to socket after 3 attempts''), sc)"
| "writeAttempts (Suc i) data sc = (case write_data data sc of
     (None, sc') \<Rightarrow> (None, sc')
   | (Some err, sc') \<Rightarrow> if err = ErrWriteBlocked then writeAttempts i data sc' else (Some err, sc'))"

definition writeWithBackoff :: "wire \<Rightarrow> 'st StratumContext \<Rightarrow> go_error option \<times> 'st StratumContext" where
  "writeWithBackoff = writeAttempts 3"

definition Reply :: "JsonRpcResponse \<Rightarrow> 'st StratumContext \<Rightarrow> go_error option \<times> 'st StratumContext" where
  "Reply response sc = (if disconnecting sc then (Some ErrorDisconnected, sc)
     else if \<not> response_ok response then (Some (ErrOther ''failed encoding jsonrpc response''), sc)
     else writeWithBackoff (WResponse response) sc)"

definition Send :: "JsonRpcEvent \<Rightarrow> 'st StratumContext \<Rightarrow> go_error option \<times> 'st StratumContext" where
  "Send event sc = (if disconnecting sc then (Some ErrorDisconnected, sc)
     else if \<not> event_ok event then (Some (ErrOther ''failed encoding jsonrpc event''), sc)
     else writeWithBackoff (WEvent event) sc)"

definition WriteRaw :: "byte list \<Rightarrow> 'st StratumContext \<Rightarrow> go_error option \<times> 'st StratumContext" where
  "WriteRaw data sc = (if disconnecting sc then (Some ErrorDisconnected, sc)
     else writeWithBackoff (WRaw data) sc)"

definition ReplyStaleShare :: "go_any \<Rightarrow> 'st StratumContext \<Rightarrow> go_error option \<times> 'st StratumContext" where
  "ReplyStaleShare i = Reply \<lparr>respId = i, Result = ANil,
     respError = Some [AInt 21, AStr ''Job not found'', ANil]\<rparr>"

definition ReplyDupeShare :: "go_any \<Rightarrow> 'st StratumContext \<Rightarrow> go_error option \<times> 'st StratumContext" where
  "ReplyDupeShare i = Reply \<lparr>respId = i, Result = ANil,
     respError = Some [AInt 22, AStr ''Duplicate share submitted'', ANil]\<rparr>"

definition ReplyBadShare :: "go_any \<Rightarrow> 'st StratumContext \<Rightarrow> go_error option \<times> 'st StratumContext" where
  "ReplyBadShare i = Reply \<lparr>respId = i, Result = ANil,
     respError = Some [AInt 20, AStr ''Unknown problem'', ANil]\<rparr>"

definition ReplyLowDiffShare :: "go_any \<Rightarrow> 'st StratumContext \<Rightarrow> go_error option \<times> 'st StratumContext" where
  "ReplyLowDiffShare i = Reply \<lparr>respId = i, Result = ANil,
     respError = Some [AInt 23, AStr ''Invalid difficulty'', ANil]\<rparr>"

text \<open>The compare-and-swap makes the first call close the socket and offer one event to the
  channel, which drops it when it is full.\<close>

definition Disconnect :: "'st StratumContext \<Rightarrow> 'st StratumContext" where
  "Disconnect sc = (if disconnecting sc then sc
     else (let sc = sc\<lparr>disconnecting := True, connClosed := True\<rparr>
           in case onDisconnect sc of
                Some True \<Rightarrow> sc\<lparr>queued := queued sc + 1\<rparr>
              | Some False \<Rightarrow> sc
              | None \<Rightarrow> sc))"

text \<open>The background call that a failed write started.\<close>

definition runAsync :: "'st StratumContext \<Rightarrow> 'st StratumContext" where
  "runAsync sc = (if asyncDisconnect sc then Disconnect (sc\<lparr>asyncDisconnect := False\<rparr>) else sc)"

subsection \<open>What a write does\<close>

text \<open>The connection after a write: only the socket's side has changed.\<close>

definition same_client :: "'st StratumContext \<Rightarrow> 'st StratumContext \<Rightarrow> bool" where
  "same_client sc sc' \<longleftrightarrow>
     sc' = sc\<lparr>sent := sent sc', net := net sc', asyncDisconnect := asyncDisconnect sc'\<rparr>"

lemma same_client_refl [simp]: "same_client sc sc"
  by (simp add: same_client_def)

lemma same_client_trans: "same_client a b \<Longrightarrow> same_client b c \<Longrightarrow> same_client a c"
  by (cases a; cases b; cases c) (simp add: same_client_def)

lemma same_clientD [handler]:
  assumes "same_client sc sc'"
  shows "RemoteAddr sc' = RemoteAddr sc" "WalletAddr sc' = WalletAddr sc" "WorkerName sc' = WorkerName sc"
    "RemoteApp sc' = RemoteApp sc" "Id sc' = Id sc" "disconnecting sc' = disconnecting sc"
    "sv2Enabled sc' = sv2Enabled sc" "sv2ChannelID sc' = sv2ChannelID sc" "State sc' = State sc"
    "Extranonce sc' = Extranonce sc" "onDisconnect sc' = onDisconnect sc" "connClosed sc' = connClosed sc"
    "queued sc' = queued sc"
  using assms by (cases sc; cases sc'; simp add: same_client_def)+

text \<open>An operation that writes one message: it is refused after a disconnect, appends the message
  exactly when it reports no error, and changes nothing else.\<close>

locale message_out =
  fixes out :: "'st StratumContext \<Rightarrow> go_error option \<times> 'st StratumContext" and data :: wire
  assumes out_refused: "disconnecting sc \<Longrightarrow> out sc = (Some ErrorDisconnected, sc)"
    and out_client: "out sc = (r, sc') \<Longrightarrow> same_client sc sc'"
    and out_sent: "out sc = (r, sc') \<Longrightarrow> sent sc' = (if r = None then sent sc @ [data] else sent sc)"

context message_out begin

lemma out_connected: "out sc = (None, sc') \<Longrightarrow> \<not> disconnecting sc"
  using out_refused [of sc] by (cases "disconnecting sc") auto

lemma out_none_iff: "out sc = (r, sc') \<Longrightarrow> r = None \<longleftrightarrow> sent sc' = sent sc @ [data]"
  using out_sent [of sc r sc'] by (cases "r = None") auto

lemma out_grows: "out sc = (r, sc') \<Longrightarrow> \<exists>ws. sent sc' = sent sc @ ws \<and> set ws \<subseteq> {data} \<and> length ws \<le> 1"
  using out_sent [of sc r sc'] by (cases "r = None") auto

end

lemma write_cases:
  assumes "write_data data sc = (r, sc')"
  shows "same_client sc sc' \<and> sent sc' = (if r = None then sent sc @ [data] else sent sc)"
  using assms
  by (cases "if net sc = [] then WriteOk else hd (net sc)")
    (auto simp: write_data_def checkDisconnect_def same_client_def Let_def)

lemma writeAttempts_cases:
  "writeAttempts i data sc = (r, sc') \<Longrightarrow>
   same_client sc sc' \<and> sent sc' = (if r = None then sent sc @ [data] else sent sc)"
proof (induction i arbitrary: sc)
  case 0
  then show ?case by auto
next
  case (Suc i)
  obtain w sc1 where w: "write_data data sc = (w, sc1)" by (cases "write_data data sc")
  note write_cases [OF w]
  with Suc w show ?case
    by (auto split: option.splits if_splits dest: same_client_trans)
qed

lemma writeWithBackoff_cases:
  assumes "writeWithBackoff data sc = (r, sc')"
  shows "same_client sc sc'" and "sent sc' = (if r = None then sent sc @ [data] else sent sc)"
  using writeAttempts_cases [of 3 data sc r sc'] assms by (simp_all add: writeWithBackoff_def)

interpretation raw: message_out "WriteRaw bs" "WRaw bs"
  by unfold_locales
    (auto simp: WriteRaw_def writeWithBackoff_cases split: if_splits dest: writeWithBackoff_cases)

interpretation snd: message_out "Send e" "WEvent e"
  by unfold_locales
    (auto simp: Send_def writeWithBackoff_cases split: if_splits dest: writeWithBackoff_cases)

interpretation rep: message_out "Reply r" "WResponse r"
  by unfold_locales
    (auto simp: Reply_def writeWithBackoff_cases split: if_splits dest: writeWithBackoff_cases)

text \<open>
  A write that finds the lock taken is tried again at most twice. It succeeds exactly when one
  of the first three attempts gets the lock and that attempt writes; then the message is sent once.
  A socket error is reported at once and leads to a disconnect in the background; the attempts
  that were made are used up.
\<close>

theorem writeWithBackoff_outcome:
  "writeWithBackoff data sc =
    (let k = length (takeWhile (\<lambda>r. r = LockBusy) (take 3 (net sc)));
         sc' = sc\<lparr>net := drop (Suc k) (net sc)\<rparr>
     in if k = 3 then (Some (ErrOther ''failed writing to socket after 3 attempts''),
          sc\<lparr>net := drop 3 (net sc)\<rparr>)
        else case drop k (net sc) of
          [] \<Rightarrow> (None, sc'\<lparr>sent := sent sc @ [data]\<rparr>)
        | WriteOk # _ \<Rightarrow> (None, sc'\<lparr>sent := sent sc @ [data]\<rparr>)
        | DeadlineFailed # _ \<Rightarrow>
            (Some (ErrOther ''failed setting write deadline for connection''), sc')
        | _ # _ \<Rightarrow> (Some (ErrOther ''write''), sc'\<lparr>asyncDisconnect := True\<rparr>))"
proof -
  have one: "writeAttempts (Suc i) data sc = (case net sc of
      [] \<Rightarrow> (None, sc\<lparr>sent := sent sc @ [data]\<rparr>)
    | WriteOk # rs \<Rightarrow> (None, sc\<lparr>net := rs, sent := sent sc @ [data]\<rparr>)
    | LockBusy # rs \<Rightarrow> writeAttempts i data (sc\<lparr>net := rs\<rparr>)
    | DeadlineFailed # rs \<Rightarrow>
        (Some (ErrOther ''failed setting write deadline for connection''), sc\<lparr>net := rs\<rparr>)
    | WriteFailed # rs \<Rightarrow> (Some (ErrOther ''write''), sc\<lparr>net := rs, asyncDisconnect := True\<rparr>))"
    for i and sc :: "'a StratumContext"
    by (cases sc) (auto simp: write_data_def checkDisconnect_def Let_def
        split: list.split write_result.split)
  show ?thesis
    unfolding writeWithBackoff_def numeral_3_eq_3 one
    by (cases sc) (auto simp: one Let_def split: list.split write_result.split)
qed

subsection \<open>The life of a connection\<close>

text \<open>Whatever the goroutines that share a connection do: each operation is one step, and the
  disconnect channel may fill up or empty in between.\<close>

inductive conn_step :: "'st StratumContext \<Rightarrow> 'st StratumContext \<Rightarrow> bool" where
  reply: "Reply r sc = (e, sc') \<Longrightarrow> conn_step sc sc'"
| send: "Send ev sc = (e, sc') \<Longrightarrow> conn_step sc sc'"
| raw: "WriteRaw bs sc = (e, sc') \<Longrightarrow> conn_step sc sc'"
| disconnect: "conn_step sc (Disconnect sc)"
| async: "conn_step sc (runAsync sc)"
| enable: "conn_step sc (EnableSV2 ch sc)"
| disable: "conn_step sc (DisableSV2 sc)"
| channel: "onDisconnect sc \<noteq> None \<Longrightarrow> conn_step sc (sc\<lparr>onDisconnect := Some room\<rparr>)"

inductive_cases conn_stepE: "conn_step sc sc'"

inductive conn_steps :: "'st StratumContext \<Rightarrow> 'st StratumContext \<Rightarrow> bool" where
  start: "conn_steps sc sc"
| more_steps: "conn_steps sc sc' \<Longrightarrow> conn_step sc' sc'' \<Longrightarrow> conn_steps sc sc''"

definition conn_inv :: "'st StratumContext \<Rightarrow> bool" where
  "conn_inv sc \<longleftrightarrow> connClosed sc = disconnecting sc \<and> queued sc \<le> (if disconnecting sc then 1 else 0)"

lemma conn_inv_step: "conn_step sc sc' \<Longrightarrow> conn_inv sc \<Longrightarrow> conn_inv sc'"
  by (erule conn_stepE)
    (auto simp: conn_inv_def Disconnect_def runAsync_def EnableSV2_def DisableSV2_def Let_def
      dest!: rep.out_client snd.out_client raw.out_client dest: same_clientD split: option.splits if_splits bool.splits)

lemma conn_sent_step:
  "conn_step sc sc' \<Longrightarrow> disconnecting sc \<Longrightarrow> disconnecting sc' \<and> sent sc' = sent sc"
  by (erule conn_stepE)
    (auto simp: Disconnect_def runAsync_def EnableSV2_def DisableSV2_def Let_def
      rep.out_refused snd.out_refused raw.out_refused)

text \<open>
  C15: a connection offers its disconnect event at most once and its socket is closed exactly when
  it is marked as disconnecting, whatever the handlers do in whatever order; from then on the mark
  stays and nothing is sent any more.
\<close>

theorem connection_lifecycle:
  assumes "conn_steps sc sc'" and "conn_inv sc"
  shows "connClosed sc' = disconnecting sc' \<and> queued sc' \<le> 1
    \<and> (disconnecting sc \<longrightarrow> disconnecting sc' \<and> sent sc' = sent sc)"
proof -
  have "conn_inv sc' \<and> (disconnecting sc \<longrightarrow> disconnecting sc' \<and> sent sc' = sent sc)"
    using assms by (induction) (auto dest: conn_inv_step conn_sent_step)
  then show ?thesis by (auto simp: conn_inv_def split: if_splits)
qed

definition sample_client :: "bool StratumContext" where
  "sample_client = \<lparr>RemoteAddr = ''10.0.0.1'', WalletAddr = [], WorkerName = [], RemoteApp = [], Id = 1,
     disconnecting = False, sv2Enabled = False, sv2ChannelID = 0, State = True, Extranonce = [],
     onDisconnect = Some True, sent = [], net = [LockBusy, WriteFailed], connClosed = False,
     asyncDisconnect = False, queued = 0\<rparr>"

theorem connection_lifecycle_witness:
  "let sc = runAsync (snd (Send (NewEvent [] ''ping'' []) sample_client));
       sc' = Disconnect (sc\<lparr>onDisconnect := Some True\<rparr>)
   in conn_steps sample_client sc' \<and> disconnecting sc' \<and> queued sc' = 1
      \<and> connClosed sc' = disconnecting sc'"
proof -
  let ?s1 = "snd (Send (NewEvent [] ''ping'' []) sample_client)"
  let ?s2 = "runAsync ?s1"
  have 1: "conn_step sample_client ?s1" by (rule conn_step.send) (rule prod.collapse [symmetric])
  note eval = Send_def NewEvent_def event_ok_def writeWithBackoff_def numeral_3_eq_3 write_data_def
    checkDisconnect_def runAsync_def Disconnect_def sample_client_def Let_def
  have room: "onDisconnect ?s2 \<noteq> None" by (simp add: eval)
  have 2: "conn_steps sample_client (Disconnect (?s2\<lparr>onDisconnect := Some True\<rparr>))"
    by (rule conn_steps.more_steps [OF conn_steps.more_steps [OF conn_steps.more_steps
          [OF conn_steps.more_steps [OF conn_steps.start 1] conn_step.async]
          conn_step.channel [OF room]] conn_step.disconnect])
  have i: "conn_inv sample_client" by (simp add: conn_inv_def sample_client_def)
  have "disconnecting (Disconnect (?s2\<lparr>onDisconnect := Some True\<rparr>)) \<and>
    queued (Disconnect (?s2\<lparr>onDisconnect := Some True\<rparr>)) = 1" by (simp add: eval)
  then show ?thesis using connection_lifecycle [OF 2 i] 2 by (simp add: Let_def)
qed

end
