(* ===== verification/Prom.thy ===== *)
theory Prom
  imports StratumContext
begin

text \<open>
  \<^verbatim>\<open>src/cryptixstratum/prom.go\<close> and \<^verbatim>\<open>errors.go\<close>: the metrics. The registry belongs to the Prometheus
  library; an operation of this file is the list of the updates it makes there, each with the
  metric (named as in the Go file) and its labels.
\<close>

type_synonym labels = "(string \<times> string) list"

datatype prom_op =
    Inc string labels
  | AddTo string labels f64
  | SetGauge string labels f64

datatype ErrorShortCodeT =
    ErrNoMinerAddress
  | ErrFailedBlockFetch
  | ErrInvalidAddressFmt
  | ErrMissingJob
  | ErrBadDataFromMiner
  | ErrFailedSendWork
  | ErrFailedSetDiff
  | ErrDisconnected

fun short_code :: "ErrorShortCodeT \<Rightarrow> string" where
  "short_code ErrNoMinerAddress = ''err_no_miner_address''"
| "short_code ErrFailedBlockFetch = ''err_failed_block_fetch''"
| "short_code ErrInvalidAddressFmt = ''err_malformed_wallet_address''"
| "short_code ErrMissingJob = ''err_missing_job''"
| "short_code ErrBadDataFromMiner = ''err_bad_data_from_miner''"
| "short_code ErrFailedSendWork = ''err_failed_sending_work''"
| "short_code ErrFailedSetDiff = ''err_diff_set_failed''"
| "short_code ErrDisconnected = ''err_worker_disconnected''"

definition AnonymousWorkerName :: string where
  "AnonymousWorkerName = ''anonymous''"

definition commonLabels :: "'st StratumContext \<Rightarrow> labels" where
  "commonLabels worker =
     (let workerName = (if WorkerName worker = [] then AnonymousWorkerName else WorkerName worker)
      in [(''worker'', workerName), (''miner'', RemoteApp worker),
          (''wallet'', WalletAddr worker), (''ip'', RemoteAddr worker)])"

definition with_type :: "string \<Rightarrow> labels \<Rightarrow> labels" where
  "with_type ty labels = labels @ [(''type'', ty)]"

definition RecordShareFound :: "'st StratumContext \<Rightarrow> f64 \<Rightarrow> prom_op list" where
  "RecordShareFound worker shareDiff =
     [Inc ''shareCounter'' (commonLabels worker), AddTo ''shareDiffCounter'' (commonLabels worker) shareDiff]"

definition RecordStaleShare :: "'st StratumContext \<Rightarrow> prom_op list" where
  "RecordStaleShare worker = [Inc ''invalidCounter'' (with_type ''stale'' (commonLabels worker))]"

definition RecordDupeShare :: "'st StratumContext \<Rightarrow> prom_op list" where
  "RecordDupeShare worker = [Inc ''invalidCounter'' (with_type ''duplicate'' (commonLabels worker))]"

definition RecordInvalidShare :: "'st StratumContext \<Rightarrow> prom_op list" where
  "RecordInvalidShare worker = [Inc ''invalidCounter'' (with_type ''invalid'' (commonLabels worker))]"

definition RecordWeakShare :: "'st StratumContext \<Rightarrow> prom_op list" where
  "RecordWeakShare worker = [Inc ''invalidCounter'' (with_type ''weak'' (commonLabels worker))]"

definition RecordBlockFound :: "'st StratumContext \<Rightarrow> u64 \<Rightarrow> u64 \<Rightarrow> prom_op list" where
  "RecordBlockFound worker nonce bluescore =
     [Inc ''blockCounter'' (commonLabels worker),
      SetGauge ''lastBlockNonceGauge'' (commonLabels worker) (f64_of_int (uint nonce)),
      SetGauge ''lastBlockBlueScoreGauge'' (commonLabels worker) (f64_of_int (uint bluescore))]"

definition RecordDisconnect :: "'st StratumContext \<Rightarrow> prom_op list" where
  "RecordDisconnect worker = [Inc ''disconnectCounter'' (commonLabels worker)]"

definition RecordNewJob :: "'st StratumContext \<Rightarrow> prom_op list" where
  "RecordNewJob worker = [Inc ''jobCounter'' (commonLabels worker)]"

definition RecordNetworkStats :: "u64 \<Rightarrow> u64 \<Rightarrow> f64 \<Rightarrow> prom_op list" where
  "RecordNetworkStats hashrate blockCount difficulty =
     [SetGauge ''estimatedNetworkHashrate'' [] (f64_of_int (uint hashrate)),
      SetGauge ''networkDifficulty'' [] difficulty,
      SetGauge ''networkBlockCount'' [] (f64_of_int (uint blockCount))]"

definition RecordWorkerError :: "string \<Rightarrow> ErrorShortCodeT \<Rightarrow> prom_op list" where
  "RecordWorkerError address shortError =
     [Inc ''errorByWallet'' [(''wallet'', address), (''error'', short_code shortError)]]"

definition InitInvalidCounter :: "'st StratumContext \<Rightarrow> string \<Rightarrow> prom_op list" where
  "InitInvalidCounter worker errorType =
     [AddTo ''invalidCounter'' (with_type errorType (commonLabels worker)) 0]"

definition InitWorkerCounters :: "'st StratumContext \<Rightarrow> prom_op list" where
  "InitWorkerCounters worker =
     (let labels = commonLabels worker in
      [AddTo ''shareCounter'' labels 0, AddTo ''shareDiffCounter'' labels 0]
      @ concat (map (InitInvalidCounter worker) [''stale'', ''duplicate'', ''invalid'', ''weak''])
      @ [AddTo ''blockCounter'' labels 0, AddTo ''disconnectCounter'' labels 0, AddTo ''jobCounter'' labels 0])"

text \<open>Balances: the entries of the node's answer (address, amount); only the first of an address
  counts. \<open>unique\<close> are the addresses already set.\<close>

fun recordEntries :: "string list \<Rightarrow> (string \<times> u64) list \<Rightarrow> prom_op list" where
  "recordEntries unique [] = []"
| "recordEntries unique ((address, balance) # entries) =
     (if address \<in> set unique then recordEntries unique entries
      else SetGauge ''balanceGauge'' [(''wallet'', address)] (f64_of_int (uint balance) div f64_of_int 100000000)
           # recordEntries (address # unique) entries)"

definition RecordBalances :: "(string \<times> u64) list \<Rightarrow> prom_op list" where
  "RecordBalances = recordEntries []"

subsection \<open>What is counted\<close>

text \<open>The value of the updates of one counter under one set of labels, and the value of a
  gauge after them.\<close>

definition incs :: "string \<Rightarrow> labels \<Rightarrow> prom_op list \<Rightarrow> nat" where
  "incs m ls ops = length (filter (\<lambda>p. p = Inc m ls) ops)"

fun gauge :: "string \<Rightarrow> labels \<Rightarrow> prom_op list \<Rightarrow> f64 option" where
  "gauge m ls [] = None"
| "gauge m ls (p # ops) = (case gauge m ls ops of
     Some v \<Rightarrow> Some v
   | None \<Rightarrow> (case p of SetGauge m' ls' v \<Rightarrow> if m' = m \<and> ls' = ls then Some v else None | _ \<Rightarrow> None))"

lemma incs_append [simp]: "incs m ls (xs @ ys) = incs m ls xs + incs m ls ys"
  by (simp add: incs_def)

lemma incs_Nil [simp]: "incs m ls [] = 0"
  by (simp add: incs_def)

lemma incs_Cons [simp]: "incs m ls (p # ops) = (if p = Inc m ls then 1 else 0) + incs m ls ops"
  by (simp add: incs_def)

lemma incs_init [simp]: "incs m ls (InitWorkerCounters w) = 0"
  by (simp add: InitWorkerCounters_def InitInvalidCounter_def Let_def)

lemma gauge_recordEntries:
  "gauge ''balanceGauge'' [(''wallet'', a)] (recordEntries unique entries) =
    (if a \<in> set unique then None
     else map_option (\<lambda>b. f64_of_int (uint b) div f64_of_int 100000000) (map_of entries a))"
  by (induction unique entries rule: recordEntries.induct) (auto split: option.splits)

text \<open>
  After an answer of the node the gauge of a wallet holds its balance in whole coins; of
  several entries for one address the first counts, and a wallet that is not in the answer is
  left alone.
\<close>

theorem RecordBalances_gauge:
  "gauge ''balanceGauge'' [(''wallet'', a)] (RecordBalances entries) =
    map_option (\<lambda>b. f64_of_int (uint b) div f64_of_int 100000000) (map_of entries a)"
  by (simp add: RecordBalances_def gauge_recordEntries)

end
