(* ===== verification/ShareHandler.thy ===== *)
theory ShareHandler
  imports MiningState Prom
begin

text \<open>
  \<^verbatim>\<open>src/cryptixstratum/share_handler.go\<close>, the handling of submitted shares. The statistics are
  shared objects (the map points to them, handlers keep the pointer), so they live in an explicit
  store: \<open>stats\<close> maps a key to a reference, \<open>heap\<close> a reference to a \<^verbatim>\<open>WorkStats\<close>. A time is the
  nanoseconds of the clock, \<open>None\<close> the zero \<^verbatim>\<open>time.Time\<close>; a counter is an integer far below 64 bits.
  What the metrics library is told is the list \<open>promLog\<close>.

  The node and the consensus library are the record \<open>node\<close>: conversion of a template to a block,
  proof-of-work value and target, the answer to a submitted block. One value of the record
  describes one call of a handler, so the answers may differ from call to call.
\<close>

record WorkStats =
  BlocksFound :: int
  SharesFound :: int
  SharesDiff :: f64
  StaleShares :: int
  InvalidShares :: int
  statsWorkerName :: string
  StartTime :: "int option"
  LastShare :: "int option"
  VarDiffStartTime :: "int option"
  VarDiffSharesFound :: int
  VarDiffWindow :: nat
  MinDiff :: f64

definition newWorkStats :: WorkStats where
  "newWorkStats = \<lparr>BlocksFound = 0, SharesFound = 0, SharesDiff = 0, StaleShares = 0,
     InvalidShares = 0, statsWorkerName = [], StartTime = None, LastShare = None,
     VarDiffStartTime = None, VarDiffSharesFound = 0, VarDiffWindow = 0, MinDiff = 0\<rparr>"

record shareHistory =
  order :: "string list"
  hset :: "string set"

record shareHandler =
  soloDiff :: f64
  stats :: "string \<rightharpoonup> nat"
  heap :: "nat \<Rightarrow> WorkStats"
  nextRef :: nat
  overall :: WorkStats
  tipBlueScore :: u64
  dupeShares :: "string \<rightharpoonup> shareHistory"
  promLog :: "prom_op list"

definition newShareHandler :: shareHandler where
  "newShareHandler = \<lparr>soloDiff = 0, stats = Map.empty, heap = (\<lambda>_. newWorkStats), nextRef = 0,
     overall = newWorkStats, tipBlueScore = 0, dupeShares = Map.empty, promLog = []\<rparr>"

record ('tx, 'db) node =
  RPCBlockToDomainBlock :: "'tx rpc_block \<Rightarrow> go_error + 'db"
  powValue :: "'db \<Rightarrow> u64 \<Rightarrow> int"
  powTarget :: "'db \<Rightarrow> int"
  SubmitBlock :: "'db \<Rightarrow> u64 \<Rightarrow> string option"
  dbBlueScore :: "'db \<Rightarrow> u64"

text \<open>Proof of work is over the header with the nonce set; \<open>SubmitBlock\<close> answers with the text of
  an error or with none.\<close>

type_synonym 'tx client = "'tx MiningState StratumContext"

definition record_prom :: "prom_op list \<Rightarrow> shareHandler \<Rightarrow> shareHandler" where
  "record_prom ops sh = sh\<lparr>promLog := promLog sh @ ops\<rparr>"

definition upd_stats :: "nat \<Rightarrow> (WorkStats \<Rightarrow> WorkStats) \<Rightarrow> shareHandler \<Rightarrow> shareHandler" where
  "upd_stats r f sh = sh\<lparr>heap := (heap sh)(r := f (heap sh r))\<rparr>"

definition upd_overall :: "(WorkStats \<Rightarrow> WorkStats) \<Rightarrow> shareHandler \<Rightarrow> shareHandler" where
  "upd_overall f sh = sh\<lparr>overall := f (overall sh)\<rparr>"

definition addStale :: "WorkStats \<Rightarrow> WorkStats" where
  "addStale ws = ws\<lparr>StaleShares := StaleShares ws + 1\<rparr>"

definition addInvalid :: "WorkStats \<Rightarrow> WorkStats" where
  "addInvalid ws = ws\<lparr>InvalidShares := InvalidShares ws + 1\<rparr>"

definition addBlock :: "WorkStats \<Rightarrow> WorkStats" where
  "addBlock ws = ws\<lparr>BlocksFound := BlocksFound ws + 1\<rparr>"

definition addShare :: "WorkStats \<Rightarrow> WorkStats" where
  "addShare ws = ws\<lparr>SharesFound := SharesFound ws + 1\<rparr>"

definition creditShare :: "int \<Rightarrow> f64 \<Rightarrow> WorkStats \<Rightarrow> WorkStats" where
  "creditShare now shareHashValue ws = ws\<lparr>SharesFound := SharesFound ws + 1,
     VarDiffSharesFound := VarDiffSharesFound ws + 1,
     SharesDiff := SharesDiff ws + shareHashValue, LastShare := Some now\<rparr>"

subsection \<open>Statistics of a worker\<close>

definition workerStatsKey :: "'st StratumContext \<Rightarrow> string" where
  "workerStatsKey ctx =
     (if WorkerName ctx \<noteq> [] \<and> WorkerName ctx \<noteq> AnonymousWorkerName then WorkerName ctx
      else if WalletAddr ctx \<noteq> [] then WalletAddr ctx @ ''#'' @ AnonymousWorkerName
      else RemoteAddr ctx)"

definition workerStatsDisplayName :: "'st StratumContext \<Rightarrow> string" where
  "workerStatsDisplayName ctx = (if WorkerName ctx = [] then AnonymousWorkerName else WorkerName ctx)"

text \<open>The reference of the worker's statistics: found under its key, moved there from the remote
  address, or created.\<close>

definition getCreateStats :: "int \<Rightarrow> 'st StratumContext \<Rightarrow> shareHandler \<Rightarrow> nat \<times> shareHandler" where
  "getCreateStats now ctx sh =
    (let key = workerStatsKey ctx;
         displayName = workerStatsDisplayName ctx;
         rename = (\<lambda>r sh. if statsWorkerName (heap sh r) \<noteq> displayName
           then upd_stats r (\<lambda>ws. ws\<lparr>statsWorkerName := displayName\<rparr>) sh else sh)
     in case stats sh key of
       Some r \<Rightarrow> (r, rename r sh)
     | None \<Rightarrow>
        (case (if key \<noteq> RemoteAddr ctx then stats sh (RemoteAddr ctx) else None) of
          Some r \<Rightarrow> (r, rename r (sh\<lparr>stats := (stats sh)(RemoteAddr ctx := None, key \<mapsto> r)\<rparr>))
        | None \<Rightarrow>
           (let r = nextRef sh;
                ws = newWorkStats\<lparr>LastShare := Some now, statsWorkerName := displayName, StartTime := Some now\<rparr>
            in (r, record_prom (InitWorkerCounters ctx)
                 (sh\<lparr>heap := (heap sh)(r := ws), stats := (stats sh)(key \<mapsto> r), nextRef := r + 1\<rparr>)))))"

subsection \<open>Parsing a share\<close>

record 'tx submitInfo =
  block :: "'tx rpc_block"
  jobID :: int
  noncestr :: string
  nonceVal :: u64

definition validateSubmit ::
    "'tx client \<Rightarrow> JsonRpcEvent \<Rightarrow> prom_op list \<times> (go_error + 'tx submitInfo)" where
  "validateSubmit ctx event =
    (let bad = RecordWorkerError (WalletAddr ctx) ErrBadDataFromMiner in
     if length (Params event) < 3
     then (bad, Inl (ErrOther ''malformed event, expected at least 2 params''))
     else case Params event ! 1 of
       AStr jobIdStr \<Rightarrow>
         (case parse_int jobIdStr of
            None \<Rightarrow> (bad, Inl (ErrOther ''job id is not parsable as an number''))
          | Some jobId \<Rightarrow>
              (case GetJob (State ctx) jobId of
                 None \<Rightarrow> (RecordWorkerError (WalletAddr ctx) ErrMissingJob, Inl ErrStaleShare)
               | Some b \<Rightarrow>
                   (case Params event ! 2 of
                      AStr nonce \<Rightarrow> ([], Inr \<lparr>block = b, jobID = jobId,
                        noncestr = remove_first ''0x'' nonce, nonceVal = 0\<rparr>)
                    | _ \<Rightarrow> (bad, Inl (ErrOther ''unexpected type for param 2'')))))
     | _ \<Rightarrow> (bad, Inl (ErrOther ''unexpected type for param 1'')))"

text \<open>The nonce of a Stratum V1 share: the extranonce is put in front of a short nonce.\<close>

definition normalizeNonce :: "string \<Rightarrow> string \<Rightarrow> string" where
  "normalizeNonce extranonce nonceStr =
    (let extranonce2Len = 16 - int (length extranonce) in
     if extranonce \<noteq> [] \<and> 0 < extranonce2Len \<and> int (length nonceStr) \<le> extranonce2Len
     then extranonce @ zero_pad (nat extranonce2Len) nonceStr
     else nonceStr)"

definition parseV1SubmitNonce :: "'st StratumContext \<Rightarrow> string \<Rightarrow> go_error + u64" where
  "parseV1SubmitNonce ctx nonceStr =
    (case parse_uint 16 hex_val (normalizeNonce (Extranonce ctx) nonceStr) of
       None \<Rightarrow> Inl (ErrOther ''failed parsing noncestr'')
     | Some v \<Rightarrow> Inr (word_of_nat v))"

subsection \<open>Stale and duplicate shares\<close>

definition workWindow :: u64 where
  "workWindow = 8"

definition maxTrackedSharesPerWorker :: nat where
  "maxTrackedSharesPerWorker = 2048"

definition shareKey :: "'tx submitInfo \<Rightarrow> string" where
  "shareKey si = fmt_dec (jobID si) @ '':'' @ noncestr si"

definition newShareHistory :: shareHistory where
  "newShareHistory = \<lparr>order = [], hset = {}\<rparr>"

text \<open>The part of \<^verbatim>\<open>trackDupeShare\<close> that works on one history.\<close>

definition historyTrack :: "string \<Rightarrow> shareHistory \<Rightarrow> bool \<times> shareHistory" where
  "historyTrack key history =
    (if key \<in> hset history then (True, history)
     else (let history = history\<lparr>hset := insert key (hset history)\<rparr>;
               history = history\<lparr>order := order history @ [key]\<rparr>
           in if maxTrackedSharesPerWorker < length (order history)
              then (let evicted = order history ! 0
                    in (False, history\<lparr>order := drop 1 (order history),
                                      hset := hset history - {evicted}\<rparr>))
              else (False, history)))"

definition trackDupeShare ::
    "'st StratumContext \<Rightarrow> 'tx submitInfo \<Rightarrow> shareHandler \<Rightarrow> bool \<times> shareHandler" where
  "trackDupeShare ctx si sh =
    (let worker = workerStatsKey ctx;
         key = shareKey si;
         history = (case dupeShares sh worker of None \<Rightarrow> newShareHistory | Some h \<Rightarrow> h)
     in case historyTrack key history of
          (dup, history) \<Rightarrow> (dup, sh\<lparr>dupeShares := (dupeShares sh)(worker \<mapsto> history)\<rparr>))"

definition checkStales ::
    "'st StratumContext \<Rightarrow> 'tx submitInfo \<Rightarrow> shareHandler \<Rightarrow> go_error option \<times> shareHandler" where
  "checkStales ctx si sh =
    (let shareBlueScore = BlueScore (Header (block si));
         tip = tipBlueScore sh
     in if \<not> tip < shareBlueScore \<and> workWindow < tip - shareBlueScore then (Some ErrStaleShare, sh)
        else (let sh = (if tip < shareBlueScore then sh\<lparr>tipBlueScore := shareBlueScore\<rparr> else sh)
              in case trackDupeShare ctx si sh of
                   (True, sh) \<Rightarrow> (Some ErrDupeShare, sh)
                 | (False, sh) \<Rightarrow> (None, sh)))"

definition setSoloDiff :: "f64 \<Rightarrow> shareHandler \<Rightarrow> shareHandler" where
  "setSoloDiff diff sh = sh\<lparr>soloDiff := diff\<rparr>"

definition getSoloDiff :: "shareHandler \<Rightarrow> f64" where
  "getSoloDiff sh = soloDiff sh"

definition clearClientDupeHistory :: "'st StratumContext \<Rightarrow> shareHandler \<Rightarrow> shareHandler" where
  "clearClientDupeHistory ctx sh = sh\<lparr>dupeShares := (dupeShares sh)
     (RemoteAddr ctx := None, WorkerName ctx := None, workerStatsKey ctx := None)\<rparr>"

subsection \<open>Judging a share\<close>

datatype SubmitStatus =
    SubmitStatusAccepted
  | SubmitStatusStale
  | SubmitStatusDuplicate
  | SubmitStatusLowDiff
  | SubmitStatusBad

definition submitBlock ::
    "int \<Rightarrow> ('tx, 'db) node \<Rightarrow> 'st StratumContext \<Rightarrow> 'db \<Rightarrow> u64 \<Rightarrow> shareHandler
     \<Rightarrow> (SubmitStatus \<times> go_error option) \<times> shareHandler" where
  "submitBlock now nd ctx blk nonce sh =
    (case SubmitBlock nd blk nonce of
       Some err \<Rightarrow>
         if contains err ''ErrDuplicateBlock''
         then (let (r, sh) = getCreateStats now ctx sh;
                   sh = upd_overall addStale (upd_stats r addStale sh)
               in ((SubmitStatusStale, None), record_prom (RecordStaleShare ctx) sh))
         else (let (r, sh) = getCreateStats now ctx sh;
                   sh = upd_overall addInvalid (upd_stats r addInvalid sh)
               in ((SubmitStatusBad, None), record_prom (RecordInvalidShare ctx) sh))
     | None \<Rightarrow>
         (let (r, sh) = getCreateStats now ctx sh;
              sh = upd_overall addBlock (upd_stats r addBlock sh)
          in ((SubmitStatusAccepted, None), record_prom (RecordBlockFound ctx nonce (dbBlueScore nd blk)) sh)))"

text \<open>The last lines of \<^verbatim>\<open>processSubmit\<close>.\<close>

definition acceptShare ::
    "int \<Rightarrow> 'st StratumContext \<Rightarrow> nat \<Rightarrow> f64 \<Rightarrow> shareHandler \<Rightarrow> (SubmitStatus \<times> go_error option) \<times> shareHandler" where
  "acceptShare now ctx r shareHashValue sh =
    (let sh = upd_overall addShare (upd_stats r (creditShare now shareHashValue) sh)
     in ((SubmitStatusAccepted, None), record_prom (RecordShareFound ctx shareHashValue) sh))"

text \<open>\<open>None\<close> is the panic of \<open>GetStratumDiffSnapshot\<close>.\<close>

definition processSubmit ::
    "int \<Rightarrow> ('tx, 'db) node \<Rightarrow> 'tx client \<Rightarrow> 'tx submitInfo \<Rightarrow> shareHandler
     \<Rightarrow> ((SubmitStatus \<times> go_error option) \<times> shareHandler) option" where
  "processSubmit now nd ctx si sh =
    (case getCreateStats now ctx sh of (r, sh) \<Rightarrow>
     (case checkStales ctx si sh of
       (Some err, sh) \<Rightarrow>
         if err = ErrDupeShare
         then Some ((SubmitStatusDuplicate, None),
                upd_overall addInvalid (upd_stats r addInvalid (record_prom (RecordDupeShare ctx) sh)))
         else if err = ErrStaleShare
         then Some ((SubmitStatusStale, None),
                record_prom (RecordStaleShare ctx) (upd_overall addStale (upd_stats r addStale sh)))
         else Some ((SubmitStatusBad, None), sh)
     | (None, sh) \<Rightarrow>
         (case RPCBlockToDomainBlock nd (block si) of
            Inl err \<Rightarrow> Some ((SubmitStatusBad, Some (ErrOther ''failed to cast block to mutable block'')), sh)
          | Inr converted \<Rightarrow>
              (let pow = powValue nd converted (nonceVal si) in
               case GetStratumDiffSnapshot (State ctx) of
                 None \<Rightarrow> None
               | Some (shareHashValue, None, _) \<Rightarrow>
                   Some ((SubmitStatusBad, Some (ErrOther ''mining state is not initialized for client'')),
                     record_prom (RecordWorkerError (WalletAddr ctx) ErrMissingJob) sh)
               | Some (shareHashValue, Some shareTarget, _) \<Rightarrow>
                   if pow \<le> powTarget nd converted
                   then (case submitBlock now nd ctx converted (nonceVal si) sh of
                       ((status, err), sh) \<Rightarrow>
                         if err \<noteq> None then Some ((status, err), sh)
                         else if status \<noteq> SubmitStatusAccepted then Some ((status, None), sh)
                         else Some (acceptShare now ctx r shareHashValue sh))
                   else if shareTarget \<le> pow
                   then Some ((SubmitStatusLowDiff, None),
                          record_prom (RecordWeakShare ctx)
                            (upd_overall addInvalid (upd_stats r addInvalid sh)))
                   else Some (acceptShare now ctx r shareHashValue sh)))))"

definition replySubmitStatusV1 ::
    "go_any \<Rightarrow> SubmitStatus \<Rightarrow> 'st StratumContext \<Rightarrow> go_error option \<times> 'st StratumContext" where
  "replySubmitStatusV1 eventID status ctx = (case status of
     SubmitStatusAccepted \<Rightarrow> Reply \<lparr>respId = eventID, Result = ABool True, respError = None\<rparr> ctx
   | SubmitStatusStale \<Rightarrow> ReplyStaleShare eventID ctx
   | SubmitStatusDuplicate \<Rightarrow> ReplyDupeShare eventID ctx
   | SubmitStatusLowDiff \<Rightarrow> ReplyLowDiffShare eventID ctx
   | SubmitStatusBad \<Rightarrow> ReplyBadShare eventID ctx)"

definition staleSubmit :: "int \<Rightarrow> 'st StratumContext \<Rightarrow> shareHandler \<Rightarrow> shareHandler" where
  "staleSubmit now ctx sh =
    (case getCreateStats now ctx sh of
       (r, sh) \<Rightarrow> record_prom (RecordStaleShare ctx) (upd_overall addStale (upd_stats r addStale sh)))"

text \<open>The error that the handler returns, the connection after the answer, the new state.\<close>

definition HandleSubmit ::
    "int \<Rightarrow> ('tx, 'db) node \<Rightarrow> JsonRpcEvent \<Rightarrow> 'tx client \<Rightarrow> shareHandler
     \<Rightarrow> (go_error option \<times> 'tx client \<times> shareHandler) option" where
  "HandleSubmit now nd event ctx sh =
    (case validateSubmit ctx event of
       (ops, Inl err) \<Rightarrow>
         (let sh = record_prom ops sh in
          if err = ErrStaleShare
          then (case replySubmitStatusV1 (eventId event) SubmitStatusStale ctx of
                  (e, ctx') \<Rightarrow> Some (e, ctx', staleSubmit now ctx sh))
          else (case replySubmitStatusV1 (eventId event) SubmitStatusBad ctx of
                  (e, ctx') \<Rightarrow> Some (e, ctx', sh)))
     | (ops, Inr si) \<Rightarrow>
         (let sh = record_prom ops sh in
          case parseV1SubmitNonce ctx (noncestr si) of
            Inl err \<Rightarrow>
              (case replySubmitStatusV1 (eventId event) SubmitStatusBad ctx of
                 (e, ctx') \<Rightarrow> Some (e, ctx', record_prom (RecordWorkerError (WalletAddr ctx) ErrBadDataFromMiner) sh))
          | Inr nonce \<Rightarrow>
              (let si = si\<lparr>nonceVal := nonce, noncestr := fmt_hex 16 (unat nonce)\<rparr> in
               case processSubmit now nd ctx si sh of
                 None \<Rightarrow> None
               | Some ((status, Some err), sh) \<Rightarrow> Some (Some err, ctx, sh)
               | Some ((status, None), sh) \<Rightarrow>
                   (case replySubmitStatusV1 (eventId event) status ctx of
                      (e, ctx') \<Rightarrow> Some (e, ctx', sh)))))"

definition HandleSubmitSV2 ::
    "int \<Rightarrow> ('tx, 'db) node \<Rightarrow> 'tx client \<Rightarrow> u32 \<Rightarrow> u64 \<Rightarrow> shareHandler
     \<Rightarrow> ((SubmitStatus \<times> go_error option) \<times> shareHandler) option" where
  "HandleSubmitSV2 now nd ctx job nonce sh =
    (case GetJob (State ctx) (uint job) of
       None \<Rightarrow> Some ((SubmitStatusStale, None),
         staleSubmit now ctx (record_prom (RecordWorkerError (WalletAddr ctx) ErrMissingJob) sh))
     | Some b \<Rightarrow>
         processSubmit now nd ctx
           \<lparr>block = b, jobID = uint job, noncestr = fmt_hex 16 (unat nonce), nonceVal = nonce\<rparr> sh)"

end
