(* ===== verification/ShareHandlerLemmas.thy ===== *)
theory ShareHandlerLemmas
  imports ShareHandler
begin

text \<open>
  The share handler: duplicate detection is a bounded first-in first-out window (locale
  \<open>dupe_window\<close>), the overall counters are the sums of the workers' counters (locale \<open>booking\<close>),
  each share gets exactly one verdict and is counted once, and V1 nonces of clients with
  different extranonces never meet.
\<close>

subsection \<open>The window of remembered shares\<close>

definition track_all :: "('k \<Rightarrow> 'h \<Rightarrow> bool \<times> 'h) \<Rightarrow> 'k list \<Rightarrow> 'h \<Rightarrow> 'h" where
  "track_all track ks h = fold (\<lambda>k h. snd (track k h)) ks h"

locale dupe_window =
  fixes track :: "'k \<Rightarrow> 'h \<Rightarrow> bool \<times> 'h" and recent :: "'h \<Rightarrow> 'k list"
    and ok :: "'h \<Rightarrow> bool" and cap :: nat
  assumes track_dup: "ok h \<Longrightarrow> fst (track k h) = (k \<in> set (recent h))"
    and track_ok: "ok h \<Longrightarrow> ok (snd (track k h))"
    and recent_track: "ok h \<Longrightarrow> recent (snd (track k h)) =
      (if k \<in> set (recent h) then recent h else drop (length (recent h) + 1 - cap) (recent h @ [k]))"
    and recent_len: "ok h \<Longrightarrow> length (recent h) \<le> cap"

context dupe_window begin

lemma track_all_snoc: "track_all track (js @ [j]) h = snd (track j (track_all track js h))"
  by (simp add: track_all_def)

lemma track_all_ok: "ok h \<Longrightarrow> ok (track_all track js h)"
  by (induction js rule: rev_induct) (auto simp: track_all_snoc track_ok, simp add: track_all_def)

lemma remembered_pos:
  assumes "ok h" and "\<not> fst (track k h)" and "length js < cap"
  shows "\<exists>xs ys. recent (track_all track js (snd (track k h))) = xs @ k # ys \<and> length ys \<le> length js"
  using assms(3)
proof (induction js rule: rev_induct)
  case Nil
  then have "recent (snd (track k h)) = drop (length (recent h) + 1 - cap) (recent h) @ k # []"
    using assms recent_len [OF assms(1)] by (simp add: recent_track track_dup)
  then show ?case by (auto simp: track_all_def)
next
  case (snoc j js)
  let ?h = "track_all track js (snd (track k h))"
  from snoc obtain xs ys where r: "recent ?h = xs @ k # ys" "length ys \<le> length js" by auto
  have ok: "ok ?h" using assms by (intro track_all_ok track_ok)
  have "recent (snd (track j ?h)) = (if j \<in> set (recent ?h) then recent ?h
      else drop (length (recent ?h) + 1 - cap) (recent ?h @ [j]))"
    using recent_track [OF ok] .
  moreover have "length (recent ?h) + 1 - cap \<le> length xs"
    using r recent_len [OF ok] snoc.prems by simp
  ultimately have "recent (snd (track j ?h)) = (if j \<in> set (recent ?h) then xs @ k # ys
      else drop (length (recent ?h) + 1 - cap) xs @ k # (ys @ [j]))"
    by (simp add: r)
  moreover have "length ys \<le> length (js @ [j])" "length (ys @ [j]) \<le> length (js @ [j])"
    using r by simp_all
  ultimately show ?case unfolding track_all_snoc by metis
qed

text \<open>A key that was new is reported while fewer than \<open>cap\<close> further keys were tracked.\<close>

lemma remembered:
  assumes "ok h" and "\<not> fst (track k h)" and "length js < cap"
  shows "fst (track k (track_all track js (snd (track k h))))"
proof -
  have "ok (track_all track js (snd (track k h)))" using assms by (intro track_all_ok track_ok)
  then show ?thesis using remembered_pos [OF assms] by (auto simp: track_dup)
qed

text \<open>A key is reported only if it was remembered before or is one of the tracked ones.\<close>

lemma recent_subset:
  assumes "ok h"
  shows "set (recent (track_all track js h)) \<subseteq> set (recent h) \<union> set js"
proof (induction js rule: rev_induct)
  case (snoc j js)
  have ok: "ok (track_all track js h)" using assms by (rule track_all_ok)
  then show ?case using snoc
    by (auto simp: track_all_snoc recent_track dest: in_set_dropD split: if_splits)
qed (simp add: track_all_def)

end

definition history_ok :: "shareHistory \<Rightarrow> bool" where
  "history_ok h \<longleftrightarrow> hset h = set (order h) \<and> distinct (order h)
     \<and> length (order h) \<le> maxTrackedSharesPerWorker"

lemma historyTrack_ok: "history_ok h \<Longrightarrow> history_ok (snd (historyTrack k h))"
proof (cases "k \<in> hset h")
  case True
  assume "history_ok h"
  with True show ?thesis by (simp add: historyTrack_def)
next
  case new: False
  assume h: "history_ok h"
  show ?thesis
  proof (cases "maxTrackedSharesPerWorker < length (order h @ [k])")
    case True
    then obtain x xs where "order h = x # xs"
      by (cases "order h") (auto simp: maxTrackedSharesPerWorker_def)
    with h new True show ?thesis
      by (auto simp: historyTrack_def history_ok_def Let_def)
  next
    case False
    with h new show ?thesis by (auto simp: historyTrack_def history_ok_def Let_def)
  qed
qed

interpretation dupes: dupe_window historyTrack order history_ok maxTrackedSharesPerWorker
proof
  fix h :: shareHistory and k
  assume h: "history_ok h"
  show "fst (historyTrack k h) = (k \<in> set (order h))"
    using h by (auto simp: historyTrack_def history_ok_def Let_def)
  show "order (snd (historyTrack k h)) = (if k \<in> set (order h) then order h
      else drop (length (order h) + 1 - maxTrackedSharesPerWorker) (order h @ [k]))"
  proof (cases "maxTrackedSharesPerWorker < Suc (length (order h))")
    case True
    then have "length (order h) + 1 - maxTrackedSharesPerWorker = 1"
      using h unfolding history_ok_def by linarith
    then show ?thesis using h True by (auto simp: historyTrack_def history_ok_def Let_def)
  next
    case False
    then show ?thesis using h by (auto simp: historyTrack_def history_ok_def Let_def)
  qed
qed (simp_all add: historyTrack_ok history_ok_def [THEN iffD1])

subsection \<open>Who is charged\<close>

lemma record_prom_simps [simp]:
  "stats (record_prom ops sh) = stats sh" "heap (record_prom ops sh) = heap sh"
  "nextRef (record_prom ops sh) = nextRef sh" "overall (record_prom ops sh) = overall sh"
  "tipBlueScore (record_prom ops sh) = tipBlueScore sh" "dupeShares (record_prom ops sh) = dupeShares sh"
  "soloDiff (record_prom ops sh) = soloDiff sh" "promLog (record_prom ops sh) = promLog sh @ ops"
  by (simp_all add: record_prom_def)

lemma upd_stats_simps [simp]:
  "stats (upd_stats r f sh) = stats sh" "heap (upd_stats r f sh) = (heap sh)(r := f (heap sh r))"
  "nextRef (upd_stats r f sh) = nextRef sh" "overall (upd_stats r f sh) = overall sh"
  "tipBlueScore (upd_stats r f sh) = tipBlueScore sh" "dupeShares (upd_stats r f sh) = dupeShares sh"
  "soloDiff (upd_stats r f sh) = soloDiff sh" "promLog (upd_stats r f sh) = promLog sh"
  by (simp_all add: upd_stats_def)

lemma upd_overall_simps [simp]:
  "stats (upd_overall f sh) = stats sh" "heap (upd_overall f sh) = heap sh"
  "nextRef (upd_overall f sh) = nextRef sh" "overall (upd_overall f sh) = f (overall sh)"
  "tipBlueScore (upd_overall f sh) = tipBlueScore sh" "dupeShares (upd_overall f sh) = dupeShares sh"
  "soloDiff (upd_overall f sh) = soloDiff sh" "promLog (upd_overall f sh) = promLog sh"
  by (simp_all add: upd_overall_def)

definition total :: "(WorkStats \<Rightarrow> int) \<Rightarrow> shareHandler \<Rightarrow> int" where
  "total c sh = (\<Sum>r<nextRef sh. c (heap sh r))"

text \<open>Every allocated record belongs to exactly one key, and the overall counters are the sums.\<close>

definition books_ok :: "shareHandler \<Rightarrow> bool" where
  "books_ok sh \<longleftrightarrow> ran (stats sh) = {..<nextRef sh} \<and> inj_on (stats sh) (dom (stats sh))
     \<and> BlocksFound (overall sh) = total BlocksFound sh
     \<and> SharesFound (overall sh) = total SharesFound sh
     \<and> StaleShares (overall sh) = total StaleShares sh
     \<and> InvalidShares (overall sh) = total InvalidShares sh"

lemma books_ok_new: "books_ok newShareHandler"
  by (simp add: books_ok_def newShareHandler_def total_def newWorkStats_def)

lemma books_ref: "books_ok sh \<Longrightarrow> stats sh k = Some r \<Longrightarrow> r < nextRef sh"
  by (auto simp: books_ok_def ran_def)

lemma books_ok_frame [simp]:
  "books_ok (record_prom ops sh) = books_ok sh"
  "books_ok (sh\<lparr>tipBlueScore := tip\<rparr>) = books_ok sh"
  "books_ok (sh\<lparr>dupeShares := d\<rparr>) = books_ok sh"
  "books_ok (sh\<lparr>soloDiff := s\<rparr>) = books_ok sh"
  by (simp_all add: books_ok_def total_def)

lemma total_upd:
  assumes "r < nextRef sh" and "c (g (heap sh r)) = c (heap sh r) + n"
  shows "total c (upd_overall f (upd_stats r g sh)) = total c sh + n"
proof -
  have "(\<Sum>x<nextRef sh. c (if x = r then g (heap sh r) else heap sh x))
      = sum ((\<lambda>x. c (heap sh x))(r := c (g (heap sh r)))) {..<nextRef sh}"
    by (rule sum.cong) auto
  also have "\<dots> = c (g (heap sh r)) + sum (\<lambda>x. c (heap sh x)) ({..<nextRef sh} - {r})"
    using assms(1) by (intro sum_fun_upd) auto
  also have "\<dots> = n + (\<Sum>x<nextRef sh. c (heap sh x))"
    using assms sum.remove [of "{..<nextRef sh}" r "\<lambda>x. c (heap sh x)"] by simp
  finally show ?thesis by (simp add: total_def fun_upd_def)
qed

text \<open>A booking adds the same amounts to a worker's counters and to the overall ones.\<close>

locale booking =
  fixes f g :: "WorkStats \<Rightarrow> WorkStats" and b s t i :: int
  assumes f_counts: "BlocksFound (f ws) = BlocksFound ws + b" "SharesFound (f ws) = SharesFound ws + s"
      "StaleShares (f ws) = StaleShares ws + t" "InvalidShares (f ws) = InvalidShares ws + i"
    and g_counts: "BlocksFound (g ws) = BlocksFound ws + b" "SharesFound (g ws) = SharesFound ws + s"
      "StaleShares (g ws) = StaleShares ws + t" "InvalidShares (g ws) = InvalidShares ws + i"

context booking begin

lemma keeps_books:
  "books_ok sh \<Longrightarrow> r < nextRef sh \<Longrightarrow> books_ok (upd_overall f (upd_stats r g sh))"
  by (simp add: books_ok_def total_upd g_counts f_counts)

end

interpretation stale: booking addStale addStale 0 0 1 0
  by unfold_locales (simp_all add: addStale_def)

interpretation invalid: booking addInvalid addInvalid 0 0 0 1
  by unfold_locales (simp_all add: addInvalid_def)

interpretation blocks: booking addBlock addBlock 1 0 0 0
  by unfold_locales (simp_all add: addBlock_def)

interpretation credit: booking addShare "creditShare now h" 0 1 0 0 for now h
  by unfold_locales (simp_all add: addShare_def creditShare_def)

subsection \<open>The statistics of a worker\<close>

lemma record_prom_out [simp]:
  "upd_stats r f (record_prom ops sh) = record_prom ops (upd_stats r f sh)"
  "upd_overall f (record_prom ops sh) = record_prom ops (upd_overall f sh)"
  "record_prom ops (record_prom ops' sh) = record_prom (ops' @ ops) sh"
  by (simp_all add: upd_stats_def upd_overall_def record_prom_def)

lemma getCreateStats_frame:
  assumes "getCreateStats now ctx sh = (r, sh')"
  shows "stats sh' (workerStatsKey ctx) = Some r" "statsWorkerName (heap sh' r) = workerStatsDisplayName ctx"
    "overall sh' = overall sh" "tipBlueScore sh' = tipBlueScore sh" "dupeShares sh' = dupeShares sh"
    "soloDiff sh' = soloDiff sh"
  using assms
  by (auto simp: getCreateStats_def Let_def split: option.splits if_splits)

lemma getCreateStats_again:
  assumes "stats sh (workerStatsKey ctx) = Some r" "statsWorkerName (heap sh r) = workerStatsDisplayName ctx"
  shows "getCreateStats now ctx sh = (r, sh)"
  using assms by (simp add: getCreateStats_def)

text \<open>An update that leaves the counters alone.\<close>

lemma total_keep: "(\<And>ws. c (f ws) = c ws) \<Longrightarrow> total c (upd_stats r f sh) = total c sh"
  by (auto simp: total_def intro!: sum.cong)

lemma books_ok_keep:
  assumes "\<And>ws. BlocksFound (f ws) = BlocksFound ws" "\<And>ws. SharesFound (f ws) = SharesFound ws"
    "\<And>ws. StaleShares (f ws) = StaleShares ws" "\<And>ws. InvalidShares (f ws) = InvalidShares ws"
  shows "books_ok (upd_stats r f sh) = books_ok sh"
  using assms by (simp add: books_ok_def total_keep)

lemma books_ok_rename:
  "books_ok (upd_stats r (\<lambda>ws. ws\<lparr>statsWorkerName := n\<rparr>) sh) = books_ok sh"
  by (rule books_ok_keep) simp_all

lemma books_ok_move:
  assumes "books_ok sh" and "stats sh k = None" and "stats sh a = Some r" and "k \<noteq> a"
  shows "books_ok (sh\<lparr>stats := (stats sh)(a := None, k \<mapsto> r)\<rparr>)"
proof -
  let ?m = "(stats sh)(a := None, k \<mapsto> r)"
  have inj: "inj_on (stats sh) (dom (stats sh))" and ran: "ran (stats sh) = {..<nextRef sh}"
    using assms(1) by (auto simp: books_ok_def)
  have other: "stats sh x \<noteq> Some r" if "x \<noteq> a" for x
    using inj that assms(3) by (auto simp: inj_on_def dom_def)
  have "ran ?m = ran (stats sh)"
  proof (intro set_eqI iffI)
    fix x assume "x \<in> ran ?m"
    then show "x \<in> ran (stats sh)" using assms(3) by (auto simp: ran_def split: if_splits)
  next
    fix x assume "x \<in> ran (stats sh)"
    then obtain y where y: "stats sh y = Some x" by (auto simp: ran_def)
    then have "?m (if y = a then k else y) = Some x" using assms(2-4) by auto
    then show "x \<in> ran ?m" by (rule ranI)
  qed
  moreover have "inj_on ?m (dom ?m)"
    using inj other by (auto simp: inj_on_def dom_def)
  ultimately show ?thesis using assms(1) ran by (simp add: books_ok_def total_def)
qed

lemma books_ok_create:
  assumes "books_ok sh" and "stats sh k = None"
    and "BlocksFound ws = 0" "SharesFound ws = 0" "StaleShares ws = 0" "InvalidShares ws = 0"
  shows "books_ok (sh\<lparr>heap := (heap sh)(nextRef sh := ws), stats := (stats sh)(k \<mapsto> nextRef sh),
           nextRef := nextRef sh + 1\<rparr>)"
proof -
  have inj: "inj_on (stats sh) (dom (stats sh))" and ran: "ran (stats sh) = {..<nextRef sh}"
    using assms(1) by (auto simp: books_ok_def)
  have fresh: "stats sh x \<noteq> Some (nextRef sh)" for x using ran by (force simp: ran_def)
  have "ran ((stats sh)(k \<mapsto> nextRef sh)) = {..<nextRef sh + 1}"
    using ran assms(2) by (simp add: ran_map_upd lessThan_Suc)
  moreover have "inj_on ((stats sh)(k \<mapsto> nextRef sh)) (dom ((stats sh)(k \<mapsto> nextRef sh)))"
    using inj fresh fresh [symmetric] by (auto simp: inj_on_def dom_def)
  moreover have "(\<Sum>r<nextRef sh. c (((heap sh)(nextRef sh := ws)) r)) = (\<Sum>r<nextRef sh. c (heap sh r))"
    for c :: "WorkStats \<Rightarrow> int" by (rule sum.cong) auto
  ultimately show ?thesis using assms by (simp add: books_ok_def total_def)
qed

lemma getCreateStats_books:
  assumes "books_ok sh" and "getCreateStats now ctx sh = (r, sh')"
  shows "books_ok sh'" and "r < nextRef sh'"
proof -
  show "books_ok sh'"
    using assms books_ok_move [of sh "workerStatsKey ctx" "RemoteAddr ctx"]
      books_ok_create [OF assms(1), of "workerStatsKey ctx"]
    by (auto simp: books_ok_rename getCreateStats_def Let_def newWorkStats_def split: option.splits if_splits)
  then show "r < nextRef sh'" using getCreateStats_frame(1) [OF assms(2)] books_ref by blast
qed

subsection \<open>One verdict, counted once\<close>

lemma checkStales_frame:
  assumes "checkStales ctx si sh = (e, sh')"
  shows "stats sh' = stats sh" "heap sh' = heap sh" "nextRef sh' = nextRef sh" "overall sh' = overall sh"
    "soloDiff sh' = soloDiff sh" "promLog sh' = promLog sh" "books_ok sh' = books_ok sh"
  using assms
  by (auto simp: checkStales_def trackDupeShare_def Let_def split: if_splits prod.splits bool.splits)

lemma submitBlock_eq:
  assumes "stats sh (workerStatsKey ctx) = Some r" "statsWorkerName (heap sh r) = workerStatsDisplayName ctx"
  shows "submitBlock now nd ctx blk nonce sh = (case SubmitBlock nd blk nonce of
     Some err \<Rightarrow> if contains err ''ErrDuplicateBlock''
       then ((SubmitStatusStale, None),
             record_prom (RecordStaleShare ctx) (upd_overall addStale (upd_stats r addStale sh)))
       else ((SubmitStatusBad, None),
             record_prom (RecordInvalidShare ctx) (upd_overall addInvalid (upd_stats r addInvalid sh)))
   | None \<Rightarrow> ((SubmitStatusAccepted, None),
       record_prom (RecordBlockFound ctx nonce (dbBlueScore nd blk)) (upd_overall addBlock (upd_stats r addBlock sh))))"
  using getCreateStats_again [OF assms] by (simp add: submitBlock_def Let_def split: option.splits)

text \<open>The effect of a submission, after the worker's statistics were found and the share was
  compared with the tip and the history: what is booked follows from the status.\<close>

definition booked :: "int \<Rightarrow> nat \<Rightarrow> SubmitStatus \<Rightarrow> shareHandler \<Rightarrow> shareHandler \<Rightarrow> bool" where
  "booked now r st sh sh' \<longleftrightarrow> (case st of
     SubmitStatusAccepted \<Rightarrow>
       \<exists>h. sh' = upd_overall addShare (upd_stats r (creditShare now h) sh)
         \<or> sh' = upd_overall addShare (upd_stats r (creditShare now h) (upd_overall addBlock (upd_stats r addBlock sh)))
   | SubmitStatusStale \<Rightarrow> sh' = upd_overall addStale (upd_stats r addStale sh)
   | _ \<Rightarrow> sh' = upd_overall addInvalid (upd_stats r addInvalid sh))"

lemma processSubmit_form:
  assumes "processSubmit now nd ctx si sh = Some ((st, e), sh')"
    and "getCreateStats now ctx sh = (r, sh1)" and "checkStales ctx si sh1 = (c, sh2)"
  shows "\<exists>ops sh3. sh' = record_prom ops sh3 \<and>
    (if e = None then booked now r st sh2 sh3 else sh3 = sh2 \<and> st = SubmitStatusBad)"
proof -
  note g = getCreateStats_frame [OF assms(2)] and f = checkStales_frame [OF assms(3)]
  have r: "stats sh2 (workerStatsKey ctx) = Some r" "statsWorkerName (heap sh2 r) = workerStatsDisplayName ctx"
    using g f by simp_all
  have c: "c = None \<or> c = Some ErrStaleShare \<or> c = Some ErrDupeShare"
    using assms(3) by (auto simp: checkStales_def Let_def split: if_splits prod.splits bool.splits)
  have self: "\<exists>ops. s = record_prom ops s" for s
    by (rule exI [of _ "[]"]) (simp add: record_prom_def)
  show ?thesis
    using assms(1) c
    by (auto simp: self processSubmit_def assms(2,3) submitBlock_eq [OF r] acceptShare_def Let_def booked_def
        split: option.splits if_splits sum.splits prod.splits)
qed

lemma processSubmit_counted_holds:
  assumes "books_ok sh" and "processSubmit now nd ctx si sh = Some ((st, e), sh')"
  shows "books_ok sh'
    \<and> SharesFound (overall sh') = SharesFound (overall sh) + of_bool (e = None \<and> st = SubmitStatusAccepted)
    \<and> StaleShares (overall sh') = StaleShares (overall sh) + of_bool (e = None \<and> st = SubmitStatusStale)
    \<and> InvalidShares (overall sh') = InvalidShares (overall sh)
        + of_bool (e = None \<and> st \<in> {SubmitStatusDuplicate, SubmitStatusLowDiff, SubmitStatusBad})
    \<and> BlocksFound (overall sh') - BlocksFound (overall sh)
        \<in> (if e = None \<and> st = SubmitStatusAccepted then {0, 1} else {0})"
proof -
  obtain r sh1 where g: "getCreateStats now ctx sh = (r, sh1)" by fastforce
  obtain c sh2 where k: "checkStales ctx si sh1 = (c, sh2)" by fastforce
  note gf = getCreateStats_frame [OF g] and gb = getCreateStats_books [OF assms(1) g]
    and kf = checkStales_frame [OF k]
  have b: "books_ok sh2" "r < nextRef sh2" "overall sh2 = overall sh" using gf gb kf by simp_all
  from processSubmit_form [OF assms(2) g k] obtain ops sh3 where s: "sh' = record_prom ops sh3"
    "if e = None then booked now r st sh2 sh3 else sh3 = sh2 \<and> st = SubmitStatusBad" by blast
  show ?thesis
  proof (cases e)
    case (Some err)
    with s b show ?thesis by simp
  next
    case None
    with s have bk: "booked now r st sh2 sh3" by simp
    have "books_ok sh3"
      using bk b by (cases st) (auto simp: booked_def blocks.keeps_books credit.keeps_books
          stale.keeps_books invalid.keeps_books)
    then show ?thesis
      using bk b None s(1)
      by (cases st) (auto simp: booked_def blocks.f_counts credit.f_counts stale.f_counts invalid.f_counts)
  qed
qed

text \<open>
  C5: every submission that ends without an internal error is counted exactly once, as found, stale
  or invalid according to the status, for its worker and in total; an internal error counts nothing.
  The overall counters stay the sums over the workers, and only an accepted share can add a block.
\<close>

theorem processSubmit_counted:
  assumes "books_ok sh" and "processSubmit now nd ctx si sh = Some ((st, e), sh')"
  shows "books_ok sh'
    \<and> SharesFound (overall sh') = SharesFound (overall sh) + of_bool (e = None \<and> st = SubmitStatusAccepted)
    \<and> StaleShares (overall sh') = StaleShares (overall sh) + of_bool (e = None \<and> st = SubmitStatusStale)
    \<and> InvalidShares (overall sh') = InvalidShares (overall sh)
        + of_bool (e = None \<and> st \<in> {SubmitStatusDuplicate, SubmitStatusLowDiff, SubmitStatusBad})
    \<and> BlocksFound (overall sh') - BlocksFound (overall sh)
        \<in> (if e = None \<and> st = SubmitStatusAccepted then {0, 1} else {0})"
  using assms by (rule processSubmit_counted_holds)

subsection \<open>The verdict\<close>

text \<open>What a submission should be told, in terms of natural numbers: the newest blue score seen,
  the shares remembered for the worker, and the answers of the node. The second component says
  that it was an internal error; \<open>None\<close> is a panic.\<close>

definition submit_verdict ::
    "nat \<Rightarrow> string set \<Rightarrow> ('tx, 'db) node \<Rightarrow> 'tx client \<Rightarrow> 'tx submitInfo \<Rightarrow> (SubmitStatus \<times> bool) option" where
  "submit_verdict tip seen nd ctx si =
    (if unat (BlueScore (Header (block si))) + 8 < tip then Some (SubmitStatusStale, False)
     else if shareKey si \<in> seen then Some (SubmitStatusDuplicate, False)
     else case (RPCBlockToDomainBlock nd (block si), stratumDiff (State ctx)) of
       (Inl _, _) \<Rightarrow> Some (SubmitStatusBad, True)
     | (Inr b, None) \<Rightarrow> Some (SubmitStatusBad, True)
     | (Inr b, Some k) \<Rightarrow>
        (case targetValue k of
           None \<Rightarrow> None
         | Some target \<Rightarrow>
            (let pow = powValue nd b (nonceVal si) in
             if pow \<le> powTarget nd b
             then Some (case SubmitBlock nd b (nonceVal si) of
                 None \<Rightarrow> SubmitStatusAccepted
               | Some err \<Rightarrow> if contains err ''ErrDuplicateBlock'' then SubmitStatusStale
                   else SubmitStatusBad, False)
             else Some (if pow < target then SubmitStatusAccepted else SubmitStatusLowDiff, False))))"

definition hist :: "string \<Rightarrow> shareHandler \<Rightarrow> shareHistory" where
  "hist w sh = (case dupeShares sh w of None \<Rightarrow> newShareHistory | Some h \<Rightarrow> h)"

definition too_old :: "shareHandler \<Rightarrow> 'tx submitInfo \<Rightarrow> bool" where
  "too_old sh si \<longleftrightarrow> unat (BlueScore (Header (block si))) + 8 < unat (tipBlueScore sh)"

text \<open>The comparison of the code does not wrap around: the subtraction happens only below the tip.\<close>

lemma stale_test:
  "\<not> tip < b \<and> workWindow < tip - b \<longleftrightarrow> unat b + 8 < unat tip" for tip b :: u64
proof (cases "b \<le> tip")
  case True
  then have "unat (tip - b) = unat tip - unat b" by (simp add: unat_sub)
  moreover have "unat b \<le> unat tip" using True by (simp add: word_le_nat_alt)
  ultimately show ?thesis using True
    by (auto simp: workWindow_def word_less_nat_alt not_less word_le_nat_alt)
next
  case False
  then show ?thesis by (simp add: word_le_nat_alt word_less_nat_alt)
qed

lemma checkStales_eq:
  "checkStales ctx si sh =
    (if too_old sh si then (Some ErrStaleShare, sh)
     else (if shareKey si \<in> hset (hist (workerStatsKey ctx) sh) then Some ErrDupeShare else None,
       sh\<lparr>tipBlueScore := max (tipBlueScore sh) (BlueScore (Header (block si))),
          dupeShares := (dupeShares sh)(workerStatsKey ctx \<mapsto>
            snd (historyTrack (shareKey si) (hist (workerStatsKey ctx) sh)))\<rparr>))"
proof -
  have dup: "fst (historyTrack k h) = (k \<in> hset h)" for k h
    by (simp add: historyTrack_def Let_def)
  have tip: "(if tipBlueScore sh < b then sh\<lparr>tipBlueScore := b\<rparr> else sh)
      = sh\<lparr>tipBlueScore := max (tipBlueScore sh) b\<rparr>" for b
    by (cases sh) (auto simp: max_def)
  show ?thesis
    using dup [of "shareKey si" "hist (workerStatsKey ctx) sh"]
    unfolding checkStales_def Let_def stale_test too_old_def [symmetric] tip trackDupeShare_def
      hist_def [symmetric]
    by (auto simp: hist_def split: prod.splits)
qed

lemma processSubmit_verdict_holds:
  "map_option (\<lambda>((st, e), _). (st, e \<noteq> None)) (processSubmit now nd ctx si sh)
    = submit_verdict (unat (tipBlueScore sh)) (hset (hist (workerStatsKey ctx) sh)) nd ctx si"
proof -
  obtain r sh1 where g: "getCreateStats now ctx sh = (r, sh1)" by fastforce
  obtain c sh2 where k: "checkStales ctx si sh1 = (c, sh2)" by fastforce
  note gf = getCreateStats_frame [OF g] and kf = checkStales_frame [OF k]
  have r: "stats sh2 (workerStatsKey ctx) = Some r" "statsWorkerName (heap sh2 r) = workerStatsDisplayName ctx"
    using gf kf by simp_all
  have same: "too_old sh1 si = too_old sh si" "hist w sh1 = hist w sh" for w
    by (simp_all add: too_old_def hist_def gf)
  have c: "c = (if too_old sh si then Some ErrStaleShare
      else if shareKey si \<in> hset (hist (workerStatsKey ctx) sh) then Some ErrDupeShare else None)"
    using k by (auto simp: checkStales_eq same split: if_splits)
  show ?thesis
    by (simp add: processSubmit_def g k submitBlock_eq [OF r] acceptShare_def Let_def submit_verdict_def
        too_old_def [symmetric] c GetStratumDiffSnapshot_def split: option.split sum.split)
qed

text \<open>
  C2: the verdict on a share is the specified one on every path: too old against the newest blue
  score, seen before, node or state not usable, a block (with the node's answer), or a share above
  or below its target. In particular the unsigned subtraction of the stale check never wraps.
\<close>

theorem processSubmit_verdict:
  "map_option (\<lambda>((st, e), _). (st, e \<noteq> None)) (processSubmit now nd ctx si sh)
    = submit_verdict (unat (tipBlueScore sh)) (hset (hist (workerStatsKey ctx) sh)) nd ctx si"
  by (rule processSubmit_verdict_holds)

subsection \<open>The histories of the workers\<close>

text \<open>A submission moves the tip to the highest blue score seen and enters the share into the
  history of its own worker, unless it is too old.\<close>

lemma processSubmit_state:
  assumes "processSubmit now nd ctx si sh = Some (res, sh')"
  shows "tipBlueScore sh' = max (tipBlueScore sh) (BlueScore (Header (block si)))"
    and "hist w sh' = (if w = workerStatsKey ctx \<and> \<not> too_old sh si
      then snd (historyTrack (shareKey si) (hist w sh)) else hist w sh)"
proof -
  obtain r sh1 where g: "getCreateStats now ctx sh = (r, sh1)" by fastforce
  obtain c sh2 where k: "checkStales ctx si sh1 = (c, sh2)" by fastforce
  obtain st e where res: "res = (st, e)" by fastforce
  note gf = getCreateStats_frame [OF g]
  have same: "too_old sh1 si = too_old sh si" "hist w sh1 = hist w sh" for w
    by (simp_all add: too_old_def hist_def gf)
  from processSubmit_form [OF assms [unfolded res] g k] obtain ops sh3 where s: "sh' = record_prom ops sh3"
    "if e = None then booked now r st sh2 sh3 else sh3 = sh2 \<and> st = SubmitStatusBad" by blast
  have keep: "tipBlueScore sh' = tipBlueScore sh2" "dupeShares sh' = dupeShares sh2"
    using s by (auto simp: booked_def split: if_splits SubmitStatus.splits)
  have old: "too_old sh si \<Longrightarrow> max (tipBlueScore sh) (BlueScore (Header (block si))) = tipBlueScore sh"
    by (simp add: too_old_def max_def word_le_nat_alt)
  show "tipBlueScore sh' = max (tipBlueScore sh) (BlueScore (Header (block si)))"
    using k old gf(4) by (cases "too_old sh si") (auto simp: keep checkStales_eq same split: if_splits)
  show "hist w sh' = (if w = workerStatsKey ctx \<and> \<not> too_old sh si
      then snd (historyTrack (shareKey si) (hist w sh)) else hist w sh)"
    using k same(2) gf(5)
    by (cases "too_old sh si") (auto simp: keep checkStales_eq same(1) hist_def split: if_splits)
qed

text \<open>What happens to the share handler between two submissions: others, each with its time, the node's
  answers, the connection and the share, and connections that end, whose histories are cleared. \<open>None\<close> if one
  of the submissions panics.\<close>

datatype ('tx, 'db) activity =
    Submitted int "('tx, 'db) node" "'tx client" "'tx submitInfo"
  | Left "'tx client"

fun activity_all :: "('tx, 'db) activity list \<Rightarrow> shareHandler \<Rightarrow> shareHandler option" where
  "activity_all [] sh = Some sh"
| "activity_all (Submitted now nd ctx si # rest) sh = (case processSubmit now nd ctx si sh of
     None \<Rightarrow> None
   | Some (_, sh') \<Rightarrow> activity_all rest sh')"
| "activity_all (Left ctx # rest) sh = activity_all rest (clearClientDupeHistory ctx sh)"

fun submits_for :: "string \<Rightarrow> ('tx, 'db) activity \<Rightarrow> bool" where
  "submits_for w (Submitted now nd ctx si) \<longleftrightarrow> workerStatsKey ctx = w"
| "submits_for w (Left ctx) \<longleftrightarrow> False"

fun clears :: "string \<Rightarrow> ('tx, 'db) activity \<Rightarrow> bool" where
  "clears w (Submitted now nd ctx si) \<longleftrightarrow> False"
| "clears w (Left ctx) \<longleftrightarrow> w \<in> {RemoteAddr ctx, WorkerName ctx, workerStatsKey ctx}"

definition histories_ok :: "shareHandler \<Rightarrow> bool" where
  "histories_ok sh \<longleftrightarrow> (\<forall>w. history_ok (hist w sh))"

lemma history_ok_new: "history_ok newShareHistory"
  by (simp add: history_ok_def newShareHistory_def)

lemma processSubmit_histories:
  assumes "processSubmit now nd ctx si sh = Some (res, sh')" and "histories_ok sh"
  shows "histories_ok sh'"
  unfolding histories_ok_def
proof
  fix w
  show "history_ok (hist w sh')"
    using assms(2) processSubmit_state(2) [OF assms(1), of w] historyTrack_ok
    by (simp add: histories_ok_def)
qed

lemma activity_all_hist:
  assumes "activity_all acts sh = Some sh'" and "\<not> list_ex (clears w) acts"
  shows "\<exists>keys. length keys \<le> length (filter (submits_for w) acts)
    \<and> hist w sh' = track_all historyTrack keys (hist w sh)"
  using assms
proof (induction acts sh rule: activity_all.induct)
  case (1 sh)
  then show ?case by (intro exI [of _ "[]"]) (simp add: track_all_def)
next
  case (2 now nd ctx si rest sh)
  then obtain st e sh1 where p: "processSubmit now nd ctx si sh = Some ((st, e), sh1)"
    by (auto split: option.splits)
  moreover from p "2.prems" have "activity_all rest sh1 = Some sh'" by simp
  moreover have "\<not> list_ex (clears w) rest" using "2.prems"(2) by simp
  ultimately obtain keys where k: "length keys \<le> length (filter (submits_for w) rest)"
    "hist w sh' = track_all historyTrack keys (hist w sh1)"
    using "2.IH" by blast
  show ?case
  proof (cases "w = workerStatsKey ctx \<and> \<not> too_old sh si")
    case True
    then have "hist w sh' = track_all historyTrack (shareKey si # keys) (hist w sh)"
      using k processSubmit_state(2) [OF p, of w] by (simp add: track_all_def)
    then show ?thesis using k True by (intro exI [of _ "shareKey si # keys"]) simp
  next
    case False
    then have "hist w sh1 = hist w sh" using processSubmit_state(2) [OF p, of w] by auto
    then show ?thesis using k by (intro exI [of _ keys]) simp
  qed
next
  case (3 ctx rest sh)
  then have "hist w (clearClientDupeHistory ctx sh) = hist w sh"
    by (simp add: hist_def clearClientDupeHistory_def)
  with 3 show ?case by simp
qed

text \<open>
  C4: a share whose verdict was neither stale nor duplicate is refused when it is submitted again for the
  same worker: as stale if the tip has moved too far in between, as a duplicate otherwise. This holds whatever
  other workers submitted, over whichever connections and with whatever answers of the node, as long as
  there were fewer than 2048 submissions of that worker in between and no connection ended whose address,
  worker name or key is that of the worker, which would clear its history.
\<close>

theorem resubmission_refused:
  assumes "histories_ok sh"
    and "processSubmit now nd ctx si sh = Some ((st, e), sh1)"
    and "st \<noteq> SubmitStatusStale" and "st \<noteq> SubmitStatusDuplicate"
    and "activity_all acts sh1 = Some sh2"
    and "length (filter (submits_for (workerStatsKey ctx)) acts) < 2048" and "\<not> list_ex (clears (workerStatsKey ctx)) acts"
    and "workerStatsKey ctx2 = workerStatsKey ctx" and "shareKey si2 = shareKey si"
  shows "\<exists>sh3. processSubmit now2 nd2 ctx2 si2 sh2
    = Some ((if too_old sh2 si2 then SubmitStatusStale else SubmitStatusDuplicate, None), sh3)"
proof -
  let ?w = "workerStatsKey ctx" and ?k = "shareKey si"
  have v: "submit_verdict (unat (tipBlueScore sh)) (hset (hist ?w sh)) nd ctx si = Some (st, e \<noteq> None)"
    using processSubmit_verdict_holds [of now nd ctx si sh] assms(2) by simp
  then have new: "\<not> too_old sh si" "?k \<notin> hset (hist ?w sh)"
    using assms(3,4) by (auto simp: submit_verdict_def too_old_def split: if_splits)
  have ok: "history_ok (hist ?w sh)" using assms(1) by (simp add: histories_ok_def)
  have h1: "hist ?w sh1 = snd (historyTrack ?k (hist ?w sh))"
    using processSubmit_state(2) [OF assms(2), of ?w] new by simp
  obtain keys where "length keys \<le> length (filter (submits_for ?w) acts)"
    and keys: "hist ?w sh2 = track_all historyTrack keys (hist ?w sh1)"
    using activity_all_hist [OF assms(5,7)] by blast
  then have len: "length keys < maxTrackedSharesPerWorker"
    using assms(6) unfolding maxTrackedSharesPerWorker_def by linarith
  have "\<not> fst (historyTrack ?k (hist ?w sh))" using new by (simp add: historyTrack_def Let_def)
  then have "fst (historyTrack ?k (hist ?w sh2))"
    unfolding keys h1 using dupes.remembered [OF ok _ len] by blast
  then have "shareKey si2 \<in> hset (hist (workerStatsKey ctx2) sh2)"
    using assms(8,9) by (simp add: historyTrack_def Let_def split: if_splits)
  then have "submit_verdict (unat (tipBlueScore sh2)) (hset (hist (workerStatsKey ctx2) sh2)) nd2 ctx2 si2
      = Some (if too_old sh2 si2 then SubmitStatusStale else SubmitStatusDuplicate, False)"
    by (simp add: submit_verdict_def too_old_def)
  then show ?thesis
    unfolding processSubmit_verdict_holds [of now2 nd2 ctx2 si2 sh2, symmetric] by auto
qed

end
