(* ===== verification/SubmitProps.thy ===== *)
theory SubmitProps
  imports ShareHandlerLemmas
begin

text \<open>
  Submissions at work: a concrete one, the nonces of clients with different extranonces, and what
  the ring of jobs means for duplicate detection.
\<close>

subsection \<open>A concrete submission\<close>

definition sample_node :: "(unit, unit) node" where
  "sample_node = \<lparr>RPCBlockToDomainBlock = (\<lambda>_. Inr ()), powValue = (\<lambda>_ n. uint n), powTarget = (\<lambda>_. 5),
     SubmitBlock = (\<lambda>_ _. None), dbBlueScore = (\<lambda>_. 0)\<rparr>"

definition sample_block :: "unit rpc_block" where
  "sample_block = \<lparr>Header = sample_header, Transactions = ()\<rparr>"

definition sample_mining :: "unit MiningState" where
  "sample_mining = \<lparr>Jobs = [1 \<mapsto> sample_block], jobCounter = 1, bigDiff = 0, initialized = True,
     useBigJob = False, connectTime = 0,
     stratumDiff = Some \<lparr>hashValue = 1, diffValue = 1, targetValue = Some 1000\<rparr>\<rparr>"

definition sample_miner :: "unit client" where
  "sample_miner = \<lparr>RemoteAddr = ''10.0.0.1'', WalletAddr = ''cryptix:qq'', WorkerName = ''rig'',
     RemoteApp = [], Id = 1, disconnecting = False, sv2Enabled = False, sv2ChannelID = 0,
     State = sample_mining, Extranonce = [], onDisconnect = Some True, sent = [], net = [],
     connClosed = False, asyncDisconnect = False, queued = 0\<rparr>"

definition sample_share :: "unit submitInfo" where
  "sample_share = \<lparr>block = sample_block, jobID = 1, noncestr = ''0000000000000064'', nonceVal = 100\<rparr>"

lemma hist_new [simp]: "hist w newShareHandler = newShareHistory"
  by (simp add: hist_def newShareHandler_def)

lemma sample_accepted:
  "\<exists>sh'. processSubmit 7 sample_node sample_miner sample_share newShareHandler
     = Some ((SubmitStatusAccepted, None), sh')"
proof -
  have "submit_verdict 0 {} sample_node sample_miner sample_share = Some (SubmitStatusAccepted, False)"
    by (simp add: submit_verdict_def sample_node_def sample_miner_def sample_mining_def sample_share_def Let_def)
  then have "map_option (\<lambda>((st, e), _). (st, e \<noteq> None))
      (processSubmit 7 sample_node sample_miner sample_share newShareHandler) = Some (SubmitStatusAccepted, False)"
    unfolding processSubmit_verdict_holds hist_new
    by (simp only: newShareHandler_def newShareHistory_def shareHandler.simps shareHistory.simps unsigned_0)
  then show ?thesis by auto
qed

theorem processSubmit_counted_witness:
  "\<exists>sh'. processSubmit 7 sample_node sample_miner sample_share newShareHandler
     = Some ((SubmitStatusAccepted, None), sh') \<and> books_ok sh' \<and> SharesFound (overall sh') = 1
     \<and> InvalidShares (overall sh') = 0"
proof -
  obtain sh' where s: "processSubmit 7 sample_node sample_miner sample_share newShareHandler
     = Some ((SubmitStatusAccepted, None), sh')" using sample_accepted by blast
  have "SharesFound (overall newShareHandler) = 0" "InvalidShares (overall newShareHandler) = 0"
    by (simp_all add: newShareHandler_def newWorkStats_def)
  with s processSubmit_counted [OF books_ok_new s] show ?thesis by simp
qed

theorem resubmission_refused_witness:
  "\<exists>sh1 sh2. processSubmit 7 sample_node sample_miner sample_share newShareHandler
       = Some ((SubmitStatusAccepted, None), sh1)
     \<and> processSubmit 9 sample_node sample_miner sample_share
         (clearClientDupeHistory (sample_miner\<lparr>RemoteAddr := ''far'', WorkerName := ''other''\<rparr>) sh1)
       = Some ((SubmitStatusDuplicate, None), sh2)"
proof -
  let ?other = "sample_miner\<lparr>RemoteAddr := ''far'', WorkerName := ''other''\<rparr>"
  obtain sh1 where s: "processSubmit 7 sample_node sample_miner sample_share newShareHandler
     = Some ((SubmitStatusAccepted, None), sh1)" using sample_accepted by blast
  let ?sh = "clearClientDupeHistory ?other sh1"
  have ok: "histories_ok newShareHandler" by (simp add: histories_ok_def history_ok_new)
  have all: "activity_all [Left ?other :: (unit, unit) activity] sh1 = Some ?sh" by simp
  have "tipBlueScore sh1 = max 0 (BlueScore (Header (block sample_share)))"
    using processSubmit_state(1) [OF s] by (simp add: newShareHandler_def)
  then have new: "\<not> too_old ?sh sample_share"
    by (simp add: too_old_def clearClientDupeHistory_def)
  have "\<exists>sh2. processSubmit 9 sample_node sample_miner sample_share ?sh
      = Some ((if too_old ?sh sample_share then SubmitStatusStale else SubmitStatusDuplicate, None), sh2)"
    by (rule resubmission_refused [OF ok s _ _ all]) (simp_all add: sample_miner_def workerStatsKey_def AnonymousWorkerName_def)
  with s new show ?thesis by auto
qed

subsection \<open>Nonces\<close>

lemma hex_value_zero_pad: "hex_value 0 (zero_pad w s) = hex_value 0 s"
  by (simp add: zero_pad_def hex_value_zeros)

lemma length_zero_pad: "length s \<le> w \<Longrightarrow> length (zero_pad w s) = w"
  by (simp add: zero_pad_def)

text \<open>A short nonce is the low part of the full nonce, the extranonce the high part.\<close>

lemma parseV1SubmitNonce_value:
  assumes "parseV1SubmitNonce ctx s = Inr n" and "Extranonce ctx \<noteq> []" and "length (Extranonce ctx) < 16"
    and "length s \<le> 16 - length (Extranonce ctx)" and "hex_value 0 (Extranonce ctx) = Some x"
  shows "\<exists>v. hex_value 0 s = Some v \<and> v < 16 ^ (16 - length (Extranonce ctx))
    \<and> unat n = x * 16 ^ (16 - length (Extranonce ctx)) + v"
proof -
  let ?k = "16 - length (Extranonce ctx)"
  have rest: "16 - int (length (Extranonce ctx)) = int ?k" using assms(3) by simp
  have norm: "normalizeNonce (Extranonce ctx) s = Extranonce ctx @ zero_pad ?k s"
    unfolding normalizeNonce_def Let_def rest nat_int using assms(2-4) by auto
  from assms(1) obtain v where v: "parse_uint 16 hex_val (Extranonce ctx @ zero_pad ?k s) = Some v" "n = word_of_nat v"
    by (auto simp: parseV1SubmitNonce_def norm split: option.splits)
  then have un: "unat n = v" using parse_uint_less [OF v(1)] by (simp add: unat_of_nat)
  from v(1) have "hex_value x (zero_pad ?k s) = Some v"
    using assms(5) by (auto simp: parse_uint_def digits_value_append split: if_splits option.splits)
  then obtain w where w: "hex_value 0 (zero_pad ?k s) = Some w" "v = x * 16 ^ length (zero_pad ?k s) + w"
    using digits_value_acc [of 16 hex_val x "zero_pad ?k s"] by auto
  have "w < 16 ^ ?k" using hex_value_less [OF w(1)] assms(4) by (simp add: length_zero_pad)
  then show ?thesis using w un assms(4) by (simp add: hex_value_zero_pad length_zero_pad)
qed

lemma parseV1SubmitNonce_long:
  assumes "parseV1SubmitNonce ctx s = Inr n" and "16 - length (Extranonce ctx) < length s"
  shows "hex_value 0 s = Some (unat n)"
proof -
  have "normalizeNonce (Extranonce ctx) s = s" using assms(2) by (auto simp: normalizeNonce_def Let_def)
  then obtain v where v: "parse_uint 16 hex_val s = Some v" "n = word_of_nat v"
    using assms(1) by (auto simp: parseV1SubmitNonce_def split: option.splits)
  then have "unat n = v" using parse_uint_less [OF v(1)] by (simp add: unat_of_nat)
  with v(1) show ?thesis by (auto simp: parse_uint_def split: if_splits option.splits)
qed

text \<open>
  C14: the extranonces of a fixed width divide the nonces, as far as clients send at most the digits that the
  extranonce leaves: if such nonces of two clients are the same number, then the extranonces are the same and both
  sent the same number. A longer text is taken for the whole nonce, whatever the extranonce is, so the
  division is not enforced against a client that sends one.
\<close>

theorem extranonces_partition:
  assumes "Extranonce c1 = fmt_hex w x1" and "Extranonce c2 = fmt_hex w x2"
    and "x1 < 16 ^ w" and "x2 < 16 ^ w" and "0 < w" and "w < 16"
    and "parseV1SubmitNonce c1 s1 = Inr n" and "parseV1SubmitNonce c2 s2 = Inr n"
  shows "(length s1 \<le> 16 - w \<and> length s2 \<le> 16 - w \<longrightarrow> x1 = x2 \<and> hex_value 0 s1 = hex_value 0 s2)
    \<and> (16 - w < length s1 \<longrightarrow> hex_value 0 s1 = Some (unat n))"
proof -
  have len: "length (Extranonce c1) = w" "length (Extranonce c2) = w"
    using assms(1-5) by (simp_all add: length_fmt_hex)
  then have ne: "Extranonce c1 \<noteq> []" "Extranonce c2 \<noteq> []" using assms(5) by auto
  have "x1 = x2 \<and> hex_value 0 s1 = hex_value 0 s2" if short: "length s1 \<le> 16 - w" "length s2 \<le> 16 - w"
  proof -
    obtain v1 where v1: "hex_value 0 s1 = Some v1" "v1 < 16 ^ (16 - w)" "unat n = x1 * 16 ^ (16 - w) + v1"
      using parseV1SubmitNonce_value [OF assms(7) ne(1), of x1] len assms short by auto
    obtain v2 where v2: "hex_value 0 s2 = Some v2" "v2 < 16 ^ (16 - w)" "unat n = x2 * 16 ^ (16 - w) + v2"
      using parseV1SubmitNonce_value [OF assms(8) ne(2), of x2] len assms short by auto
    have "unat n div 16 ^ (16 - w) = x1" using v1(2) by (simp add: v1(3))
    moreover have "unat n div 16 ^ (16 - w) = x2" using v2(2) by (simp add: v2(3))
    ultimately show ?thesis using v1 v2 by simp
  qed
  then show ?thesis using parseV1SubmitNonce_long [OF assms(7)] len(1) by simp
qed

theorem extranonces_partition_witness:
  "parseV1SubmitNonce (sample_miner\<lparr>Extranonce := ''2a''\<rparr>) ''ff'' = Inr 0x2a000000000000ff
   \<and> hex_value 0 ''ff'' = hex_value 0 ''00ff''
   \<and> parseV1SubmitNonce (sample_miner\<lparr>Extranonce := ''2b''\<rparr>) ''2a000000000000ff'' = Inr 0x2a000000000000ff
   \<and> hex_value 0 ''2a000000000000ff'' = Some 0x2a000000000000ff"
proof -
  have f: "fmt_hex 2 42 = ''2a''" "fmt_hex 2 43 = ''2b''" by code_simp+
  have a: "parseV1SubmitNonce (sample_miner\<lparr>Extranonce := ''2a''\<rparr>) ''ff'' = Inr 0x2a000000000000ff"
    and b: "parseV1SubmitNonce (sample_miner\<lparr>Extranonce := ''2a''\<rparr>) ''00ff'' = Inr 0x2a000000000000ff"
    and c: "parseV1SubmitNonce (sample_miner\<lparr>Extranonce := ''2b''\<rparr>) ''2a000000000000ff'' = Inr 0x2a000000000000ff"
    by code_simp+
  have "hex_value 0 ''ff'' = hex_value 0 ''00ff''"
    using extranonces_partition [where w = 2 and ?x1.0 = 42 and ?x2.0 = 42, OF _ _ _ _ _ _ a b] by (simp add: f)
  moreover have "hex_value 0 ''2a000000000000ff'' = Some 0x2a000000000000ff"
    using extranonces_partition [where w = 2 and ?x1.0 = 43 and ?x2.0 = 42, OF _ _ _ _ _ _ c a] by (simp add: f)
  ultimately show ?thesis using a c by simp
qed

subsection \<open>Two names for one job\<close>

lemma uint_add_32: "uint job + 32 < 2 ^ 32 \<Longrightarrow> uint (job + 32) = uint job + 32" for job :: u32
  by (simp add: uint_word_ariths)

lemma GetJob_alias: "GetJob ms (uint job + 32) = GetJob ms (uint job)"
  by (simp add: GetJob_def maxjobs_def go_rem_nonneg)

lemma share_key_inject:
  assumes "fmt_dec i @ '':'' @ a = fmt_dec j @ '':'' @ b"
  shows "i = j \<and> a = b"
proof -
  have "split2 (CHR '':'') (fmt_dec i @ CHR '':'' # a) = split2 (CHR '':'') (fmt_dec j @ CHR '':'' # b)"
    using assms by simp
  then show ?thesis using fmt_dec_inject by (simp add: split2_sep colon_notin_fmt_dec)
qed

lemma historyTrack_set: "hset (snd (historyTrack k h)) \<subseteq> insert k (hset h)"
  by (auto simp: historyTrack_def Let_def)

text \<open>Once it is neither too old nor known, only the share itself matters.\<close>

lemma verdict_fresh:
  assumes "\<not> unat (BlueScore (Header (block si))) + 8 < tip" and "shareKey si \<notin> seen"
  shows "submit_verdict tip seen nd ctx si = submit_verdict 0 {} nd ctx si"
  using assms by (simp add: submit_verdict_def)

text \<open>
  The ring of jobs has two names for one slot while the duplicate check compares names: a share
  that was accepted is accepted once more under the job number plus 32, with the same nonce.
\<close>

theorem alias_accepted_again:
  assumes "HandleSubmitSV2 now nd ctx job nonce sh = Some ((SubmitStatusAccepted, None), sh1)"
    and "uint job + 32 < 2 ^ 32"
    and "fmt_dec (uint job + 32) @ '':'' @ fmt_hex 16 (unat nonce) \<notin> hset (hist (workerStatsKey ctx) sh)"
  shows "\<exists>sh2. HandleSubmitSV2 now2 nd ctx (job + 32) nonce sh1 = Some ((SubmitStatusAccepted, None), sh2)"
proof -
  let ?w = "workerStatsKey ctx"
  obtain b where b: "GetJob (State ctx) (uint job) = Some b"
    using assms(1) by (cases "GetJob (State ctx) (uint job)") (auto simp: HandleSubmitSV2_def)
  let ?si = "\<lparr>block = b, jobID = uint job, noncestr = fmt_hex 16 (unat nonce), nonceVal = nonce\<rparr>"
  let ?si2 = "\<lparr>block = b, jobID = uint job + 32, noncestr = fmt_hex 16 (unat nonce), nonceVal = nonce\<rparr>"
  have p: "processSubmit now nd ctx ?si sh = Some ((SubmitStatusAccepted, None), sh1)"
    using assms(1) b by (simp add: HandleSubmitSV2_def)
  have v: "submit_verdict (unat (tipBlueScore sh)) (hset (hist ?w sh)) nd ctx ?si
      = Some (SubmitStatusAccepted, False)"
    using processSubmit_verdict_holds [of now nd ctx ?si sh] p by simp
  then have fresh: "\<not> unat (BlueScore (Header b)) + 8 < unat (tipBlueScore sh)"
    and old: "shareKey ?si \<notin> hset (hist ?w sh)"
    by (auto simp: submit_verdict_def split: if_splits)
  then have fresh1: "\<not> unat (BlueScore (Header b)) + 8 < unat (tipBlueScore sh1)"
    using processSubmit_state(1) [OF p] by (simp add: max_def)
  have "shareKey ?si2 \<noteq> shareKey ?si"
    using share_key_inject [of "uint job + 32" _ "uint job"] by (auto simp: shareKey_def)
  moreover have "hset (hist ?w sh1) \<subseteq> insert (shareKey ?si) (hset (hist ?w sh))"
    using processSubmit_state(2) [OF p, of ?w] historyTrack_set by (auto split: if_splits)
  ultimately have new: "shareKey ?si2 \<notin> hset (hist ?w sh1)"
    using assms(3) by (auto simp: shareKey_def)
  have same: "submit_verdict 0 {} nd ctx ?si2 = submit_verdict 0 {} nd ctx ?si"
    by (cases "RPCBlockToDomainBlock nd b"; cases "stratumDiff (State ctx)")
      (simp_all add: submit_verdict_def Let_def split: option.split)
  have "submit_verdict (unat (tipBlueScore sh1)) (hset (hist ?w sh1)) nd ctx ?si2
      = submit_verdict (unat (tipBlueScore sh)) (hset (hist ?w sh)) nd ctx ?si"
    unfolding verdict_fresh [of ?si2, simplified, OF fresh1 new]
    using verdict_fresh [of ?si "unat (tipBlueScore sh)" "hset (hist ?w sh)" nd ctx] fresh old same by simp
  then have "\<exists>sh2. processSubmit now2 nd ctx ?si2 sh1 = Some ((SubmitStatusAccepted, None), sh2)"
    using processSubmit_verdict_holds [of now2 nd ctx ?si2 sh1] v by auto
  then show ?thesis
    using b by (simp add: HandleSubmitSV2_def uint_add_32 [OF assms(2)] GetJob_alias)
qed

theorem alias_accepted_again_witness:
  "\<exists>sh1 sh2. HandleSubmitSV2 7 sample_node sample_miner 1 100 newShareHandler
       = Some ((SubmitStatusAccepted, None), sh1)
     \<and> HandleSubmitSV2 8 sample_node sample_miner (1 + 32) 100 sh1 = Some ((SubmitStatusAccepted, None), sh2)"
proof -
  have share: "sample_share = \<lparr>block = sample_block, jobID = 1, noncestr = fmt_hex 16 100, nonceVal = 100\<rparr>"
    unfolding sample_share_def by simp code_simp
  have "GetJob sample_mining 1 = Some sample_block"
    by (simp add: GetJob_def maxjobs_def go_rem_nonneg sample_mining_def)
  then have "HandleSubmitSV2 7 sample_node sample_miner 1 100 newShareHandler
      = processSubmit 7 sample_node sample_miner sample_share newShareHandler"
    by (simp add: HandleSubmitSV2_def share) (simp add: sample_miner_def)
  then obtain sh1 where s: "HandleSubmitSV2 7 sample_node sample_miner 1 100 newShareHandler
      = Some ((SubmitStatusAccepted, None), sh1)" using sample_accepted by auto
  have "\<exists>sh2. HandleSubmitSV2 8 sample_node sample_miner (1 + 32) 100 sh1 = Some ((SubmitStatusAccepted, None), sh2)"
    by (rule alias_accepted_again [OF s]) (simp_all add: newShareHistory_def)
  with s show ?thesis by blast
qed

end
