(* ===== verification/VarDiff.thy ===== *)
theory VarDiff
  imports ShareHandlerLemmas
begin

text \<open>
  \<^verbatim>\<open>src/cryptixstratum/share_handler.go\<close>, the variable difficulty: each worker's difficulty
  \<open>MinDiff\<close> is multiplied by the ratio of its share rate to the expected one when the rate leaves
  the tolerance of a window (1, 3, 10, 30, 60, 240 minutes, then open-ended). One pass of
  \<^verbatim>\<open>startVardiffThread\<close> is \<open>retargetAll\<close>; its log lines are left out. \<open>None\<close> is an index out of
  range. The hash rates of the statistics thread are here too.
\<close>

subsection \<open>Durations\<close>

definition go_quot :: "int \<Rightarrow> int \<Rightarrow> int" where
  "go_quot a b = sgn a * (\<bar>a\<bar> div \<bar>b\<bar>)"

text \<open>\<^verbatim>\<open>time.Since\<close> (which saturates for the zero time), \<^verbatim>\<open>Minutes\<close> and \<^verbatim>\<open>Seconds\<close>.\<close>

definition since :: "int \<Rightarrow> int option \<Rightarrow> int" where
  "since now t = (case t of None \<Rightarrow> 2 ^ 63 - 1 | Some t \<Rightarrow> now - t)"

definition minutes :: "int \<Rightarrow> f64" where
  "minutes d = f64_of_int (go_quot d 60000000000) + f64_of_int (go_rem d 60000000000) div f64_of_int 60000000000"

definition seconds :: "int \<Rightarrow> f64" where
  "seconds d = f64_of_int (go_quot d 1000000000) + f64_of_int (go_rem d 1000000000) div f64_of_int 1000000000"

subsection \<open>The tracker of one worker\<close>

definition updateVarDiff :: "f64 \<Rightarrow> WorkStats \<Rightarrow> f64 \<times> WorkStats" where
  "updateVarDiff minDiff ws =
     (MinDiff ws, ws\<lparr>VarDiffStartTime := None, VarDiffWindow := 0, MinDiff := minDiff\<rparr>)"

definition startVarDiff :: "int \<Rightarrow> WorkStats \<Rightarrow> WorkStats" where
  "startVarDiff now ws = (if VarDiffStartTime ws = None
     then ws\<lparr>VarDiffSharesFound := 0, VarDiffStartTime := Some now\<rparr> else ws)"

definition min_client_diff :: f64 where
  "min_client_diff = to_f64 (1 / 100000)"

definition startClientVardiff :: "int \<Rightarrow> 'st StratumContext \<Rightarrow> shareHandler \<Rightarrow> shareHandler" where
  "startClientVardiff now ctx sh =
     (case getCreateStats now ctx sh of (r, sh) \<Rightarrow> upd_stats r (startVarDiff now) sh)"

definition getClientVardiff :: "int \<Rightarrow> 'st StratumContext \<Rightarrow> shareHandler \<Rightarrow> f64 \<times> shareHandler" where
  "getClientVardiff now ctx sh =
     (case getCreateStats now ctx sh of (r, sh) \<Rightarrow> (MinDiff (heap sh r), sh))"

definition setClientVardiff ::
    "int \<Rightarrow> 'st StratumContext \<Rightarrow> f64 \<Rightarrow> shareHandler \<Rightarrow> f64 \<times> shareHandler" where
  "setClientVardiff now ctx minDiff sh =
     (case getCreateStats now ctx sh of (r, sh) \<Rightarrow>
       (let d = f64_max minDiff min_client_diff
        in (fst (updateVarDiff d (heap sh r)),
            upd_stats r (\<lambda>ws. startVarDiff now (snd (updateVarDiff d ws))) sh)))"

subsection \<open>One pass of the vardiff thread\<close>

definition windows :: "nat list" where
  "windows = [1, 3, 10, 30, 60, 240, 0]"

definition tolerances :: "f64 list" where
  "tolerances = [to_f64 (1 / 2), to_f64 (1 / 2), to_f64 (1 / 4), to_f64 (15 / 100), to_f64 (1 / 10),
     to_f64 (5 / 100), to_f64 (5 / 100)]"

definition normalizeShareRate :: "u64 \<Rightarrow> u64" where
  "normalizeShareRate expectedShareRate = (if expectedShareRate = 0 then 1 else expectedShareRate)"

definition normalizeRetargetInterval :: "int \<Rightarrow> int" where
  "normalizeRetargetInterval retargetInterval =
    (let i = (if retargetInterval \<le> 0 then 10000000000 else retargetInterval)
     in if i < 1000000000 then 1000000000 else i)"

text \<open>\<^verbatim>\<open>float64(window*expectedShareRate)\<close>, the product of two \<^verbatim>\<open>uint\<close>.\<close>

definition windowShares :: "nat \<Rightarrow> u64 \<Rightarrow> f64" where
  "windowShares window expectedShareRate = f64_of_int (uint (word_of_nat window * expectedShareRate))"

definition breached :: "f64 \<Rightarrow> f64 \<Rightarrow> bool" where
  "breached ratio tolerance \<longleftrightarrow> tolerance \<le> f64_abs (1 - ratio)"

text \<open>The loop over the windows cleared before: it ends at the first breach or at the current
  window.\<close>

function clearedLoop :: "f64 \<Rightarrow> f64 \<Rightarrow> nat \<Rightarrow> WorkStats \<Rightarrow> nat \<times> WorkStats" where
  "clearedLoop diff ratio i ws =
    (if i < VarDiffWindow ws
     then if breached ratio (tolerances ! i) then (i, snd (updateVarDiff (diff * ratio) ws))
          else clearedLoop diff ratio (i + 1) ws
     else (i, ws))"
  by pat_completeness auto
termination
  by (relation "measure (\<lambda>(diff, ratio, i, ws). VarDiffWindow ws - i)") auto

declare clearedLoop.simps [simp del]

definition retarget :: "int \<Rightarrow> u64 \<Rightarrow> WorkStats \<Rightarrow> WorkStats option" where
  "retarget now expectedShareRate ws =
    (case VarDiffStartTime ws of
       None \<Rightarrow> Some ws
     | Some _ \<Rightarrow>
        (let diff = MinDiff ws;
             shares = f64_of_int (VarDiffSharesFound ws);
             duration = minutes (since now (VarDiffStartTime ws))
         in if duration \<le> 0 then Some ws
            else if length windows \<le> VarDiffWindow ws then None
            else
              (let shareRate = shares div duration;
                   ratio = shareRate div f64_of_int (uint expectedShareRate);
                   window = windows ! VarDiffWindow ws;
                   tolerance = tolerances ! VarDiffWindow ws
               in if window = 0
                  then Some (if breached ratio tolerance then snd (updateVarDiff (diff * ratio) ws) else ws)
                  else
                    (case clearedLoop diff ratio 1 ws of (i, ws) \<Rightarrow>
                     if i < VarDiffWindow ws then Some ws
                     else if windowShares window expectedShareRate * (1 + tolerance) \<le> shares
                     then Some (snd (updateVarDiff (diff * ratio) ws))
                     else if f64_of_int (int window) \<le> duration
                     then if shares \<le> windowShares window expectedShareRate * (1 - tolerance)
                          then Some (snd (updateVarDiff (diff * f64_max ratio (to_f64 (1 / 10))) ws))
                          else Some (ws\<lparr>VarDiffWindow := VarDiffWindow ws + 1\<rparr>)
                     else Some ws))))"

text \<open>The range loop over the map: \<open>keys\<close> is the order in which it yields the keys.\<close>

fun retargetAll :: "int \<Rightarrow> u64 \<Rightarrow> string list \<Rightarrow> shareHandler \<Rightarrow> shareHandler option" where
  "retargetAll now rate [] sh = Some sh"
| "retargetAll now rate (k # keys) sh = (case stats sh k of
     None \<Rightarrow> retargetAll now rate keys sh
   | Some r \<Rightarrow> (case retarget now rate (heap sh r) of
       None \<Rightarrow> None
     | Some ws \<Rightarrow> retargetAll now rate keys (upd_stats r (\<lambda>_. ws) sh)))"

subsection \<open>Hash rates\<close>

definition GetAverageHashrateGHs :: "int \<Rightarrow> WorkStats \<Rightarrow> f64" where
  "GetAverageHashrateGHs now ws =
    (let elapsed = seconds (since now (StartTime ws))
     in if elapsed \<le> 0 then 0 else SharesDiff ws div elapsed)"

text \<open>\<^verbatim>\<open>%0.2f\<close>: the exact value rounded to hundredths, ties to even.\<close>

definition fmt_f2 :: "f64 \<Rightarrow> string" where
  "fmt_f2 d = (case d of
     NaN \<Rightarrow> ''NaN'' | PInf \<Rightarrow> ''+Inf'' | NInf \<Rightarrow> ''-Inf''
   | Fin q \<Rightarrow> (let n = nat (rne (\<bar>q\<bar> * 100))
       in (if q < 0 then ''-'' else '''') @ digits_of 10 (n div 100) @ ''.''
          @ zero_pad 2 (digits_of 10 (n mod 100))))"

definition unitStrings :: "string list" where
  "unitStrings = ['''', ''K'', ''M'', ''G'', ''T'', ''P'', ''E'', ''Z'', ''Y'']"

fun scaleUnits :: "f64 \<Rightarrow> string list \<Rightarrow> f64 \<times> string" where
  "scaleUnits hr [] = (hr, '''')"
| "scaleUnits hr [u] = (hr, u)"
| "scaleUnits hr (u # v # us) =
     (if f64_of_int 1000 \<le> hr then scaleUnits (hr div f64_of_int 1000) (v # us) else (hr, u))"

definition stringifyHashrate :: "f64 \<Rightarrow> string" where
  "stringifyHashrate ghs =
    (case scaleUnits (ghs * f64_of_int 1000000000) unitStrings of (hr, u) \<Rightarrow> fmt_f2 hr @ u @ ''H/s'')"

end
