(* ===== verification/Wallet.thy ===== *)
theory Wallet
  imports Prom
begin

text \<open>
  \<^verbatim>\<open>src/gostratum/default_client.go\<close>: the Stratum V1 handshake and the reading of a miner's
  identity. \<^verbatim>\<open>util.DecodeAddress\<close> belongs to the node's code: it is the parameter \<open>decode\<close>, which
  tells whether a text is a valid address with the given prefix (\<open>True\<close> for the test network).
\<close>

subsection \<open>Wallet addresses\<close>

definition payload_char :: "char \<Rightarrow> bool" where
  "payload_char c \<longleftrightarrow> (let n = (of_char c :: nat) in (97 \<le> n \<and> n \<le> 122) \<or> (48 \<le> n \<and> n \<le> 57))"

fun extractAddressPayload :: "string \<Rightarrow> string" where
  "extractAddressPayload [] = []"
| "extractAddressPayload (c # s) = (if payload_char c then c # extractAddressPayload s else [])"

text \<open>\<^verbatim>\<open>IndexAny(candidate, ",; \t\r\n")\<close> and the text before it.\<close>

definition separator :: "char \<Rightarrow> bool" where
  "separator c \<longleftrightarrow> (of_char c :: nat) \<in> {44, 59, 32, 9, 13, 10}"

definition cut_separator :: "string \<Rightarrow> string" where
  "cut_separator s = takeWhile (\<lambda>c. \<not> separator c) s"

definition mainPrefix :: string where
  "mainPrefix = ''cryptix:''"

definition testPrefix :: string where
  "testPrefix = ''cryptixtest:''"

definition wallet_error :: "go_error + string" where
  "wallet_error = Inl (ErrOther ''unable to coerce wallet to valid cryptix address'')"

definition CleanWallet :: "(string \<Rightarrow> bool \<Rightarrow> bool) \<Rightarrow> string \<Rightarrow> go_error + string" where
  "CleanWallet decode inp =
    (let candidate = trim_space inp in
     if candidate = [] then wallet_error
     else
      (let candidate = cut_separator candidate in
       if prefix mainPrefix candidate
       then if decode candidate False then Inr candidate
            else (let payload = extractAddressPayload (drop (length mainPrefix) candidate)
                  in if payload \<noteq> [] then Inr (mainPrefix @ payload) else wallet_error)
       else if prefix testPrefix candidate
       then if decode candidate True then Inr candidate
            else (let payload = extractAddressPayload (drop (length testPrefix) candidate)
                  in if payload \<noteq> [] then Inr (testPrefix @ payload) else wallet_error)
       else
        (let mainnet = mainPrefix @ candidate in
         if decode mainnet False then Inr mainnet
         else
          (let payload = extractAddressPayload candidate in
           if payload \<noteq> [] then Inr (mainPrefix @ payload)
           else
            (let testnet = testPrefix @ candidate
             in if decode testnet True then Inr testnet else wallet_error)))))"

definition ParseAuthorizeIdentity ::
    "(string \<Rightarrow> bool \<Rightarrow> bool) \<Rightarrow> string \<Rightarrow> go_error + string \<times> string" where
  "ParseAuthorizeIdentity decode identity =
    (case split2 (CHR ''.'') identity of (address, second) \<Rightarrow>
      (let workerName = (case second of
           None \<Rightarrow> AnonymousWorkerName
         | Some s \<Rightarrow> (let candidate = trim_space s
             in if candidate \<noteq> [] then candidate else AnonymousWorkerName))
       in case CleanWallet decode address of
            Inl err \<Rightarrow> Inl err
          | Inr wallet \<Rightarrow> Inr (wallet, workerName)))"

subsection \<open>The handshake\<close>

definition SendExtranonce :: "'st StratumContext \<Rightarrow> 'st StratumContext" where
  "SendExtranonce ctx = snd (Send (NewEvent [] ''set_extranonce'' [AStr (Extranonce ctx)]) ctx)"

definition HandleAuthorize ::
    "(string \<Rightarrow> bool \<Rightarrow> bool) \<Rightarrow> JsonRpcEvent \<Rightarrow> 'st StratumContext \<Rightarrow> go_error option \<times> 'st StratumContext" where
  "HandleAuthorize decode event ctx =
    (case Params event of
       [] \<Rightarrow> (Some (ErrOther ''malformed event from miner, expected param[1] to be address''), ctx)
     | p # _ \<Rightarrow>
        (case p of
           AStr identity \<Rightarrow>
             (case ParseAuthorizeIdentity decode identity of
                Inl err \<Rightarrow> (Some (ErrOther ''invalid wallet format''), ctx)
              | Inr (address, workerName) \<Rightarrow>
                 (let ctx = ctx\<lparr>WalletAddr := address, WorkerName := workerName\<rparr> in
                  case Reply (NewResponse event (ABool True) None) ctx of
                    (Some err, ctx) \<Rightarrow> (Some err, ctx)
                  | (None, ctx) \<Rightarrow> (None, if Extranonce ctx \<noteq> [] then SendExtranonce ctx else ctx)))
         | _ \<Rightarrow> (Some (ErrOther ''malformed event from miner, expected param[1] to be address string''), ctx)))"

definition HandleSubscribe :: "JsonRpcEvent \<Rightarrow> 'st StratumContext \<Rightarrow> go_error option \<times> 'st StratumContext" where
  "HandleSubscribe event ctx =
    (case Reply (NewResponse event (AList [ABool True, AStr ''CryptixStratum/1.0.0'']) None) ctx of
       (Some err, ctx) \<Rightarrow> (Some err, ctx)
     | (None, ctx) \<Rightarrow> (None, case Params event of
           AStr app # _ \<Rightarrow> ctx\<lparr>RemoteApp := app\<rparr>
         | _ \<Rightarrow> ctx))"

text \<open>The stub that the bridge replaces by the share handler's \<^verbatim>\<open>HandleSubmit\<close>.\<close>

definition HandleSubmitStub :: "JsonRpcEvent \<Rightarrow> 'st StratumContext \<Rightarrow> go_error option \<times> 'st StratumContext" where
  "HandleSubmitStub event ctx = (None, ctx)"

definition StratumMethodSubscribe :: string where "StratumMethodSubscribe = ''mining.subscribe''"
definition StratumMethodAuthorize :: string where "StratumMethodAuthorize = ''mining.authorize''"
definition StratumMethodSubmit :: string where "StratumMethodSubmit = ''mining.submit''"

definition DefaultHandlers ::
    "(string \<Rightarrow> bool \<Rightarrow> bool) \<Rightarrow> string
     \<rightharpoonup> (JsonRpcEvent \<Rightarrow> 'st StratumContext \<Rightarrow> go_error option \<times> 'st StratumContext)" where
  "DefaultHandlers decode = [StratumMethodSubscribe \<mapsto> HandleSubscribe,
     StratumMethodAuthorize \<mapsto> HandleAuthorize decode, StratumMethodSubmit \<mapsto> HandleSubmitStub]"

end
