(* ===== verification/Sv2Handler.thy ===== *)
theory Sv2Handler
  imports Sv2CodecLemmas ShareHandlerLemmas VarDiff Wallet
begin

unbundle bit_operations_syntax

text \<open>
  \<^verbatim>\<open>src/cryptixstratum/sv2_handler.go\<close>: the Stratum V2 side of a connection. \<open>sv2_step\<close> is the
  body of the loop for one frame, \<open>HandleBinaryClient\<close> the loop over the bytes the miner sends,
  with the deferred \<^verbatim>\<open>Disconnect\<close>. Each round has its own time and its own answers of the node.
  \<open>None\<close> is a panic. The flag for solo mining only chooses a log message and is left out.
\<close>

record sv2Handler =
  sv2MinShareDiff :: f64
  strictProtocolCheck :: bool
  nextChannelID :: u32

definition newSV2Handler :: "f64 \<Rightarrow> bool \<Rightarrow> sv2Handler" where
  "newSV2Handler minShareDiff strict =
     \<lparr>sv2MinShareDiff = minShareDiff, strictProtocolCheck = strict, nextChannelID = 0\<rparr>"

definition CanHandleFirstByte :: "sv2Handler \<Rightarrow> byte \<Rightarrow> bool" where
  "CanHandleFirstByte h firstByte \<longleftrightarrow> (if strictProtocolCheck h then True else firstByte = 0)"

definition writeSV2Frame ::
    "u16 \<Rightarrow> byte \<Rightarrow> byte list \<Rightarrow> 'st StratumContext \<Rightarrow> go_error option \<times> 'st StratumContext" where
  "writeSV2Frame extensionType messageType payload ctx =
     (case encodeSV2Frame extensionType messageType payload of
        Inl err \<Rightarrow> (Some err, ctx)
      | Inr frame \<Rightarrow> WriteRaw frame ctx)"

definition readSV2RequestID :: "byte list \<Rightarrow> u32" where
  "readSV2RequestID payload = (if length payload < 4 then 0 else dec_u32 (take 4 payload))"

definition sv2SubmitStatusCode :: "SubmitStatus \<Rightarrow> string" where
  "sv2SubmitStatusCode status = (case status of
     SubmitStatusStale \<Rightarrow> ''stale share''
   | SubmitStatusDuplicate \<Rightarrow> ''duplicate share''
   | SubmitStatusLowDiff \<Rightarrow> ''low difficulty''
   | _ \<Rightarrow> ''invalid share'')"

text \<open>What one connection works on: the handler, the share handler, the connection, and the
  local flag of the loop.\<close>

record 'tx sv2_state =
  sv2h :: sv2Handler
  shares :: shareHandler
  conn :: "'tx client"
  setupComplete :: bool

type_synonym 'tx sv2_result = "(go_error option \<times> 'tx sv2_state) option"

text \<open>Go on with the loop, or return an error.\<close>

definition go_on :: "'tx sv2_state \<Rightarrow> 'tx sv2_result" where
  "go_on st = Some (None, st)"

definition return :: "go_error \<Rightarrow> 'tx sv2_state \<Rightarrow> 'tx sv2_result" where
  "return err st = Some (Some err, st)"

text \<open>Write a frame; an error ends the handler, otherwise \<open>k\<close> continues.\<close>

definition write_or_return ::
    "u16 \<Rightarrow> byte \<Rightarrow> byte list \<Rightarrow> 'tx sv2_state \<Rightarrow> ('tx sv2_state \<Rightarrow> 'tx sv2_result) \<Rightarrow> 'tx sv2_result" where
  "write_or_return ext mt payload st k = (case writeSV2Frame ext mt payload (conn st) of
     (Some err, ctx) \<Rightarrow> return err (st\<lparr>conn := ctx\<rparr>)
   | (None, ctx) \<Rightarrow> k (st\<lparr>conn := ctx\<rparr>))"

definition write_ignoring :: "u16 \<Rightarrow> byte \<Rightarrow> byte list \<Rightarrow> 'tx sv2_state \<Rightarrow> 'tx sv2_state" where
  "write_ignoring ext mt payload st = st\<lparr>conn := snd (writeSV2Frame ext mt payload (conn st))\<rparr>"

subsection \<open>The messages\<close>

definition sv2_setup :: "byte list \<Rightarrow> 'tx sv2_state \<Rightarrow> 'tx sv2_result" where
  "sv2_setup payload st = (case parseSV2SetupConnectionPayload payload of
     Inl err \<Rightarrow> return (ErrOther ''invalid setup connection payload'')
       (write_ignoring sv2ExtStandard sv2MsgSetupConnectionError
         (encodeSV2SetupConnectionErrorPayload 0 ''malformed setup connection'') st)
   | Inr remoteApp \<Rightarrow>
       (let st = (if remoteApp \<noteq> [] then st\<lparr>conn := (conn st)\<lparr>RemoteApp := remoteApp\<rparr>\<rparr> else st)
        in write_or_return sv2ExtStandard sv2MsgSetupConnectionSuccess
             (encodeSV2SetupConnectionSuccessPayload 2 0) st (\<lambda>st. go_on (st\<lparr>setupComplete := True\<rparr>))))"

definition nextChannel :: "sv2Handler \<Rightarrow> u32 \<times> sv2Handler" where
  "nextChannel h =
    (let channelID = nextChannelID h + 1;
         channelID = (if channelID = 0 then channelID + 1 else channelID)
     in (channelID, h\<lparr>nextChannelID := channelID\<rparr>))"

text \<open>The part of an accepted open request up to the answer: the difficulty of the channel.\<close>

definition channel_diff :: "f64 \<Rightarrow> 'tx client \<Rightarrow> (f64 \<times> 'tx client) option" where
  "channel_diff minShareDiff ctx =
    (let diff = GetStratumDiffValue (State ctx) in
     if diff \<le> 0
     then (case SetStratumDiff minShareDiff (State ctx) of
             None \<Rightarrow> None
           | Some (_, ms) \<Rightarrow> Some (minShareDiff, ctx\<lparr>State := ms\<rparr>))
     else Some (diff, ctx))"

definition sv2_open_channel ::
    "int \<Rightarrow> u32 \<Rightarrow> string \<Rightarrow> string \<Rightarrow> 'tx sv2_state \<Rightarrow> 'tx sv2_result" where
  "sv2_open_channel now requestID walletAddr workerName st =
    (let ctx = (conn st)\<lparr>WalletAddr := walletAddr, WorkerName := workerName\<rparr>;
         (channelID, h) = nextChannel (sv2h st);
         ctx = EnableSV2 channelID ctx
     in case InitializeIfNeeded (RemoteApp ctx) (sv2MinShareDiff h) (State ctx) of
          None \<Rightarrow> None
        | Some (_, ms) \<Rightarrow>
            (let ctx = ctx\<lparr>State := ms\<rparr>;
                 (_, sh) = setClientVardiff now ctx (sv2MinShareDiff h) (shares st)
             in case channel_diff (sv2MinShareDiff h) ctx of
                  None \<Rightarrow> None
                | Some (diff, ctx) \<Rightarrow>
                    (case diffToSV2TargetLE diff of
                       None \<Rightarrow> None
                     | Some target \<Rightarrow>
                         write_or_return sv2ExtStandard sv2MsgOpenMiningChannelSuccess
                           (encodeSV2OpenChannelSuccessPayload requestID channelID target [])
                           (st\<lparr>sv2h := h, shares := sh, conn := ctx\<rparr>)
                           (\<lambda>st. go_on (st\<lparr>shares := snd (getCreateStats now (conn st) (shares st))\<rparr>)))))"

definition sv2_open ::
    "(string \<Rightarrow> bool \<Rightarrow> bool) \<Rightarrow> int \<Rightarrow> byte list \<Rightarrow> 'tx sv2_state \<Rightarrow> 'tx sv2_result" where
  "sv2_open decode now payload st = (case parseSV2OpenStandardChannelPayload payload of
     Inl err \<Rightarrow> return (ErrOther ''invalid open channel payload'')
       (write_ignoring sv2ExtStandard sv2MsgOpenMiningChannelError
         (encodeSV2OpenChannelErrorPayload (readSV2RequestID payload) ''malformed open channel'') st)
   | Inr (requestID, identity) \<Rightarrow>
       if \<not> setupComplete st
       then write_or_return sv2ExtStandard sv2MsgOpenMiningChannelError
              (encodeSV2OpenChannelErrorPayload requestID ''setup not complete'') st
              (return (ErrOther ''received open channel before setup''))
       else (case ParseAuthorizeIdentity decode identity of
           Inl err \<Rightarrow>
             write_or_return sv2ExtStandard sv2MsgOpenMiningChannelError
               (encodeSV2OpenChannelErrorPayload requestID ''invalid wallet'')
               (st\<lparr>shares := record_prom (RecordWorkerError (WalletAddr (conn st)) ErrInvalidAddressFmt) (shares st)\<rparr>)
               (return (ErrOther ''sv2 open channel rejected due to invalid wallet''))
         | Inr (walletAddr, workerName) \<Rightarrow> sv2_open_channel now requestID walletAddr workerName st))"

definition packNonce :: "u32 \<Rightarrow> u32 \<Rightarrow> u64" where
  "packNonce ntime nonce = push_bit 32 (ucast ntime) OR ucast nonce"

definition sv2_submit :: "int \<Rightarrow> ('tx, 'db) node \<Rightarrow> byte list \<Rightarrow> 'tx sv2_state \<Rightarrow> 'tx sv2_result" where
  "sv2_submit now nd payload st = (case parseSV2SubmitSharePayload payload of
     Inl err \<Rightarrow> return (ErrOther ''invalid submit payload'')
       (write_ignoring sv2ExtChannel sv2MsgSubmitSharesError
         (encodeSV2SubmitErrorPayload 0 0 ''malformed submit'') st)
   | Inr (channelID, sequence, job, nonce, ntime) \<Rightarrow>
       if \<not> IsSV2 (conn st) \<or> channelID \<noteq> SV2ChannelID (conn st)
       then write_or_return sv2ExtChannel sv2MsgSubmitSharesError
              (encodeSV2SubmitErrorPayload channelID sequence ''wrong channel'') st go_on
       else (case HandleSubmitSV2 now nd (conn st) job (packNonce ntime nonce) (shares st) of
           None \<Rightarrow> None
         | Some ((status, submitErr), sh) \<Rightarrow>
             (let st = st\<lparr>shares := sh\<rparr>;
                  status = (if submitErr \<noteq> None then SubmitStatusBad else status)
              in if status = SubmitStatusAccepted
                 then write_or_return sv2ExtChannel sv2MsgSubmitSharesSuccess
                        (encodeSV2SubmitSuccessPayload channelID sequence) st go_on
                 else write_or_return sv2ExtChannel sv2MsgSubmitSharesError
                        (encodeSV2SubmitErrorPayload channelID sequence (sv2SubmitStatusCode status)) st go_on)))"

definition sv2_step ::
    "(string \<Rightarrow> bool \<Rightarrow> bool) \<Rightarrow> int \<Rightarrow> ('tx, 'db) node \<Rightarrow> sv2Frame \<Rightarrow> 'tx sv2_state \<Rightarrow> 'tx sv2_result" where
  "sv2_step decode now nd frame st =
    (if MessageType frame = sv2MsgSetupConnection then sv2_setup (Payload frame) st
     else if MessageType frame = sv2MsgOpenStandardMiningChannel then sv2_open decode now (Payload frame) st
     else if MessageType frame = sv2MsgSubmitSharesStandard then sv2_submit now nd (Payload frame) st
     else go_on st)"

subsection \<open>The loop\<close>

lemma readSV2Frame_shorter:
  "readSV2Frame rd = Inr (f, rd') \<Longrightarrow> length (pending rd') < length (pending rd)"
  by (auto simp: readSV2Frame_def ReadFull_def Let_def split: if_splits sum.splits)

definition hang_up :: "'tx sv2_state \<Rightarrow> 'tx sv2_state" where
  "hang_up st = st\<lparr>conn := Disconnect (conn st)\<rparr>"

function HandleBinaryClient ::
    "(string \<Rightarrow> bool \<Rightarrow> bool) \<Rightarrow> (nat \<Rightarrow> int \<times> ('tx, 'db) node) \<Rightarrow> nat \<Rightarrow> reader \<Rightarrow> 'tx sv2_state
     \<Rightarrow> (go_error \<times> 'tx sv2_state) option" where
  "HandleBinaryClient decode world k rd st = (case readSV2Frame rd of
     Inl err \<Rightarrow> Some (if err = ErrEOF then ErrorDisconnected else ErrOther ''failed reading sv2 frame'', hang_up st)
   | Inr (frame, rd') \<Rightarrow>
       (case sv2_step decode (fst (world k)) (snd (world k)) frame st of
          None \<Rightarrow> None
        | Some (Some err, st') \<Rightarrow> Some (err, hang_up st')
        | Some (None, st') \<Rightarrow> HandleBinaryClient decode world (k + 1) rd' st'))"
  by pat_completeness auto
termination
  by (relation "measure (\<lambda>(decode, world, k, rd, st). length (pending rd))")
    (auto dest: readSV2Frame_shorter)

declare HandleBinaryClient.simps [simp del]

end
