(* ===== verification/VarDiffLemmas.thy ===== *)
theory VarDiffLemmas
  imports VarDiff
begin

text \<open>
  The variable difficulty: a pass never runs out of its tables, touches only the tracker of a
  worker, does not depend on the order in which the map is walked, and leaves the books of the
  share handler alone; what the guard after the loop over cleared windows really does; the
  difficulty a client is given; the unit chosen for a hash rate.
\<close>

lemma window_zero: "w \<le> 6 \<Longrightarrow> windows ! w = 0 \<longleftrightarrow> w = 6"
  by (cases "w = 0"; cases "w = 1"; cases "w = 2"; cases "w = 3"; cases "w = 4"; cases "w = 5"; cases "w = 6")
    (auto simp: windows_def numeral_eq_Suc)

lemma length_windows [simp]: "length windows = 7"
  by (simp add: windows_def)

lemma updateVarDiff_simps [simp]:
  "VarDiffWindow (snd (updateVarDiff d ws)) = 0" "VarDiffStartTime (snd (updateVarDiff d ws)) = None"
  "MinDiff (snd (updateVarDiff d ws)) = d" "fst (updateVarDiff d ws) = MinDiff ws"
  by (simp_all add: updateVarDiff_def)

text \<open>The loop ends with the record untouched or with the difficulty changed at the first breach.\<close>

lemma clearedLoop_cases:
  assumes "clearedLoop diff ratio i ws = (j, ws')"
  shows "(ws' = ws \<and> VarDiffWindow ws \<le> j) \<or>
    (ws' = snd (updateVarDiff (diff * ratio) ws) \<and> i \<le> j \<and> j < VarDiffWindow ws \<and> breached ratio (tolerances ! j))"
  using assms
proof (induction diff ratio i ws arbitrary: j rule: clearedLoop.induct)
  case (1 diff ratio i ws)
  show ?case
  proof (cases "i < VarDiffWindow ws \<and> \<not> breached ratio (tolerances ! i)")
    case True
    then have "clearedLoop diff ratio (i + 1) ws = (j, ws')"
      using "1.prems" by (subst (asm) clearedLoop.simps) simp
    then show ?thesis using "1.IH" [of j] True by auto
  next
    case False
    then show ?thesis using "1.prems" by (subst (asm) clearedLoop.simps) (auto split: if_splits)
  qed
qed

lemma cleared_guard_dead_holds:
  "case clearedLoop diff ratio 1 ws of (i, ws') \<Rightarrow> VarDiffWindow ws' \<le> i"
  using clearedLoop_cases [of diff ratio 1 ws] by (fastforce split: prod.split)

text \<open>
  The test behind the loop over the cleared windows, meant to skip the rest of the pass after
  a breach, never succeeds: the change of difficulty has already reset the window to 0.
\<close>

theorem cleared_guard_dead:
  "case clearedLoop diff ratio 1 ws of (i, ws') \<Rightarrow> VarDiffWindow ws' \<le> i"
  by (rule cleared_guard_dead_holds)

definition same_counters :: "WorkStats \<Rightarrow> WorkStats \<Rightarrow> bool" where
  "same_counters a b \<longleftrightarrow> b = a\<lparr>VarDiffStartTime := VarDiffStartTime b, VarDiffWindow := VarDiffWindow b,
     MinDiff := MinDiff b\<rparr>"

lemma same_counters_intros [simp]:
  "same_counters ws ws" "same_counters ws (snd (updateVarDiff d ws))"
  "same_counters ws (ws\<lparr>VarDiffWindow := n\<rparr>)"
  "same_counters ws (snd (updateVarDiff d (snd (updateVarDiff e ws))))"
  "same_counters ws ((snd (updateVarDiff d ws))\<lparr>VarDiffWindow := n\<rparr>)"
  by (cases ws; simp add: same_counters_def updateVarDiff_def)+

lemma same_countersD:
  assumes "same_counters a b"
  shows "BlocksFound b = BlocksFound a" "SharesFound b = SharesFound a" "StaleShares b = StaleShares a"
    "InvalidShares b = InvalidShares a" "statsWorkerName b = statsWorkerName a"
    "VarDiffSharesFound b = VarDiffSharesFound a" "SharesDiff b = SharesDiff a"
  using assms by (cases a; cases b; simp add: same_counters_def)+

text \<open>The factor that a pass applies to the difficulty: the ratio of the rates.\<close>

definition rate_ratio :: "int \<Rightarrow> u64 \<Rightarrow> WorkStats \<Rightarrow> f64" where
  "rate_ratio now rate ws = f64_of_int (VarDiffSharesFound ws) div minutes (since now (VarDiffStartTime ws))
     div f64_of_int (uint rate)"

lemma retarget_running:
  assumes "VarDiffStartTime ws = Some t" and "VarDiffWindow ws \<le> 6"
  shows "retarget now rate ws =
    (if minutes (since now (VarDiffStartTime ws)) \<le> 0 then Some ws
     else if windows ! VarDiffWindow ws = 0
     then Some (if breached (rate_ratio now rate ws) (tolerances ! VarDiffWindow ws)
       then snd (updateVarDiff (MinDiff ws * rate_ratio now rate ws) ws) else ws)
     else (case clearedLoop (MinDiff ws) (rate_ratio now rate ws) 1 ws of (i, ws1) \<Rightarrow>
       if i < VarDiffWindow ws1 then Some ws1
       else if windowShares (windows ! VarDiffWindow ws) rate * (1 + tolerances ! VarDiffWindow ws)
           \<le> f64_of_int (VarDiffSharesFound ws)
       then Some (snd (updateVarDiff (MinDiff ws * rate_ratio now rate ws) ws1))
       else if f64_of_int (int (windows ! VarDiffWindow ws)) \<le> minutes (since now (VarDiffStartTime ws))
       then if f64_of_int (VarDiffSharesFound ws)
           \<le> windowShares (windows ! VarDiffWindow ws) rate * (1 - tolerances ! VarDiffWindow ws)
         then Some (snd (updateVarDiff (MinDiff ws * f64_max (rate_ratio now rate ws) (to_f64 (1 / 10))) ws1))
         else Some (ws1\<lparr>VarDiffWindow := VarDiffWindow ws1 + 1\<rparr>)
       else Some ws1))"
  using assms by (simp add: retarget_def rate_ratio_def Let_def split: prod.split)

lemma retarget_outcome_holds:
  assumes "VarDiffWindow ws \<le> 6"
  shows "\<exists>ws'. retarget now rate ws = Some ws' \<and> VarDiffWindow ws' \<le> 6 \<and> same_counters ws ws'
    \<and> (MinDiff ws' = MinDiff ws \<and> VarDiffStartTime ws' = VarDiffStartTime ws
       \<or> VarDiffStartTime ws' = None
         \<and> MinDiff ws' \<in> {MinDiff ws * rate_ratio now rate ws,
              MinDiff ws * f64_max (rate_ratio now rate ws) (to_f64 (1 / 10))})"
proof -
  obtain i ws1 where l: "clearedLoop (MinDiff ws) (rate_ratio now rate ws) 1 ws = (i, ws1)" by fastforce
  have dead: "\<not> i < VarDiffWindow ws1"
    using cleared_guard_dead_holds [of "MinDiff ws" "rate_ratio now rate ws" ws] l by simp
  have ws1: "ws1 = ws \<or> ws1 = snd (updateVarDiff (MinDiff ws * rate_ratio now rate ws) ws)"
    using clearedLoop_cases [OF l] by auto
  have six: "VarDiffWindow ws < 6" if "windows ! VarDiffWindow ws \<noteq> 0"
    using assms window_zero [OF assms] that by (cases "VarDiffWindow ws = 6") auto
  show ?thesis
  proof (cases "VarDiffStartTime ws")
    case None
    then show ?thesis using assms by (simp add: retarget_def)
  next
    case (Some t)
    show ?thesis
      unfolding retarget_running [OF Some assms] l prod.case
      using ws1 assms six by (auto simp: dead Some)
  qed
qed

text \<open>The plan of the variable difficulty: the length of each window in minutes and how many percent
  the rate may differ in it. The last one has no end.\<close>

definition vardiff_plan :: "(nat \<times> nat) list" where
  "vardiff_plan = [(1, 50), (3, 50), (10, 25), (30, 15), (60, 10), (240, 5), (0, 5)]"

definition plan_minutes :: "nat \<Rightarrow> nat" where
  "plan_minutes w = fst (vardiff_plan ! w)"

definition plan_tolerance :: "nat \<Rightarrow> f64" where
  "plan_tolerance w = to_f64 (of_nat (snd (vardiff_plan ! w)) / 100)"

lemma plan_tables:
  assumes "w \<le> 6"
  shows "windows ! w = plan_minutes w" and "tolerances ! w = plan_tolerance w"
proof -
  have "w = 0 \<or> w = 1 \<or> w = 2 \<or> w = 3 \<or> w = 4 \<or> w = 5 \<or> w = 6" using assms by arith
  then show "windows ! w = plan_minutes w" and "tolerances ! w = plan_tolerance w"
    by (elim disjE; simp add: windows_def tolerances_def vardiff_plan_def plan_minutes_def plan_tolerance_def)+
qed

lemma clearedLoop_broken:
  "clearedLoop diff ratio i ws = (j, ws') \<Longrightarrow>
    ws' = (if \<exists>k. i \<le> k \<and> k < VarDiffWindow ws \<and> breached ratio (tolerances ! k)
           then snd (updateVarDiff (diff * ratio) ws) else ws)"
proof (induction diff ratio i ws arbitrary: j rule: clearedLoop.induct)
  case (1 diff ratio i ws)
  show ?case
  proof (cases "i < VarDiffWindow ws \<and> \<not> breached ratio (tolerances ! i)")
    case True
    then have "clearedLoop diff ratio (i + 1) ws = (j, ws')"
      using "1.prems" by (subst (asm) clearedLoop.simps) simp
    moreover have "(\<exists>k. i + 1 \<le> k \<and> k < VarDiffWindow ws \<and> breached ratio (tolerances ! k))
        = (\<exists>k. i \<le> k \<and> k < VarDiffWindow ws \<and> breached ratio (tolerances ! k))"
      using True by (metis Suc_eq_plus1 Suc_leD le_antisym not_less_eq_eq)
    ultimately show ?thesis using "1.IH" [of j] True by simp
  next
    case False
    then show ?thesis using "1.prems" by (subst (asm) clearedLoop.simps) (auto split: if_splits)
  qed
qed

text \<open>The findings of a pass: the tracker runs; the ratio breaks the tolerance of an earlier window; there are
  too many shares for the current one; its time is up; there are too few shares.\<close>

definition outside :: "int \<Rightarrow> u64 \<Rightarrow> WorkStats \<Rightarrow> nat \<Rightarrow> bool" where
  "outside now rate ws i \<longleftrightarrow> plan_tolerance i \<le> f64_abs (1 - rate_ratio now rate ws)"

definition quota :: "u64 \<Rightarrow> WorkStats \<Rightarrow> f64" where
  "quota rate ws = windowShares (plan_minutes (VarDiffWindow ws)) rate"

definition tracking :: "int \<Rightarrow> WorkStats \<Rightarrow> bool" where
  "tracking now ws \<longleftrightarrow> VarDiffStartTime ws \<noteq> None \<and> \<not> minutes (since now (VarDiffStartTime ws)) \<le> 0"

definition relapsed :: "int \<Rightarrow> u64 \<Rightarrow> WorkStats \<Rightarrow> bool" where
  "relapsed now rate ws \<longleftrightarrow> VarDiffWindow ws < 6 \<and> (\<exists>i\<in>set [1..<VarDiffWindow ws]. outside now rate ws i)"

definition flooded :: "int \<Rightarrow> u64 \<Rightarrow> WorkStats \<Rightarrow> bool" where
  "flooded now rate ws \<longleftrightarrow> (if VarDiffWindow ws = 6 then outside now rate ws 6
     else quota rate ws * (1 + plan_tolerance (VarDiffWindow ws)) \<le> f64_of_int (VarDiffSharesFound ws))"

definition time_up :: "int \<Rightarrow> WorkStats \<Rightarrow> bool" where
  "time_up now ws \<longleftrightarrow> VarDiffWindow ws < 6
     \<and> f64_of_int (int (plan_minutes (VarDiffWindow ws))) \<le> minutes (since now (VarDiffStartTime ws))"

definition starved :: "int \<Rightarrow> u64 \<Rightarrow> WorkStats \<Rightarrow> bool" where
  "starved now rate ws \<longleftrightarrow> time_up now ws \<and> \<not> flooded now rate ws
     \<and> f64_of_int (VarDiffSharesFound ws) \<le> quota rate ws * (1 - plan_tolerance (VarDiffWindow ws))"

text \<open>The same pass with the findings of the plan.\<close>

lemma retarget_findings:
  fixes rate :: u64
  assumes "tracking now ws" and "VarDiffWindow ws \<le> 6"
  defines "d \<equiv> MinDiff ws * rate_ratio now rate ws"
  defines "ws1 \<equiv> (if relapsed now rate ws then snd (updateVarDiff d ws) else ws)"
  shows "retarget now rate ws = Some (if flooded now rate ws then snd (updateVarDiff d ws1)
    else if starved now rate ws then snd (updateVarDiff (MinDiff ws * f64_max (rate_ratio now rate ws) (to_f64 (1 / 10))) ws1)
    else if time_up now ws then ws1\<lparr>VarDiffWindow := VarDiffWindow ws1 + 1\<rparr> else ws1)"
proof -
  obtain t where t: "VarDiffStartTime ws = Some t" and run: "\<not> minutes (since now (VarDiffStartTime ws)) \<le> 0"
    using assms(1) by (auto simp: tracking_def)
  note final = window_zero [OF assms(2)]
  note run = retarget_running [OF t assms(2), of now rate] run
  show ?thesis
  proof (cases "VarDiffWindow ws = 6")
    case True
    then show ?thesis
      using run final plan_tables(2) [of 6]
      by (simp add: ws1_def relapsed_def flooded_def starved_def time_up_def outside_def breached_def d_def)
  next
    case False
    obtain j ws2 where l: "clearedLoop (MinDiff ws) (rate_ratio now rate ws) 1 ws = (j, ws2)" by fastforce
    have "(\<exists>i. 1 \<le> i \<and> i < VarDiffWindow ws \<and> breached (rate_ratio now rate ws) (tolerances ! i)) = relapsed now rate ws"
      using assms(2) False plan_tables(2) by (auto simp: relapsed_def outside_def breached_def)
    then have ws2: "ws2 = ws1" using clearedLoop_broken [OF l] by (simp add: ws1_def d_def)
    have dead: "\<not> j < VarDiffWindow ws2"
      using cleared_guard_dead_holds [of "MinDiff ws" "rate_ratio now rate ws" ws] l by simp
    have "VarDiffWindow ws < 6" using False assms(2) by simp
    then show ?thesis
      using run final False dead unfolding l prod.case ws2 [symmetric] plan_tables [OF assms(2)]
      by (simp add: flooded_def starved_def time_up_def quota_def d_def)
  qed
qed

lemma retarget_table:
  assumes "VarDiffWindow ws \<le> 6"
  shows "\<exists>ws'. retarget now rate ws = Some ws' \<and> same_counters ws ws'
    \<and> (\<not> tracking now ws \<longrightarrow> ws' = ws)
    \<and> (tracking now ws \<longrightarrow>
       VarDiffStartTime ws' = (if relapsed now rate ws \<or> flooded now rate ws \<or> starved now rate ws then None
         else VarDiffStartTime ws)
     \<and> MinDiff ws' = (if starved now rate ws then MinDiff ws * f64_max (rate_ratio now rate ws) (to_f64 (1 / 10))
         else if relapsed now rate ws \<or> flooded now rate ws then MinDiff ws * rate_ratio now rate ws else MinDiff ws)
     \<and> VarDiffWindow ws' = (if flooded now rate ws \<or> starved now rate ws then 0
         else if relapsed now rate ws then if time_up now ws then 1 else 0
         else if time_up now ws then VarDiffWindow ws + 1 else VarDiffWindow ws))"
proof (cases "tracking now ws")
  case False
  then have "retarget now rate ws = Some ws" by (cases "VarDiffStartTime ws") (auto simp: tracking_def retarget_def Let_def)
  then show ?thesis using False by simp
next
  case True
  have "starved now rate ws \<Longrightarrow> \<not> flooded now rate ws" by (simp add: starved_def)
  then show ?thesis unfolding retarget_findings [OF True assms] using True by auto
qed

text \<open>
  C21: what a pass does to one worker, as a decision table. Nothing happens while the tracker does not
  run or no time has passed. Otherwise the tracker is stopped when the ratio of the share rate to the
  expected one breaks the tolerance of an earlier window (the first one is not looked at), when there are too many
  shares for the current window, when its time is up and there are too few, or, in the last window, when the
  ratio breaks its tolerance; and in no other case. Then the difficulty is multiplied by the ratio, which is
  taken as at least a tenth when there were too few shares. The window returns to the first one, or to the
  second if an earlier window was broken and the time of the current one was up as well; if its time
  is up and nothing was broken the next one begins. The counters stay as they are, and no pass fails.
\<close>

theorem retarget_outcome:
  assumes "VarDiffWindow ws \<le> 6"
  shows "\<exists>ws'. retarget now rate ws = Some ws' \<and> same_counters ws ws'
    \<and> (\<not> tracking now ws \<longrightarrow> ws' = ws)
    \<and> (tracking now ws \<longrightarrow>
       VarDiffStartTime ws' = (if relapsed now rate ws \<or> flooded now rate ws \<or> starved now rate ws then None
         else VarDiffStartTime ws)
     \<and> MinDiff ws' = (if starved now rate ws then MinDiff ws * f64_max (rate_ratio now rate ws) (to_f64 (1 / 10))
         else if relapsed now rate ws \<or> flooded now rate ws then MinDiff ws * rate_ratio now rate ws else MinDiff ws)
     \<and> VarDiffWindow ws' = (if flooded now rate ws \<or> starved now rate ws then 0
         else if relapsed now rate ws then if time_up now ws then 1 else 0
         else if time_up now ws then VarDiffWindow ws + 1 else VarDiffWindow ws))"
  using assms by (rule retarget_table)

definition windows_ok :: "shareHandler \<Rightarrow> bool" where
  "windows_ok sh \<longleftrightarrow> (\<forall>r. VarDiffWindow (heap sh r) \<le> 6)"

text \<open>One pass as a change of the store alone.\<close>

definition retargeted :: "int \<Rightarrow> u64 \<Rightarrow> string set \<Rightarrow> shareHandler \<Rightarrow> shareHandler" where
  "retargeted now rate ks sh = sh\<lparr>heap := (\<lambda>r. if Some r \<in> stats sh ` ks
     then the (retarget now rate (heap sh r)) else heap sh r)\<rparr>"

lemma retargetAll_eq:
  assumes "distinct ks" and "inj_on (stats sh) (dom (stats sh))" and "windows_ok sh"
  shows "retargetAll now rate ks sh = Some (retargeted now rate (set ks) sh)"
  using assms
proof (induction ks arbitrary: sh)
  case Nil
  then show ?case by (simp add: retargeted_def)
next
  case (Cons k ks)
  show ?case
  proof (cases "stats sh k")
    case None
    then have "retargeted now rate (set (k # ks)) sh = retargeted now rate (set ks) sh"
      by (auto simp: retargeted_def)
    then show ?thesis using Cons None by simp
  next
    case (Some r)
    from Cons.prems(3) obtain ws where w: "retarget now rate (heap sh r) = Some ws" "VarDiffWindow ws \<le> 6"
      using retarget_outcome_holds [of "heap sh r" now rate] by (auto simp: windows_ok_def)
    let ?sh = "upd_stats r (\<lambda>_. ws) sh"
    have other: "Some r \<notin> stats sh ` set ks"
    proof
      assume "Some r \<in> stats sh ` set ks"
      then obtain x where x: "x \<in> set ks" "stats sh x = stats sh k" using Some by auto
      then have "x = k" using Some by (intro inj_onD [OF Cons.prems(2)]) auto
      then show False using x Cons.prems(1) by simp
    qed
    have "retargetAll now rate ks ?sh = Some (retargeted now rate (set ks) ?sh)"
      using Cons.prems w by (intro Cons.IH) (auto simp: windows_ok_def)
    moreover have "retargeted now rate (set ks) ?sh = retargeted now rate (set (k # ks)) sh"
      using other Some w(1) by (auto simp: retargeted_def upd_stats_def fun_eq_iff)
    ultimately show ?thesis using Some w(1) by simp
  qed
qed

lemma retargeted_books:
  assumes "windows_ok sh"
  shows "books_ok (retargeted now rate ks sh) = books_ok sh" and "windows_ok (retargeted now rate ks sh)"
proof -
  have "\<exists>ws. retarget now rate (heap sh r) = Some ws \<and> VarDiffWindow ws \<le> 6 \<and> same_counters (heap sh r) ws" for r
    using retarget_outcome_holds [of "heap sh r" now rate] assms by (auto simp: windows_ok_def)
  then have each: "VarDiffWindow (the (retarget now rate (heap sh r))) \<le> 6"
      "same_counters (heap sh r) (the (retarget now rate (heap sh r)))" for r
    by (metis option.sel)+
  show "windows_ok (retargeted now rate ks sh)"
    using each(1) assms by (simp add: windows_ok_def retargeted_def)
  show "books_ok (retargeted now rate ks sh) = books_ok sh"
    using each(2) [THEN same_countersD(1)] each(2) [THEN same_countersD(2)]
      each(2) [THEN same_countersD(3)] each(2) [THEN same_countersD(4)]
    by (simp add: books_ok_def total_def retargeted_def if_distrib cong: if_cong)
qed

text \<open>
  C22: a pass over all workers never fails, keeps the books and the windows in order, and its result
  does not depend on the order in which the map yields the workers.
\<close>

theorem retargetAll_order:
  assumes "books_ok sh" and "windows_ok sh"
    and "distinct ks" and "distinct js" and "set ks = set js"
  shows "\<exists>sh'. retargetAll now rate ks sh = Some sh' \<and> retargetAll now rate js sh = Some sh'
    \<and> books_ok sh' \<and> windows_ok sh'"
  using retargetAll_eq [of ks sh now rate] retargetAll_eq [of js sh now rate] assms retargeted_books
  by (simp add: books_ok_def)

text \<open>
  After the difficulty of a client was set, the client is given it, raised to at least
  \<^verbatim>\<open>1e-5\<close>, its tracker starts anew at that moment with no shares and the first window, and the
  previous difficulty is returned.
\<close>

theorem setClientVardiff_effect:
  "case setClientVardiff now ctx d sh of (prev, sh') \<Rightarrow>
     case getCreateStats now ctx sh' of (r, sh'') \<Rightarrow>
       sh'' = sh' \<and> getClientVardiff now2 ctx sh' = (f64_max d min_client_diff, sh')
       \<and> VarDiffStartTime (heap sh' r) = Some now \<and> VarDiffSharesFound (heap sh' r) = 0
       \<and> VarDiffWindow (heap sh' r) = 0
       \<and> prev = fst (getClientVardiff now ctx sh)"
proof -
  obtain r sh1 where g: "getCreateStats now ctx sh = (r, sh1)" by fastforce
  let ?d = "f64_max d min_client_diff"
  let ?sh = "upd_stats r (\<lambda>ws. startVarDiff now (snd (updateVarDiff ?d ws))) sh1"
  have s: "stats ?sh (workerStatsKey ctx) = Some r"
    "statsWorkerName (heap ?sh r) = workerStatsDisplayName ctx"
    using getCreateStats_frame [OF g] by (simp_all add: startVarDiff_def updateVarDiff_def)
  show ?thesis
    using getCreateStats_again [OF s]
    by (simp add: setClientVardiff_def g getClientVardiff_def Let_def startVarDiff_def updateVarDiff_def)
qed

lemma scaleUnits_unit:
  "us \<noteq> [] \<Longrightarrow> case scaleUnits hr us of (hr', u) \<Rightarrow>
     u \<in> set us \<and> (u = last us \<or> hr' = NaN \<or> hr' < f64_of_int 1000)"
proof (induction hr us rule: scaleUnits.induct)
  case (3 hr u v us)
  have fin: "f64_of_int 1000 = Fin 1000" by (simp add: f64_of_int_exact)
  show ?case
  proof (cases "f64_of_int 1000 \<le> hr")
    case True
    then show ?thesis using "3.IH" by (auto split: prod.splits)
  next
    case False
    then have "hr = NaN \<or> hr < f64_of_int 1000"
      by (cases hr) (auto simp: fin f64_ops f64_eq_def)
    then show ?thesis using False by auto
  qed
qed auto

text \<open>
  A hash rate is shown in the first unit in which it is below 1000, in the largest unit if
  there is none.
\<close>

theorem hashrate_unit:
  "case scaleUnits (ghs * f64_of_int 1000000000) unitStrings of (hr, u) \<Rightarrow>
     stringifyHashrate ghs = fmt_f2 hr @ u @ ''H/s'' \<and> u \<in> set unitStrings
     \<and> (u = ''Y'' \<or> hr = NaN \<or> hr < f64_of_int 1000)"
proof -
  have "unitStrings \<noteq> []" "last unitStrings = ''Y''" by (simp_all add: unitStrings_def)
  then show ?thesis
    using scaleUnits_unit [of unitStrings "ghs * f64_of_int 1000000000"]
    by (auto simp: stringifyHashrate_def split: prod.splits)
qed

subsection \<open>A worker whose rate breaks the tolerance of a cleared window\<close>

definition halved_worker :: WorkStats where
  "halved_worker = newWorkStats\<lparr>VarDiffStartTime := Some 0, VarDiffWindow := 2,
     VarDiffSharesFound := 8, MinDiff := 1\<rparr>"

lemma f64_halves: "to_f64 (1 / 2) = Fin (1 / 2)" "to_f64 (1 / 4) = Fin (1 / 4)"
  using to_f64_dyadic [of 1 1] to_f64_dyadic [of 1 2] by simp_all

text \<open>
  Eight shares in sixteen minutes, where one per minute is expected, break the tolerance of the
  three-minute window; the difficulty is halved, but because the guard is dead the pass goes on
  and moves the stopped tracker to the second window, where it will start again.
\<close>

theorem reset_skips_first_window:
  "retarget 960000000000 1 halved_worker
    = Some (halved_worker\<lparr>VarDiffStartTime := None, VarDiffWindow := 1, MinDiff := Fin (1 / 2)\<rparr>)"
proof -
  have min: "minutes (since 960000000000 (VarDiffStartTime halved_worker)) = Fin 16"
    by (simp add: minutes_def since_def halved_worker_def go_quot_def go_rem_def f64_of_int_exact f64_ops
        f64_eval_int [of 16 16])
  have ratio: "rate_ratio 960000000000 1 halved_worker = Fin (1 / 2)"
    unfolding rate_ratio_def min
    by (simp add: halved_worker_def f64_of_int_exact f64_ops f64_halves)
  have br: "breached (Fin (1 / 2)) (tolerances ! 1)"
    by (simp add: breached_def tolerances_def f64_ops f64_halves f64_eq_def)
  have mul: "(1 :: f64) * Fin (1 / 2) = Fin (1 / 2)" by (simp add: f64_ops f64_halves)
  have loop: "clearedLoop 1 (Fin (1 / 2)) 1 halved_worker
      = (1, halved_worker\<lparr>VarDiffStartTime := None, VarDiffWindow := 0, MinDiff := Fin (1 / 2)\<rparr>)"
    using br by (subst clearedLoop.simps) (simp add: halved_worker_def updateVarDiff_def mul)
  have high: "\<not> windowShares 10 1 * (1 + tolerances ! 2) \<le> f64_of_int 8"
    using to_f64_dyadic [of 5 2] to_f64_dyadic [of 25 1]
    by (simp add: windowShares_def tolerances_def f64_of_int_exact f64_ops f64_halves f64_eq_def)
  have low: "\<not> f64_of_int 8 \<le> windowShares 10 1 * (1 - tolerances ! 2)"
    using to_f64_dyadic [of 3 2] to_f64_dyadic [of 15 1]
    by (simp add: windowShares_def tolerances_def f64_of_int_exact f64_ops f64_halves f64_eq_def)
  have sel: "VarDiffStartTime halved_worker = Some 0" "VarDiffWindow halved_worker = 2"
    "MinDiff halved_worker = 1" "VarDiffSharesFound halved_worker = 8"
    by (simp_all add: halved_worker_def)
  have w: "windows ! 2 = 10" by (simp add: windows_def)
  have pos: "\<not> Fin 16 \<le> 0" "f64_of_int 10 \<le> Fin 16" by (simp_all add: f64_ops f64_eq_def f64_of_int_exact)
  show ?thesis
    using high low pos
    by (subst retarget_running [OF sel(1)]) (simp_all only: sel min [unfolded sel(1)] ratio w loop, simp_all)
qed

subsection \<open>Witnesses\<close>

theorem retarget_outcome_witness:
  "\<exists>ws'. retarget 960000000000 1 halved_worker = Some ws' \<and> same_counters halved_worker ws'
     \<and> (VarDiffStartTime ws' = None \<longrightarrow> MinDiff ws' \<noteq> MinDiff halved_worker \<or> VarDiffWindow ws' \<noteq> 2)"
proof -
  have "VarDiffWindow halved_worker \<le> 6" by (simp add: halved_worker_def)
  from retarget_outcome [OF this, of 960000000000 1]
  obtain ws' where "retarget 960000000000 1 halved_worker = Some ws'" "same_counters halved_worker ws'" by blast
  moreover from this(1) have "VarDiffWindow ws' \<noteq> 2" by (auto simp: reset_skips_first_window)
  ultimately show ?thesis by blast
qed

definition two_workers :: shareHandler where
  "two_workers = newShareHandler\<lparr>stats := [''a'' \<mapsto> 0, ''b'' \<mapsto> 1], nextRef := 2,
     heap := (\<lambda>r. if r = 0 then halved_worker else newWorkStats)\<rparr>"

theorem retargetAll_order_witness:
  "\<exists>sh'. retargetAll 960000000000 1 [''a'', ''b''] two_workers = Some sh'
     \<and> retargetAll 960000000000 1 [''b'', ''a''] two_workers = Some sh' \<and> books_ok sh'"
proof -
  let ?m = "[''a'' \<mapsto> 0, ''b'' \<mapsto> 1] :: string \<rightharpoonup> nat"
  have "ran ?m = {..<2}"
    by (simp add: ran_map_upd numeral_2_eq_2 lessThan_Suc insert_commute)
  moreover have "inj_on ?m (dom ?m)" by (simp add: inj_on_def)
  moreover have "total c two_workers = c halved_worker + c newWorkStats" for c
    by (simp add: total_def two_workers_def numeral_2_eq_2)
  moreover have "stats two_workers = ?m" "nextRef two_workers = 2" "overall two_workers = newWorkStats"
    by (simp_all add: two_workers_def newShareHandler_def)
  ultimately have "books_ok two_workers"
    by (simp add: books_ok_def halved_worker_def newWorkStats_def)
  moreover have "windows_ok two_workers"
    by (simp add: windows_ok_def two_workers_def halved_worker_def newWorkStats_def)
  moreover have "distinct [''a'', ''b'']" "distinct [''b'', ''a'']" "set [''a'', ''b''] = set [''b'', ''a'']"
    by auto
  ultimately show ?thesis
    using retargetAll_order [of two_workers "[''a'', ''b'']" "[''b'', ''a'']" 960000000000 1] by blast
qed

end
