(* ===== verification/WalletLemmas.thy ===== *)
theory WalletLemmas
  imports Wallet
begin

text \<open>
  Identities: what a cleaned wallet looks like, that cleaning is idempotent, when an address counts
  as one of the test network, how an identity splits into wallet and worker, and what the
  handshake sends.
\<close>

definition address_payload :: "string \<Rightarrow> bool" where
  "address_payload p \<longleftrightarrow> p \<noteq> [] \<and> list_all payload_char p"

text \<open>What is documented of bech32 text (BIP 173): a decoder takes upper case as lower case but refuses text in
  which both occur; what it accepts is the prefix of the network, which \<^verbatim>\<open>util.DecodeAddress\<close> compares, and
  a payload of letters and digits.\<close>

definition lower_char :: "char \<Rightarrow> char" where
  "lower_char c = (let n = of_char c in if 65 \<le> n \<and> n \<le> (90 :: nat) then char_of (n + 32) else c)"

definition upper_char :: "char \<Rightarrow> char" where
  "upper_char c = (let n = of_char c in if 97 \<le> n \<and> n \<le> (122 :: nat) then char_of (n - 32) else c)"

definition network_prefix :: "bool \<Rightarrow> string" where
  "network_prefix test = (if test then testPrefix else mainPrefix)"

definition bech32_text :: "(string \<Rightarrow> bool \<Rightarrow> bool) \<Rightarrow> bool" where
  "bech32_text decode \<longleftrightarrow> (\<forall>w test. decode w test \<longrightarrow> (map lower_char w = w \<or> map upper_char w = w)
     \<and> (\<exists>p. address_payload p \<and> map lower_char w = network_prefix test @ p))"

text \<open>With the prefix of a network in lower case the whole text is in lower case.\<close>

lemma bech32_lower:
  assumes "bech32_text decode" and "decode (network_prefix t @ c) test"
  shows "test = t \<and> address_payload c"
proof -
  let ?w = "network_prefix t @ c"
  have pre: "map upper_char (network_prefix t) \<noteq> network_prefix t" for t
    by (cases t) (simp_all only: network_prefix_def if_True if_False, code_simp+)
  have "map upper_char ?w \<noteq> ?w" using pre [of t] by auto
  moreover have "map lower_char ?w = ?w \<or> map upper_char ?w = ?w"
    and "\<exists>p. address_payload p \<and> map lower_char ?w = network_prefix test @ p"
    using assms unfolding bech32_text_def by blast+
  ultimately obtain p where p: "address_payload p" "network_prefix t @ c = network_prefix test @ p" by metis
  have "test = t" using p(2) by (cases t; cases test) (auto simp: network_prefix_def mainPrefix_def testPrefix_def)
  then show ?thesis using p by simp
qed

lemma space_ends:
  assumes "payload_char c \<or> c = CHR '':''"
  shows "\<forall>p \<in> set space_encodings. \<not> prefix p (c # s)"
    and "\<forall>p \<in> set (map rev space_encodings). \<not> prefix p (c # s)"
proof -
  have "\<forall>p \<in> set space_encodings. p \<noteq> [] \<and> \<not> payload_char (hd p) \<and> hd p \<noteq> CHR '':''
      \<and> \<not> payload_char (last p) \<and> last p \<noteq> CHR '':''"
    by code_simp
  then have ends: "p \<noteq> []" "hd p \<noteq> c" "last p \<noteq> c" if "p \<in> set space_encodings" for p
    using assms that by blast+
  have no: "\<not> prefix p (c # s)" if "p \<noteq> []" "hd p \<noteq> c" for p
    using that by (cases p) auto
  show "\<forall>p \<in> set space_encodings. \<not> prefix p (c # s)" using ends no by blast
  show "\<forall>p \<in> set (map rev space_encodings). \<not> prefix p (c # s)"
  proof
    fix p assume "p \<in> set (map rev space_encodings)"
    then obtain q where "p = rev q" "q \<in> set space_encodings" by auto
    then show "\<not> prefix p (c # s)" using ends by (intro no) (simp_all add: hd_rev)
  qed
qed

lemma trim_space_id:
  assumes "s \<noteq> []" and "payload_char (hd s)" and "payload_char (last s) \<or> last s = CHR '':''"
  shows "trim_space s = s"
proof -
  obtain c t where s: "s = c # t" using assms(1) by (cases s) auto
  have "strip_front space_encodings s = s"
    using space_ends(1) [of c t] assms(2) s by (intro strip_front_id) auto
  moreover obtain d u where r: "rev s = d # u" "d = last s"
    using assms(1) by (metis hd_rev list.collapse rev_is_Nil_conv)
  have "strip_front (map rev space_encodings) (d # u) = d # u"
    using space_ends(2) [of d u] assms(3) r(2) by (intro strip_front_id) blast
  ultimately show ?thesis by (simp add: trim_space_def r(1) [symmetric])
qed

lemma cut_payload:
  assumes "list_all (\<lambda>c. payload_char c \<or> c = CHR '':'') s"
  shows "cut_separator s = s"
proof -
  have "\<not> separator c" if "payload_char c \<or> c = CHR '':''" for c
    using that by (auto simp: payload_char_def separator_def Let_def)
  then show ?thesis using assms by (auto simp: cut_separator_def list_all_iff takeWhile_eq_all_conv)
qed

lemma extract_all: "list_all payload_char p \<Longrightarrow> extractAddressPayload p = p"
  by (induction p) auto

lemma extract_payload: "extractAddressPayload s \<noteq> [] \<Longrightarrow> address_payload (extractAddressPayload s)"
proof -
  have "list_all payload_char (extractAddressPayload s)" by (induction s) auto
  then show "extractAddressPayload s \<noteq> [] \<Longrightarrow> ?thesis" by (simp add: address_payload_def)
qed

lemma prefix_chars:
  "list_all (\<lambda>c. payload_char c \<or> c = CHR '':'') mainPrefix" "payload_char (hd mainPrefix)"
  "list_all (\<lambda>c. payload_char c \<or> c = CHR '':'') testPrefix" "payload_char (hd testPrefix)"
  by code_simp+

lemma prefixes_differ: "\<not> prefix mainPrefix (testPrefix @ p)" "\<not> prefix testPrefix (mainPrefix @ p)"
  by (simp_all add: mainPrefix_def testPrefix_def)

lemma no_colon_prefix:
  assumes "list_all payload_char p"
  shows "\<not> prefix mainPrefix p" and "\<not> prefix testPrefix p"
proof -
  have c: "CHR '':'' \<notin> set p" using assms by (auto simp: list_all_iff payload_char_def Let_def)
  have "CHR '':'' \<in> set mainPrefix" "CHR '':'' \<in> set testPrefix"
    by (simp_all add: mainPrefix_def testPrefix_def)
  then show "\<not> prefix mainPrefix p" and "\<not> prefix testPrefix p"
    using c set_mono_prefix by blast+
qed

text \<open>What the first two steps leave of an address that is already clean.\<close>

lemma clean_text:
  assumes "address_payload p" and "pre \<in> {mainPrefix, testPrefix, []}"
  shows "trim_space (pre @ p) = pre @ p" and "cut_separator (pre @ p) = pre @ p"
proof -
  have p: "p \<noteq> []" "list_all payload_char p" using assms(1) by (simp_all add: address_payload_def)
  have "payload_char (last p)" "payload_char (hd p)" using p by (simp_all add: list_all_iff)
  then have "payload_char (hd (pre @ p))" "payload_char (last (pre @ p))"
    using p(1) assms(2) prefix_chars by (auto simp: hd_append)
  then show "trim_space (pre @ p) = pre @ p" using p(1) by (intro trim_space_id) auto
  have "list_all (\<lambda>c. payload_char c \<or> c = CHR '':'') (pre @ p)"
    using p(2) assms(2) prefix_chars by (auto simp: list_all_iff)
  then show "cut_separator (pre @ p) = pre @ p" by (rule cut_payload)
qed

lemma CleanWallet_cases:
  assumes "CleanWallet decode inp = Inr w"
  shows "(\<exists>t c. decode w t \<and> w = network_prefix t @ c)
    \<or> (\<exists>t c. extractAddressPayload c \<noteq> [] \<and> w = network_prefix t @ extractAddressPayload c)"
proof -
  have pre: "network_prefix False = mainPrefix" "network_prefix True = testPrefix" by (simp_all add: network_prefix_def)
  show ?thesis
    using assms unfolding CleanWallet_def wallet_error_def Let_def pre [symmetric]
    by (simp add: prefix_def split: if_splits) metis+
qed

lemma CleanWallet_canonical_holds:
  assumes "bech32_text decode" and "CleanWallet decode inp = Inr w"
  shows "(\<exists>p. address_payload p \<and> (w = mainPrefix @ p \<or> w = testPrefix @ p))
    \<and> CleanWallet decode w = Inr w"
proof -
  have form: "\<exists>p. address_payload p \<and> (w = mainPrefix @ p \<or> w = testPrefix @ p)"
    using CleanWallet_cases [OF assms(2)]
  proof (elim disjE exE conjE)
    fix t c assume "decode w t" "w = network_prefix t @ c"
    then show ?thesis using bech32_lower [OF assms(1), of t c t] by (auto simp: network_prefix_def)
  next
    fix t c assume "extractAddressPayload c \<noteq> []" "w = network_prefix t @ extractAddressPayload c"
    then show ?thesis using extract_payload [of c] by (auto simp: network_prefix_def)
  qed
  then obtain p where p: "address_payload p" "w = mainPrefix @ p \<or> w = testPrefix @ p" by blast
  have "extractAddressPayload p = p" using p(1) by (simp add: address_payload_def extract_all)
  moreover have "w \<noteq> []" "p \<noteq> []" using p by (auto simp: address_payload_def)
  ultimately have "CleanWallet decode w = Inr w"
    using p(2) clean_text [OF p(1), of mainPrefix] clean_text [OF p(1), of testPrefix] prefixes_differ [of p]
    by (elim disjE) (simp_all add: CleanWallet_def Let_def)
  with form show ?thesis by blast
qed

text \<open>
  C27: a wallet that was accepted is the prefix of one of the two networks followed by lower-case
  letters and digits, at least one, and cleaning it again leaves it as it is. This holds whatever
  surrounded the address, if the node's decoder accepts bech32 text only, which may be in upper case but not
  in both.
\<close>

theorem CleanWallet_canonical:
  assumes "bech32_text decode" and "CleanWallet decode inp = Inr w"
  shows "(\<exists>p. address_payload p \<and> (w = mainPrefix @ p \<or> w = testPrefix @ p))
    \<and> CleanWallet decode w = Inr w"
  using assms by (rule CleanWallet_canonical_holds)

text \<open>
  An address counts for the test network only if the text names that network; the last attempt
  of the code, a bare address under the test prefix, cannot succeed, and a bare address is always
  taken for one of the main network, whatever the decoder says about it.
\<close>

theorem testnet_needs_prefix:
  assumes "bech32_text decode" and "address_payload p"
  shows "CleanWallet decode p = Inr (mainPrefix @ p)
    \<and> (CleanWallet decode inp = Inr (testPrefix @ p) \<longrightarrow> prefix testPrefix (trim_space inp))"
proof -
  have p: "p \<noteq> []" "list_all payload_char p" using assms(2) by (simp_all add: address_payload_def)
  have "CleanWallet decode p = Inr (mainPrefix @ p)"
    using clean_text [OF assms(2), of "[]"] no_colon_prefix [OF p(2)] p extract_all [OF p(2)]
    by (simp add: CleanWallet_def Let_def)
  moreover have "prefix testPrefix (trim_space inp)" if "CleanWallet decode inp = Inr (testPrefix @ p)"
  proof -
    let ?c = "cut_separator (trim_space inp)"
    have "\<not> decode (testPrefix @ ?c) True" if "extractAddressPayload ?c = []"
    proof
      assume "decode (testPrefix @ ?c) True"
      then have "address_payload ?c" using bech32_lower [OF assms(1), of True ?c True] by (simp add: network_prefix_def)
      then show False using that by (simp add: address_payload_def extract_all)
    qed
    then have "prefix testPrefix ?c"
      using that prefixes_differ
      by (auto simp: CleanWallet_def wallet_error_def Let_def mainPrefix_def testPrefix_def split: if_splits)
    moreover have "prefix ?c (trim_space inp)" by (simp add: cut_separator_def takeWhile_is_prefix)
    ultimately show ?thesis by (rule prefix_order.trans)
  qed
  ultimately show ?thesis by blast
qed

definition sample_decoder :: "string \<Rightarrow> bool \<Rightarrow> bool" where
  "sample_decoder w test \<longleftrightarrow> map lower_char w = network_prefix test @ ''qq7''
     \<and> (map lower_char w = w \<or> map upper_char w = w)"

lemma sample_decoder_ok: "bech32_text sample_decoder"
proof -
  have "address_payload ''qq7''" by code_simp
  then show ?thesis by (auto simp: bech32_text_def sample_decoder_def)
qed

theorem CleanWallet_canonical_witness:
  "sample_decoder ''CRYPTIX:QQ7'' False \<and> CleanWallet sample_decoder '' cryptix:qq7,rig '' = Inr ''cryptix:qq7''
   \<and> CleanWallet sample_decoder ''cryptix:qq7'' = Inr ''cryptix:qq7''"
proof -
  have "CleanWallet sample_decoder '' cryptix:qq7,rig '' = Inr ''cryptix:qq7''" by code_simp
  moreover have "sample_decoder ''CRYPTIX:QQ7'' False" by code_simp
  ultimately show ?thesis using CleanWallet_canonical [OF sample_decoder_ok] by blast
qed

theorem testnet_needs_prefix_witness:
  "sample_decoder ''cryptixtest:qq7'' True \<and> CleanWallet sample_decoder ''qq7'' = Inr ''cryptix:qq7''
   \<and> CleanWallet sample_decoder ''cryptixtest:qq7 x'' = Inr (testPrefix @ ''qq7'')
   \<and> prefix testPrefix (trim_space ''cryptixtest:qq7 x'')"
proof -
  have p: "address_payload ''qq7''" by code_simp
  have t: "CleanWallet sample_decoder ''cryptixtest:qq7 x'' = Inr (testPrefix @ ''qq7'')" by code_simp
  have "sample_decoder ''cryptixtest:qq7'' True" by code_simp
  then show ?thesis
    using testnet_needs_prefix [OF sample_decoder_ok p, of "''cryptixtest:qq7 x''"] t
    by (simp add: mainPrefix_def)
qed

subsection \<open>Wallet and worker\<close>

text \<open>
  C28: an identity of a clean wallet, a dot and a worker's name is split into exactly the wallet and the name
  without the white space around it, also when the name contains dots; a wallet alone, or with a blank
  name, gets the name \<^verbatim>\<open>anonymous\<close>. The node's decoder is assumed to accept bech32 text only.
\<close>

theorem identity_roundtrip:
  assumes "bech32_text decode" and "CleanWallet decode inp = Inr wallet"
  shows "ParseAuthorizeIdentity decode (wallet @ ''.'' @ worker)
      = Inr (wallet, if trim_space worker = [] then AnonymousWorkerName else trim_space worker)
    \<and> ParseAuthorizeIdentity decode wallet = Inr (wallet, AnonymousWorkerName)"
proof -
  have c: "CleanWallet decode wallet = Inr wallet" using CleanWallet_canonical_holds assms(1,2) by blast
  obtain p where "address_payload p" "wallet = mainPrefix @ p \<or> wallet = testPrefix @ p"
    using CleanWallet_canonical_holds assms(1,2) by blast
  moreover have "\<not> payload_char (CHR ''.'')" by code_simp
  ultimately have dot: "CHR ''.'' \<notin> set wallet"
    by (auto simp: address_payload_def list_all_iff mainPrefix_def testPrefix_def)
  have s: "split2 (CHR ''.'') (wallet @ ''.'' @ worker) = (wallet, Some worker)"
    using split2_sep [OF dot, of worker] by simp
  show ?thesis
    using s split2_no_sep [OF dot] c by (simp add: ParseAuthorizeIdentity_def)
qed

theorem identity_roundtrip_witness:
  "ParseAuthorizeIdentity sample_decoder ''cryptix:qq7. rig.1'' = Inr (''cryptix:qq7'', ''rig.1'')"
proof -
  have "CleanWallet sample_decoder ''qq7'' = Inr ''cryptix:qq7''" by code_simp
  moreover have "trim_space '' rig.1'' = ''rig.1''" by code_simp
  ultimately show ?thesis
    using identity_roundtrip [OF sample_decoder_ok, of "''qq7''" "''cryptix:qq7''" "'' rig.1''"] by simp
qed

lemma identity_named:
  assumes "ParseAuthorizeIdentity decode identity = Inr (wallet, worker)"
  shows "worker \<noteq> []" and "\<exists>inp. CleanWallet decode inp = Inr wallet"
  using assms
  by (auto simp: ParseAuthorizeIdentity_def AnonymousWorkerName_def Let_def
      split: prod.splits option.splits sum.splits if_splits)

lemma CleanWallet_nonempty:
  assumes "bech32_text decode" and "CleanWallet decode inp = Inr w"
  shows "w \<noteq> []"
  using CleanWallet_canonical_holds [OF assms] by (auto simp: mainPrefix_def testPrefix_def)

subsection \<open>The handshake\<close>

lemma SendExtranonce_sent:
  "\<exists>ws. sent (SendExtranonce ctx) = sent ctx @ ws
     \<and> set ws \<subseteq> {WEvent (NewEvent [] ''set_extranonce'' [AStr (Extranonce ctx)])}
   \<and> same_client ctx (SendExtranonce ctx)"
proof -
  obtain r ctx' where s: "Send (NewEvent [] ''set_extranonce'' [AStr (Extranonce ctx)]) ctx = (r, ctx')"
    by fastforce
  show ?thesis using snd.out_grows [OF s] snd.out_client [OF s] by (auto simp: SendExtranonce_def s)
qed

text \<open>
  Authorization without an error gives the connection a wallet and a worker that are not
  empty, answers \<^verbatim>\<open>true\<close> under the identifier of the request, and sends nothing else than the
  extranonce, which it does only if the client has one; nothing else about the connection changes.
\<close>

theorem HandleAuthorize_success:
  assumes "bech32_text decode" and "HandleAuthorize decode event ctx = (None, ctx')"
  shows "WalletAddr ctx' \<noteq> [] \<and> WorkerName ctx' \<noteq> [] \<and> \<not> disconnecting ctx
    \<and> (\<exists>ws. sent ctx' = sent ctx @ WResponse (NewResponse event (ABool True) None) # ws
         \<and> set ws \<subseteq> (if Extranonce ctx = [] then {}
             else {WEvent (NewEvent [] ''set_extranonce'' [AStr (Extranonce ctx)])}))
    \<and> same_client (ctx\<lparr>WalletAddr := WalletAddr ctx', WorkerName := WorkerName ctx'\<rparr>) ctx'"
proof -
  let ?m = "NewResponse event (ABool True) None"
  from assms(2) obtain identity where id: "\<exists>ps. Params event = AStr identity # ps"
    by (auto simp: HandleAuthorize_def split: list.splits go_any.splits)
  from assms(2) id obtain wallet worker where w: "ParseAuthorizeIdentity decode identity = Inr (wallet, worker)"
    by (auto simp: HandleAuthorize_def split: sum.splits)
  let ?c = "ctx\<lparr>WalletAddr := wallet, WorkerName := worker\<rparr>"
  from assms(2) id w obtain ctx1 where r: "Reply ?m ?c = (None, ctx1)"
    and c': "ctx' = (if Extranonce ctx1 \<noteq> [] then SendExtranonce ctx1 else ctx1)"
    by (auto simp: HandleAuthorize_def Let_def split: prod.splits option.splits)
  note r1 = rep.out_client [OF r] rep.out_sent [OF r] rep.out_connected [OF r]
  have c1: "same_client ctx1 ctx'" using SendExtranonce_sent [of ctx1] c' by auto
  have x: "Extranonce ctx1 = Extranonce ctx" using same_clientD(10) [OF r1(1)] by simp
  have all: "same_client ?c ctx'" using r1(1) c1 by (rule same_client_trans)
  have named: "wallet \<noteq> []" "worker \<noteq> []"
    using identity_named [OF w] CleanWallet_nonempty [OF assms(1)] by blast+
  have "WalletAddr ctx' = wallet" "WorkerName ctx' = worker"
    using same_clientD(2,3) [OF all] by simp_all
  moreover have "\<exists>ws. sent ctx' = sent ctx @ WResponse ?m # ws
         \<and> set ws \<subseteq> (if Extranonce ctx = [] then {}
             else {WEvent (NewEvent [] ''set_extranonce'' [AStr (Extranonce ctx)])})"
    using SendExtranonce_sent [of ctx1] r1(2) c' x by auto
  ultimately show ?thesis using named all r1(3) by simp
qed

theorem HandleAuthorize_success_witness:
  "\<exists>ctx'. HandleAuthorize sample_decoder (NewEvent ''1'' ''mining.authorize'' [AStr ''qq7.rig''])
       (sample_client\<lparr>net := []\<rparr>) = (None, ctx')
     \<and> WalletAddr ctx' \<noteq> [] \<and> WorkerName ctx' \<noteq> []"
proof -
  have p: "ParseAuthorizeIdentity sample_decoder ''qq7.rig'' = Inr (''cryptix:qq7'', ''rig'')" by code_simp
  have "\<exists>ctx'. HandleAuthorize sample_decoder (NewEvent ''1'' ''mining.authorize'' [AStr ''qq7.rig''])
      (sample_client\<lparr>net := []\<rparr>) = (None, ctx')"
    by (simp add: HandleAuthorize_def NewEvent_def p Reply_def response_ok_def NewResponse_def
        writeWithBackoff_def numeral_3_eq_3 write_data_def checkDisconnect_def Let_def sample_client_def)
  then show ?thesis using HandleAuthorize_success [OF sample_decoder_ok] by blast
qed

end
