(* ===== verification/Sv2HandlerLemmas.thy ===== *)
theory Sv2HandlerLemmas
  imports Sv2Handler VarDiffLemmas WalletLemmas SubmitProps
begin

unbundle bit_operations_syntax

text \<open>
  The Stratum V2 handler: one invariant for everything a connection works on, preserved by every
  frame, so that the loop always returns with an error and a closed connection and never panics;
  what a submitted share is answered; which frames may change the statistics; how channel numbers
  are handed out.
\<close>

subsection \<open>Writing frames\<close>

lemma writeSV2Frame_client: "writeSV2Frame ext mt p ctx = (r, ctx') \<Longrightarrow> same_client ctx ctx'"
  using raw.out_client by (fastforce simp: writeSV2Frame_def split: sum.splits)

lemma write_or_return_rule:
  assumes "\<And>ctx. writeSV2Frame ext mt p (conn st) = (None, ctx) \<Longrightarrow> same_client (conn st) ctx \<Longrightarrow>
      Q (k (st\<lparr>conn := ctx\<rparr>))"
    and "\<And>err ctx. writeSV2Frame ext mt p (conn st) = (Some err, ctx) \<Longrightarrow> same_client (conn st) ctx \<Longrightarrow>
      Q (return err (st\<lparr>conn := ctx\<rparr>))"
  shows "Q (write_or_return ext mt p st k)"
proof -
  obtain r ctx where w: "writeSV2Frame ext mt p (conn st) = (r, ctx)" by fastforce
  show ?thesis
    using assms(1) [of ctx] assms(2) [of _ ctx] writeSV2Frame_client [OF w]
    by (cases r) (simp_all add: write_or_return_def w)
qed

subsection \<open>The invariant\<close>

definition sv2_inv :: "'tx sv2_state \<Rightarrow> bool" where
  "sv2_inv st \<longleftrightarrow> mining_ok (State (conn st)) \<and> diff_ok (sv2MinShareDiff (sv2h st))
     \<and> books_ok (shares st) \<and> windows_ok (shares st) \<and> histories_ok (shares st)
     \<and> (IsSV2 (conn st) \<longrightarrow> SV2ChannelID (conn st) \<noteq> 0)"

text \<open>A step that ends well: it does not panic and keeps the invariant.\<close>

definition fine :: "'tx sv2_result \<Rightarrow> bool" where
  "fine res \<longleftrightarrow> (\<exists>r st. res = Some (r, st) \<and> sv2_inv st)"

lemma fine_simps [simp]: "fine (go_on st) = sv2_inv st" "fine (return err st) = sv2_inv st"
  by (simp_all add: fine_def go_on_def return_def)

lemma sv2_inv_conn: "sv2_inv st \<Longrightarrow> same_client (conn st) ctx \<Longrightarrow> sv2_inv (st\<lparr>conn := ctx\<rparr>)"
  by (simp add: sv2_inv_def IsSV2_def SV2ChannelID_def handler)

lemma sv2_inv_flag [simp]:
  "sv2_inv (st\<lparr>setupComplete := b\<rparr>) = sv2_inv st"
  "sv2_inv (st\<lparr>conn := (conn st)\<lparr>RemoteApp := app\<rparr>\<rparr>) = sv2_inv st"
  by (simp_all add: sv2_inv_def IsSV2_def SV2ChannelID_def)

lemma fine_write:
  assumes "sv2_inv st" and "\<And>st'. sv2_inv st' \<Longrightarrow> fine (k st')"
  shows "fine (write_or_return ext mt p st k)"
  by (rule write_or_return_rule) (simp_all add: assms sv2_inv_conn)

lemma inv_write_ignoring: "sv2_inv st \<Longrightarrow> sv2_inv (write_ignoring ext mt p st)"
  unfolding write_ignoring_def
  by (rule sv2_inv_conn, assumption, rule writeSV2Frame_client, rule prod.collapse [symmetric])

text \<open>The operations on the statistics keep what the invariant says of them.\<close>

lemma windows_ok_frame [simp]:
  "windows_ok (record_prom ops sh) = windows_ok sh" "windows_ok (upd_overall f sh) = windows_ok sh"
  by (simp_all add: windows_ok_def)

lemma histories_ok_frame [simp]:
  "histories_ok (record_prom ops sh) = histories_ok sh" "histories_ok (upd_stats r f sh) = histories_ok sh"
  "histories_ok (upd_overall f sh) = histories_ok sh"
  by (simp_all add: histories_ok_def hist_def)

lemma windows_ok_upd:
  "windows_ok sh \<Longrightarrow> (\<And>ws. VarDiffWindow ws \<le> 6 \<Longrightarrow> VarDiffWindow (f ws) \<le> 6) \<Longrightarrow> windows_ok (upd_stats r f sh)"
  by (simp add: windows_ok_def)

lemma getCreateStats_windows:
  assumes "windows_ok sh" and "getCreateStats now ctx sh = (r, sh')"
  shows "windows_ok sh'"
  using assms by (auto simp: getCreateStats_def windows_ok_def newWorkStats_def Let_def split: option.splits if_splits)

lemma getCreateStats_inv:
  assumes "books_ok sh \<and> windows_ok sh \<and> histories_ok sh" and "getCreateStats now ctx sh = (r, sh')"
  shows "books_ok sh' \<and> windows_ok sh' \<and> histories_ok sh' \<and> r < nextRef sh'"
  using assms getCreateStats_books getCreateStats_windows getCreateStats_frame(5) [OF assms(2)]
  by (simp add: histories_ok_def hist_def) blast

lemma setClientVardiff_inv:
  assumes "books_ok sh \<and> windows_ok sh \<and> histories_ok sh"
  shows "books_ok (snd (setClientVardiff now ctx d sh)) \<and> windows_ok (snd (setClientVardiff now ctx d sh))
    \<and> histories_ok (snd (setClientVardiff now ctx d sh))"
proof -
  obtain r sh1 where g: "getCreateStats now ctx sh = (r, sh1)" by fastforce
  have "books_ok (upd_stats r (\<lambda>ws. startVarDiff now (snd (updateVarDiff d' ws))) sh1) = books_ok sh1" for d'
    by (rule books_ok_keep) (simp_all add: startVarDiff_def updateVarDiff_def)
  then show ?thesis
    using getCreateStats_inv [OF assms g]
    by (auto simp: setClientVardiff_def g Let_def startVarDiff_def updateVarDiff_def intro: windows_ok_upd)
qed

lemma processSubmit_inv:
  assumes "books_ok sh \<and> windows_ok sh \<and> histories_ok sh" and "mining_ok (State ctx)"
  shows "\<exists>st e sh'. processSubmit now nd ctx si sh = Some ((st, e), sh')
    \<and> books_ok sh' \<and> windows_ok sh' \<and> histories_ok sh'"
proof -
  have "submit_verdict t s nd ctx si \<noteq> None" for t s
    using assms(2) by (auto simp: submit_verdict_def mining_ok_def Let_def split: sum.splits option.splits)
  then have "processSubmit now nd ctx si sh \<noteq> None"
    using processSubmit_verdict_holds [of now nd ctx si sh] by (metis option.map_disc_iff)
  then obtain st e sh' where p: "processSubmit now nd ctx si sh = Some ((st, e), sh')" by auto
  obtain r sh1 where g: "getCreateStats now ctx sh = (r, sh1)" by fastforce
  obtain c sh2 where k: "checkStales ctx si sh1 = (c, sh2)" by fastforce
  have "windows_ok sh2"
    using getCreateStats_windows [OF _ g] assms(1) checkStales_frame(2) [OF k] by (simp add: windows_ok_def)
  moreover obtain ops sh3 where "sh' = record_prom ops sh3"
    "if e = None then booked now r st sh2 sh3 else sh3 = sh2 \<and> st = SubmitStatusBad"
    using processSubmit_form [OF p g k] by blast
  ultimately have "windows_ok sh'"
    by (auto simp: booked_def addStale_def addInvalid_def addBlock_def creditShare_def intro!: windows_ok_upd
        split: if_splits SubmitStatus.splits)
  then show ?thesis
    using p processSubmit_counted_holds [OF _ p] processSubmit_histories [OF p] assms(1) by blast
qed

lemma HandleSubmitSV2_inv:
  assumes "books_ok sh \<and> windows_ok sh \<and> histories_ok sh" and "mining_ok (State ctx)"
  shows "\<exists>st e sh'. HandleSubmitSV2 now nd ctx job nonce sh = Some ((st, e), sh')
    \<and> books_ok sh' \<and> windows_ok sh' \<and> histories_ok sh'"
proof (cases "GetJob (State ctx) (uint job)")
  case (Some b)
  then show ?thesis using processSubmit_inv [OF assms] by (simp add: HandleSubmitSV2_def)
next
  case None
  let ?sh = "record_prom (RecordWorkerError (WalletAddr ctx) ErrMissingJob) sh"
  obtain r sh1 where g: "getCreateStats now ctx ?sh = (r, sh1)" by fastforce
  have "books_ok sh1 \<and> windows_ok sh1 \<and> histories_ok sh1 \<and> r < nextRef sh1"
    by (rule getCreateStats_inv [OF _ g]) (use assms in simp)
  then show ?thesis
    using None stale.keeps_books
    by (auto simp: HandleSubmitSV2_def staleSubmit_def g addStale_def intro!: windows_ok_upd)
qed

subsection \<open>Every frame is handled\<close>

lemma sv2_setup_fine: "sv2_inv st \<Longrightarrow> fine (sv2_setup payload st)"
  by (auto simp: sv2_setup_def Let_def inv_write_ignoring split: sum.split intro!: fine_write)

lemma nextChannel_nonzero: "fst (nextChannel h) \<noteq> 0"
  by (simp add: nextChannel_def Let_def)

lemma sv2_open_channel_fine:
  assumes "sv2_inv st"
  shows "fine (sv2_open_channel now rid wallet worker st)"
proof -
  let ?ctx = "(conn st)\<lparr>WalletAddr := wallet, WorkerName := worker\<rparr>"
  let ?d = "sv2MinShareDiff (sv2h st)"
  have i: "mining_ok (State (conn st))" "diff_ok ?d"
    "books_ok (shares st) \<and> windows_ok (shares st) \<and> histories_ok (shares st)"
    using assms by (auto simp: sv2_inv_def)
  obtain ch h where ch: "nextChannel (sv2h st) = (ch, h)" by fastforce
  then have h: "sv2MinShareDiff h = ?d" "ch \<noteq> 0"
    using nextChannel_nonzero [of "sv2h st"] by (auto simp: nextChannel_def Let_def)
  obtain b ms where ms: "InitializeIfNeeded (RemoteApp (conn st)) ?d (State (conn st)) = Some (b, ms)" "mining_ok ms"
    using InitializeIfNeeded_ok [OF i(1,2), of "RemoteApp (conn st)"] by blast
  define ctx where "ctx = EnableSV2 ch ?ctx\<lparr>State := ms\<rparr>"
  have ctx: "mining_ok (State ctx)" "IsSV2 ctx" "SV2ChannelID ctx = ch"
    using ms(2) by (simp_all add: ctx_def EnableSV2_def IsSV2_def SV2ChannelID_def)
  obtain prev sh where sh: "setClientVardiff now ctx ?d (shares st) = (prev, sh)" by fastforce
  then have sh_ok: "books_ok sh \<and> windows_ok sh \<and> histories_ok sh"
    using setClientVardiff_inv [OF i(3), of now ctx ?d] by simp
  obtain diff ctx2 where cd: "channel_diff ?d ctx = Some (diff, ctx2)" "diff \<noteq> NaN" "mining_ok (State ctx2)"
    "IsSV2 ctx2" "SV2ChannelID ctx2 = ch"
  proof (cases "GetStratumDiffValue (State ctx) \<le> 0")
    case True
    obtain old ms' where "SetStratumDiff ?d (State ctx) = Some (old, ms')" "mining_ok ms'"
      using SetStratumDiff_ok [OF i(2)] by blast
    with True that [of ?d "ctx\<lparr>State := ms'\<rparr>"] show thesis
      using i(2) ctx by (simp add: channel_diff_def diff_ok_def IsSV2_def SV2ChannelID_def)
  next
    case False
    with that [of "GetStratumDiffValue (State ctx)" ctx] show thesis
      using ctx GetStratumDiffValue_ok [OF ctx(1)] by (simp add: channel_diff_def)
  qed
  obtain target where target: "diffToSV2TargetLE diff = Some target"
    using diffToSV2TargetLE_value_holds [of diff] cd(2) by (cases "diffToSV2TargetLE diff") auto
  let ?st = "st\<lparr>sv2h := h, shares := sh, conn := ctx2\<rparr>"
  have inv: "sv2_inv ?st" using cd h i sh_ok by (simp add: sv2_inv_def)
  have cont: "fine (go_on (st'\<lparr>shares := snd (getCreateStats now (conn st') (shares st'))\<rparr>))"
    if "sv2_inv st'" for st' :: "'a sv2_state"
  proof -
    obtain r s where g: "getCreateStats now (conn st') (shares st') = (r, s)" by fastforce
    show ?thesis using that getCreateStats_inv [OF _ g] by (simp add: sv2_inv_def g)
  qed
  have "fine (write_or_return sv2ExtStandard sv2MsgOpenMiningChannelSuccess
      (encodeSV2OpenChannelSuccessPayload rid ch target []) ?st
      (\<lambda>st. go_on (st\<lparr>shares := snd (getCreateStats now (conn st) (shares st))\<rparr>)))"
    by (rule fine_write [OF inv cont])
  moreover have "RemoteApp (EnableSV2 ch ?ctx) = RemoteApp (conn st)"
    "State (EnableSV2 ch ?ctx) = State (conn st)" by (simp_all add: EnableSV2_def)
  ultimately show ?thesis
    using ms(1) sh cd(1) target h(1) by (simp add: sv2_open_channel_def ch Let_def ctx_def)
qed

lemma sv2_open_fine: "sv2_inv st \<Longrightarrow> fine (sv2_open decode now payload st)"
proof -
  assume inv: "sv2_inv st"
  have "sv2_inv (st\<lparr>shares := record_prom ops (shares st)\<rparr>)" for ops
    using inv by (simp add: sv2_inv_def)
  with inv show ?thesis
    by (auto simp: sv2_open_def inv_write_ignoring sv2_open_channel_fine split: sum.split intro!: fine_write)
qed

lemma sv2_submit_fine: "sv2_inv st \<Longrightarrow> fine (sv2_submit now nd payload st)"
proof -
  assume inv: "sv2_inv st"
  show ?thesis
  proof (cases "parseSV2SubmitSharePayload payload")
    case (Inl a)
    then show ?thesis using inv by (simp add: sv2_submit_def inv_write_ignoring)
  next
    case (Inr p)
    obtain ch sq job nonce ntime where p: "p = (ch, sq, job, nonce, ntime)" by (cases p)
    obtain s e sh where "HandleSubmitSV2 now nd (conn st) job (packNonce ntime nonce) (shares st) = Some ((s, e), sh)"
      and "books_ok sh \<and> windows_ok sh \<and> histories_ok sh"
      using HandleSubmitSV2_inv [of "shares st" "conn st" now nd job "packNonce ntime nonce"] inv
      by (auto simp: sv2_inv_def)
    then show ?thesis
      using inv by (auto simp: sv2_submit_def Inr p Let_def sv2_inv_def intro!: fine_write)
  qed
qed

lemma sv2_step_fine: "sv2_inv st \<Longrightarrow> fine (sv2_step decode now nd frame st)"
  by (simp add: sv2_step_def sv2_setup_fine sv2_open_fine sv2_submit_fine)

lemma hang_up_closed: "disconnecting (conn (hang_up st))" "shares (hang_up st) = shares st"
  by (auto simp: hang_up_def Disconnect_def Let_def split: option.split bool.split)

text \<open>The loop ends for every stream of bytes and every behaviour of the node. What Prometheus refuses is
  not looked at yet.\<close>

lemma HandleBinaryClient_ends:
  assumes "sv2_inv st"
  shows "\<exists>err st'. HandleBinaryClient decode world k rd st = Some (err, st')
    \<and> disconnecting (conn st') \<and> books_ok (shares st') \<and> histories_ok (shares st')"
  using assms
proof (induction decode world k rd st rule: HandleBinaryClient.induct)
  case (1 decode world k rd st)
  show ?case
  proof (cases "readSV2Frame rd")
    case (Inl err)
    then show ?thesis
      using "1.prems" by (subst HandleBinaryClient.simps) (simp add: hang_up_closed sv2_inv_def)
  next
    case (Inr p)
    obtain frame rd' where p: "p = (frame, rd')" by (cases p)
    obtain r st1 where s: "sv2_step decode (fst (world k)) (snd (world k)) frame st = Some (r, st1)" "sv2_inv st1"
      using sv2_step_fine [OF "1.prems"] unfolding fine_def by blast
    show ?thesis
    proof (cases r)
      case (Some err)
      then show ?thesis
        using s Inr p by (subst HandleBinaryClient.simps) (simp add: hang_up_closed sv2_inv_def)
    next
      case None
      with s have "sv2_step decode (fst (world k)) (snd (world k)) frame st = Some (None, st1)" by simp
      from "1.IH" [OF Inr p [symmetric] this refl refl s(2)] show ?thesis
        using s(1) None Inr p by (subst HandleBinaryClient.simps) simp
    qed
  qed
qed

text \<open>The state of a new connection.\<close>

definition sample_sv2 :: "unit sv2_state" where
  "sample_sv2 = \<lparr>sv2h = newSV2Handler (Fin 1) False, shares = newShareHandler, conn = sample_miner,
     setupComplete = False\<rparr>"

lemma sample_sv2_inv: "sv2_inv sample_sv2"
  by (simp add: sv2_inv_def sample_sv2_def newSV2Handler_def mining_ok_def diff_ok_def sample_miner_def
      sample_mining_def books_ok_new one_f64_def IsSV2_def)
    (simp add: windows_ok_def newShareHandler_def newWorkStats_def histories_ok_def history_ok_new
      hist_def)

subsection \<open>What a share is answered\<close>

lemma writeSV2Frame_sent:
  assumes "writeSV2Frame ext mt p ctx = (None, ctx')"
  shows "\<exists>bs. encodeSV2Frame ext mt p = Inr bs \<and> sent ctx' = sent ctx @ [WRaw bs]"
  using assms raw.out_sent by (fastforce simp: writeSV2Frame_def split: sum.splits)

text \<open>A step that goes on after a write has written exactly that frame.\<close>

lemma write_or_return_on:
  assumes "write_or_return ext mt p st go_on = Some (None, st')"
  shows "shares st' = shares st \<and> same_client (conn st) (conn st') \<and>
    (\<exists>bs. encodeSV2Frame ext mt p = Inr bs \<and> sent (conn st') = sent (conn st) @ [WRaw bs])"
proof (cases "writeSV2Frame ext mt p (conn st)")
  case (Pair r ctx)
  then show ?thesis
    using assms writeSV2Frame_sent [of ext mt p "conn st" ctx] writeSV2Frame_client [OF Pair]
    by (cases r) (auto simp: write_or_return_def go_on_def return_def)
qed

text \<open>
  C20: a well-formed share is answered with exactly one frame that repeats its channel and sequence
  number: a success if and only if the share handler accepts it, and otherwise an error with the
  text of the status. A share for a channel that is not the connection's own is refused without
  touching the statistics; the nonce that is judged has the time in its upper half.
\<close>

theorem submit_answered:
  assumes "parseSV2SubmitSharePayload payload = Inr (ch, sq, job, nonce, ntime)"
    and "sv2_submit now nd payload st = Some (None, st')"
  shows "\<exists>mt text bs. sent (conn st') = sent (conn st) @ [WRaw bs]
    \<and> encodeSV2Frame sv2ExtChannel mt text = Inr bs
    \<and> (if IsSV2 (conn st) \<and> ch = SV2ChannelID (conn st)
       then \<exists>status err. HandleSubmitSV2 now nd (conn st) job (packNonce ntime nonce) (shares st)
              = Some ((status, err), shares st')
            \<and> (if status = SubmitStatusAccepted \<and> err = None
               then mt = sv2MsgSubmitSharesSuccess \<and> text = encodeSV2SubmitSuccessPayload ch sq
               else mt = sv2MsgSubmitSharesError \<and> text = encodeSV2SubmitErrorPayload ch sq
                 (sv2SubmitStatusCode (if err = None then status else SubmitStatusBad)))
       else mt = sv2MsgSubmitSharesError \<and> shares st' = shares st
            \<and> text = encodeSV2SubmitErrorPayload ch sq ''wrong channel'')"
proof (cases "IsSV2 (conn st) \<and> ch = SV2ChannelID (conn st)")
  case False
  then have "write_or_return sv2ExtChannel sv2MsgSubmitSharesError
      (encodeSV2SubmitErrorPayload ch sq ''wrong channel'') st go_on = Some (None, st')"
    using assms by (auto simp: sv2_submit_def)
  from write_or_return_on [OF this] False show ?thesis by auto
next
  case True
  then obtain status err sh where h: "HandleSubmitSV2 now nd (conn st) job (packNonce ntime nonce) (shares st)
      = Some ((status, err), sh)"
    using assms by (auto simp: sv2_submit_def split: option.splits)
  let ?ok = "status = SubmitStatusAccepted \<and> err = None"
  have "write_or_return sv2ExtChannel
      (if ?ok then sv2MsgSubmitSharesSuccess else sv2MsgSubmitSharesError)
      (if ?ok then encodeSV2SubmitSuccessPayload ch sq
       else encodeSV2SubmitErrorPayload ch sq (sv2SubmitStatusCode (if err = None then status else SubmitStatusBad)))
      (st\<lparr>shares := sh\<rparr>) go_on = Some (None, st')"
    using assms True h by (auto simp: sv2_submit_def Let_def split: if_splits)
  from write_or_return_on [OF this] h True show ?thesis by (auto split: if_splits)
qed

text \<open>A connection with channel 5 that submits the share with nonce 100 in channel 5.\<close>

definition sample_open :: "unit sv2_state" where
  "sample_open = sample_sv2\<lparr>conn := EnableSV2 5 sample_miner\<rparr>"

lemma write_first:
  assumes "length p \<le> 0xFFFFFF" and "\<not> disconnecting (conn st)" and "net (conn st) = []"
  shows "\<exists>st'. write_or_return ext mt p st go_on = Some (None, st')"
proof -
  obtain bs where "encodeSV2Frame ext mt p = Inr bs" using assms(1) by (simp add: encodeSV2Frame_def)
  then show ?thesis
    using assms(2,3) by (simp add: write_or_return_def writeSV2Frame_def WriteRaw_def writeWithBackoff_def
        numeral_3_eq_3 write_data_def checkDisconnect_def Let_def go_on_def)
qed

theorem submit_answered_witness:
  "\<exists>st' bs. sv2_submit 7 sample_node (submit_layout 5 9 1 100 0 0) sample_open = Some (None, st')
    \<and> encodeSV2Frame sv2ExtChannel sv2MsgSubmitSharesSuccess (encodeSV2SubmitSuccessPayload 5 9) = Inr bs
    \<and> sent (conn st') = [WRaw bs]"
proof -
  let ?p = "submit_layout 5 9 1 100 0 0"
  let ?ctx = "EnableSV2 5 sample_miner"
  have p: "parseSV2SubmitSharePayload ?p = Inr (5, 9, 1, 100, 0)"
    using parse_submit_layout [of 5 9 1 100 0 0 "[]"] by simp
  have ctx: "IsSV2 ?ctx" "SV2ChannelID ?ctx = 5" "conn sample_open = ?ctx" "shares sample_open = newShareHandler"
    by (simp_all add: EnableSV2_def IsSV2_def SV2ChannelID_def sample_open_def sample_sv2_def)
  have n: "packNonce 0 100 = 100" by (simp add: packNonce_def)
  have share: "sample_share = \<lparr>block = sample_block, jobID = 1, noncestr = fmt_hex 16 100, nonceVal = 100\<rparr>"
    unfolding sample_share_def by simp code_simp
  have job: "GetJob sample_mining 1 = Some sample_block"
    by (simp add: GetJob_def maxjobs_def go_rem_nonneg sample_mining_def)
  have "submit_verdict 0 {} sample_node ?ctx sample_share = Some (SubmitStatusAccepted, False)"
    by (simp add: submit_verdict_def sample_node_def EnableSV2_def sample_miner_def sample_mining_def
        sample_share_def Let_def)
  then have "map_option (\<lambda>((st, e), _). (st, e \<noteq> None))
      (processSubmit 7 sample_node ?ctx sample_share newShareHandler) = Some (SubmitStatusAccepted, False)"
    unfolding processSubmit_verdict_holds hist_new
    by (simp only: newShareHandler_def newShareHistory_def shareHandler.simps shareHistory.simps unsigned_0)
  then obtain sh where "processSubmit 7 sample_node ?ctx sample_share newShareHandler
      = Some ((SubmitStatusAccepted, None), sh)" by auto
  moreover have "State ?ctx = sample_mining" by (simp add: EnableSV2_def sample_miner_def)
  ultimately have h: "HandleSubmitSV2 7 sample_node ?ctx 1 (packNonce 0 100) newShareHandler
      = Some ((SubmitStatusAccepted, None), sh)"
    using job by (simp add: HandleSubmitSV2_def n share)
  let ?st = "sample_open\<lparr>shares := sh\<rparr>"
  have step: "sv2_submit 7 sample_node ?p sample_open = write_or_return sv2ExtChannel sv2MsgSubmitSharesSuccess
      (encodeSV2SubmitSuccessPayload 5 9) ?st go_on"
    by (simp add: sv2_submit_def p ctx h Let_def)
  have "\<exists>st'. sv2_submit 7 sample_node ?p sample_open = Some (None, st')"
    unfolding step by (rule write_first)
      (simp_all add: encodeSV2SubmitSuccessPayload_def ctx EnableSV2_def sample_miner_def Let_def putU32_def)
  then obtain st' where st': "sv2_submit 7 sample_node ?p sample_open = Some (None, st')" by blast
  have "sent (conn sample_open) = []" by (simp add: ctx EnableSV2_def sample_miner_def)
  with submit_answered [OF p st'] show ?thesis
    using st' by (simp add: ctx h) metis
qed

subsection \<open>Numbers\<close>

lemma unat_packNonce: "unat (packNonce ntime nonce) = unat ntime * 2 ^ 32 + unat nonce"
proof -
  have t: "unat ntime < 2 ^ 32" "unat nonce < 2 ^ 32"
    using unsigned_less [of ntime] unsigned_less [of nonce] by simp_all
  have disj: "packNonce ntime nonce = push_bit 32 (ucast ntime) + ucast nonce"
    unfolding packNonce_def
  proof (rule disjunctive_add [symmetric])
    fix i
    show "\<not> bit (push_bit 32 (ucast ntime :: u64)) i \<or> \<not> bit (ucast nonce :: u64) i"
      by (auto simp: bit_simps dest: bit_imp_le_length)
  qed
  have hi: "unat (push_bit 32 (ucast ntime) :: u64) = unat ntime * 2 ^ 32"
  proof -
    have "take_bit 64 (unat ntime) = unat ntime" using t(1) by (intro take_bit_nat_eq_self) simp
    then have "unat (push_bit 32 (ucast ntime) :: u64) = take_bit 64 (push_bit 32 (unat ntime))"
      by (simp add: unsigned_push_bit_eq unsigned_ucast_eq)
    then show ?thesis using t by (simp add: push_bit_eq_mult take_bit_nat_eq_self)
  qed
  have lo: "unat (ucast nonce :: u64) = unat nonce"
    using t by (simp add: unsigned_ucast_eq take_bit_nat_eq_self)
  have "unat ntime * 2 ^ 32 + unat nonce < 2 ^ 64" using t by simp
  then show ?thesis unfolding disj by (simp add: unat_word_ariths hi lo)
qed

text \<open>
  The 64-bit nonce of a share is its time in the upper and its nonce in the lower half, so
  different pairs are different nonces for the duplicate check.
\<close>

theorem packNonce_parts:
  "unat (packNonce ntime nonce) = unat ntime * 2 ^ 32 + unat nonce
   \<and> (packNonce ntime nonce = packNonce ntime' nonce') = (ntime = ntime' \<and> nonce = nonce')"
proof -
  have n: "unat nonce < 2 ^ 32" "unat nonce' < 2 ^ 32"
    using unsigned_less [of nonce] unsigned_less [of nonce'] by simp_all
  have "ntime = ntime' \<and> nonce = nonce'" if eq: "packNonce ntime nonce = packNonce ntime' nonce'"
  proof -
    have e: "unat ntime * 2 ^ 32 + unat nonce = unat ntime' * 2 ^ 32 + unat nonce'"
      using arg_cong [OF eq, of unat] by (simp add: unat_packNonce)
    have "unat nonce = unat nonce'" using arg_cong [OF e, of "\<lambda>x. x mod 2 ^ 32"] n by simp
    moreover from this have "unat ntime = unat ntime'" using e by simp
    ultimately show ?thesis by (simp add: word_unat_eq_iff)
  qed
  then show ?thesis using unat_packNonce by auto
qed

lemma nextChannel_iterate:
  "n < 2 ^ 32 \<Longrightarrow> nextChannelID (((\<lambda>h. snd (nextChannel h)) ^^ n) (newSV2Handler d strict)) = word_of_nat n"
proof (induction n)
  case 0
  then show ?case by (simp add: newSV2Handler_def)
next
  case (Suc n)
  let ?h = "((\<lambda>h. snd (nextChannel h)) ^^ n) (newSV2Handler d strict)"
  have i: "nextChannelID ?h = word_of_nat n" using Suc by simp
  have "unat (word_of_nat (Suc n) :: u32) = Suc n" using Suc.prems by (subst unat_of_nat) simp
  then have "(word_of_nat (Suc n) :: u32) \<noteq> 0" by (metis unsigned_0 nat.distinct(1))
  then have nz: "nextChannelID ?h + 1 \<noteq> 0" by (simp add: i add.commute)
  have "nextChannelID (snd (nextChannel h)) = nextChannelID h + 1" if "nextChannelID h + 1 \<noteq> 0" for h
    using that by (simp add: nextChannel_def Let_def)
  from this [OF nz] show ?case unfolding funpow.simps o_apply by (simp add: i add.commute)
qed

text \<open>
  Channel numbers are handed out as 1, 2, 3 and so on over all connections, never 0, so that two
  channels among the first \<^verbatim>\<open>2^32 - 1\<close> never share a number.
\<close>

theorem channel_numbers:
  assumes "n < 2 ^ 32 - 1"
  shows "unat (fst (nextChannel (((\<lambda>h. snd (nextChannel h)) ^^ n) (newSV2Handler d strict)))) = n + 1"
proof -
  have "fst (nextChannel h) = nextChannelID (snd (nextChannel h))" for h
    by (simp add: nextChannel_def Let_def)
  then have "fst (nextChannel (((\<lambda>h. snd (nextChannel h)) ^^ n) (newSV2Handler d strict))) = word_of_nat (Suc n)"
    using nextChannel_iterate [of "Suc n" d strict] assms by simp
  moreover have "unat (word_of_nat (Suc n) :: u32) = Suc n" using assms by (subst unat_of_nat) simp
  ultimately show ?thesis by simp
qed

theorem channel_numbers_witness:
  "unat (fst (nextChannel (((\<lambda>h. snd (nextChannel h)) ^^ 4) (newSV2Handler 0 False)))) = 4 + 1"
  by (rule channel_numbers) simp

end
