(* ===== verification/SubmitV1.thy ===== *)
theory SubmitV1
  imports Sv2HandlerLemmas
begin

text \<open>
  \<^verbatim>\<open>mining.submit\<close> of Stratum V1 from the message to the answer: the handler does not panic, keeps the
  invariants of the share handler, and answers in agreement with its books.
\<close>

lemma reply_status:
  "\<exists>r. replySubmitStatusV1 i st ctx = Reply r ctx \<and> respId r = i
     \<and> (if st = SubmitStatusAccepted then respError r = None \<and> Result r = ABool True
        else respError r \<noteq> None \<and> Result r = ANil)"
  by (cases st) (auto simp: replySubmitStatusV1_def fun_eq_iff ReplyStaleShare_def ReplyDupeShare_def
      ReplyLowDiffShare_def ReplyBadShare_def)

text \<open>The connection after an answer: the message was sent exactly when there was no error.\<close>

definition answered :: "'st StratumContext \<Rightarrow> go_any \<Rightarrow> bool \<Rightarrow> go_error option \<Rightarrow> 'st StratumContext \<Rightarrow> bool" where
  "answered ctx i positive e ctx' \<longleftrightarrow> same_client ctx ctx' \<and> (if e = None
     then \<exists>r. sent ctx' = sent ctx @ [WResponse r] \<and> respId r = i
       \<and> (if positive then respError r = None \<and> Result r = ABool True else respError r \<noteq> None \<and> Result r = ANil)
     else sent ctx' = sent ctx)"

lemma reply_answered:
  assumes "replySubmitStatusV1 i st ctx = (e, ctx')"
  shows "answered ctx i (st = SubmitStatusAccepted) e ctx'"
proof -
  obtain r where r: "replySubmitStatusV1 i st ctx = Reply r ctx" "respId r = i"
    "if st = SubmitStatusAccepted then respError r = None \<and> Result r = ABool True
     else respError r \<noteq> None \<and> Result r = ANil" using reply_status [of i st ctx] by blast
  then have a: "Reply r ctx = (e, ctx')" using assms by simp
  show ?thesis
    using r(2,3) rep.out_client [OF a] rep.out_sent [OF a]
    by (cases e) (auto simp: answered_def)
qed

lemma staleSubmit_inv:
  assumes "books_ok sh \<and> windows_ok sh \<and> histories_ok sh"
  shows "books_ok (staleSubmit now ctx sh) \<and> windows_ok (staleSubmit now ctx sh) \<and> histories_ok (staleSubmit now ctx sh)
    \<and> SharesFound (overall (staleSubmit now ctx sh)) = SharesFound (overall sh)"
proof -
  obtain r sh1 where g: "getCreateStats now ctx sh = (r, sh1)" by fastforce
  have "books_ok sh1 \<and> windows_ok sh1 \<and> histories_ok sh1 \<and> r < nextRef sh1"
    by (rule getCreateStats_inv [OF assms g])
  then show ?thesis
    using stale.keeps_books getCreateStats_frame(3) [OF g]
    by (auto simp: staleSubmit_def g addStale_def intro!: windows_ok_upd)
qed

lemma HandleSubmit_holds:
  assumes "books_ok sh \<and> windows_ok sh \<and> histories_ok sh" and "mining_ok (State ctx)"
  shows "\<exists>e ctx' sh' n. HandleSubmit now nd event ctx sh = Some (e, ctx', sh')
    \<and> (books_ok sh' \<and> windows_ok sh' \<and> histories_ok sh')
    \<and> SharesFound (overall sh') = SharesFound (overall sh) + n \<and> n \<in> {0, 1}
    \<and> answered ctx (eventId event) (n = 1) e ctx'"
proof -
  obtain ops res where v: "validateSubmit ctx event = (ops, res)" by fastforce
  let ?sh = "record_prom ops sh"
  have sh: "books_ok ?sh \<and> windows_ok ?sh \<and> histories_ok ?sh" using assms(1) by simp
  show ?thesis
  proof (cases res)
    case (Inl err)
    obtain e ctx' where r: "replySubmitStatusV1 (eventId event)
        (if err = ErrStaleShare then SubmitStatusStale else SubmitStatusBad) ctx = (e, ctx')" by fastforce
    have h: "HandleSubmit now nd event ctx sh = Some (e, ctx', if err = ErrStaleShare then staleSubmit now ctx ?sh else ?sh)"
      using r by (simp add: HandleSubmit_def v Inl Let_def split: if_splits)
    have a: "answered ctx (eventId event) (0 = (1 :: int)) e ctx'"
      using reply_answered [OF r] by (simp split: if_splits)
    show ?thesis
      unfolding h using sh staleSubmit_inv [OF sh, of now ctx]
      by (intro exI [of _ e] exI [of _ ctx'] exI [of _ "if err = ErrStaleShare then staleSubmit now ctx ?sh else ?sh"]
          exI [of _ 0] conjI a) simp_all
  next
    case (Inr si)
    show ?thesis
    proof (cases "parseV1SubmitNonce ctx (noncestr si)")
      case (Inl err)
      obtain e ctx' where r: "replySubmitStatusV1 (eventId event) SubmitStatusBad ctx = (e, ctx')" by fastforce
      have a: "answered ctx (eventId event) (0 = (1 :: int)) e ctx'" using reply_answered [OF r] by simp
      have h: "HandleSubmit now nd event ctx sh
          = Some (e, ctx', record_prom (RecordWorkerError (WalletAddr ctx) ErrBadDataFromMiner) ?sh)"
        using r by (simp add: HandleSubmit_def v Inr Inl Let_def)
      show ?thesis
        unfolding h using sh
        by (intro exI [of _ e] exI [of _ ctx'] exI [of _ "record_prom (RecordWorkerError (WalletAddr ctx) ErrBadDataFromMiner) ?sh"]
            exI [of _ 0] conjI a) simp_all
    next
      case nonce: (Inr nonce)
      let ?si = "si\<lparr>nonceVal := nonce, noncestr := fmt_hex 16 (unat nonce)\<rparr>"
      obtain st err sh' where p: "processSubmit now nd ctx ?si ?sh = Some ((st, err), sh')"
        "books_ok sh' \<and> windows_ok sh' \<and> histories_ok sh'"
        using processSubmit_inv [OF sh assms(2)] by blast
      have c: "SharesFound (overall sh') = SharesFound (overall sh) + of_bool (err = None \<and> st = SubmitStatusAccepted)"
        using processSubmit_counted_holds [OF _ p(1)] sh by simp
      show ?thesis
      proof (cases err)
        case (Some x)
        then have h: "HandleSubmit now nd event ctx sh = Some (Some x, ctx, sh')"
          by (simp add: HandleSubmit_def v Inr nonce Let_def p)
        show ?thesis
          unfolding h using p c Some
          by (intro exI [of _ "Some x"] exI [of _ ctx] exI [of _ sh'] exI [of _ 0]) (simp add: answered_def)
      next
        case None
        obtain e ctx' where r: "replySubmitStatusV1 (eventId event) st ctx = (e, ctx')" by fastforce
        have h: "HandleSubmit now nd event ctx sh = Some (e, ctx', sh')"
          using r by (simp add: HandleSubmit_def v Inr nonce Let_def p None)
        have a: "answered ctx (eventId event) (of_bool (st = SubmitStatusAccepted) = (1 :: int)) e ctx'"
          using reply_answered [OF r] by simp
        show ?thesis
          unfolding h using p c None
          by (intro exI [of _ e] exI [of _ ctx'] exI [of _ sh'] exI [of _ "of_bool (st = SubmitStatusAccepted)"] conjI a)
            simp_all
      qed
    qed
  qed
qed

subsection \<open>The answer\<close>

text \<open>The verdict on a submission by its parameters; \<open>None\<close> is an internal error.\<close>

definition v1_verdict :: "('tx, 'db) node \<Rightarrow> JsonRpcEvent \<Rightarrow> 'tx client \<Rightarrow> shareHandler \<Rightarrow> SubmitStatus option" where
  "v1_verdict nd event ctx sh = (case Params event of
     user # AStr job # nonce # rest \<Rightarrow>
       (case parse_int job of None \<Rightarrow> Some SubmitStatusBad
        | Some j \<Rightarrow> (case GetJob (State ctx) j of None \<Rightarrow> Some SubmitStatusStale
          | Some b \<Rightarrow> (case nonce of
              AStr s \<Rightarrow> (case parseV1SubmitNonce ctx (remove_first ''0x'' s) of
                 Inl _ \<Rightarrow> Some SubmitStatusBad
               | Inr n \<Rightarrow> (case submit_verdict (unat (tipBlueScore sh)) (hset (hist (workerStatsKey ctx) sh)) nd ctx
                     \<lparr>block = b, jobID = j, noncestr = fmt_hex 16 (unat n), nonceVal = n\<rparr> of
                   Some (st, internal) \<Rightarrow> if internal then None else Some st
                 | None \<Rightarrow> None))
            | _ \<Rightarrow> Some SubmitStatusBad)))
   | _ \<Rightarrow> Some SubmitStatusBad)"

text \<open>What the protocol answers to each verdict.\<close>

fun verdict_error :: "SubmitStatus \<Rightarrow> (int \<times> string) option" where
  "verdict_error SubmitStatusAccepted = None"
| "verdict_error SubmitStatusBad = Some (20, ''Unknown problem'')"
| "verdict_error SubmitStatusStale = Some (21, ''Job not found'')"
| "verdict_error SubmitStatusDuplicate = Some (22, ''Duplicate share submitted'')"
| "verdict_error SubmitStatusLowDiff = Some (23, ''Invalid difficulty'')"

definition verdict_response :: "go_any \<Rightarrow> SubmitStatus \<Rightarrow> JsonRpcResponse" where
  "verdict_response i st = (case verdict_error st of
     None \<Rightarrow> \<lparr>respId = i, Result = ABool True, respError = None\<rparr>
   | Some (code, txt) \<Rightarrow> \<lparr>respId = i, Result = ANil, respError = Some [AInt code, AStr txt, ANil]\<rparr>)"

text \<open>A connection takes a message if it is open, one of three attempts finds the lock free, and the socket
  accepts it then.\<close>

definition takes_message :: "'st StratumContext \<Rightarrow> bool" where
  "takes_message sc \<longleftrightarrow> \<not> disconnecting sc \<and>
    (case dropWhile (\<lambda>r. r = LockBusy) (take 3 (net sc @ replicate 3 WriteOk)) of
       WriteOk # _ \<Rightarrow> True | _ \<Rightarrow> False)"

lemma writeAttempts_iff:
  "fst (writeAttempts i data sc) = None \<longleftrightarrow>
    (case dropWhile (\<lambda>r. r = LockBusy) (take i (net sc @ replicate i WriteOk)) of WriteOk # _ \<Rightarrow> True | _ \<Rightarrow> False)"
proof (induction i arbitrary: sc)
  case (Suc i)
  show ?case
  proof (cases "net sc")
    case Nil
    then show ?thesis by (simp add: write_data_def checkDisconnect_def Let_def)
  next
    case (Cons r rs)
    have t: "take i (rs @ replicate (Suc i) WriteOk) = take i (rs @ replicate i WriteOk)"
      by (simp del: replicate_Suc add: min_def)
    have t: "take (Suc i) (net sc @ replicate (Suc i) WriteOk) = r # take i (rs @ replicate i WriteOk)"
      unfolding Cons append_Cons take_Suc_Cons t ..
    show ?thesis unfolding t using Suc.IH [of "sc\<lparr>net := rs\<rparr>"]
      by (cases r) (simp_all add: write_data_def checkDisconnect_def Let_def Cons)
  qed
qed simp

lemma Reply_iff: "fst (Reply r sc) = None \<longleftrightarrow> takes_message sc \<and> response_ok r"
  by (simp add: Reply_def takes_message_def writeWithBackoff_def writeAttempts_iff del: take_append)

lemma replySubmit_response: "replySubmitStatusV1 i st ctx = Reply (verdict_response i st) ctx"
  by (cases st) (auto simp: replySubmitStatusV1_def fun_eq_iff ReplyStaleShare_def ReplyDupeShare_def
      ReplyLowDiffShare_def ReplyBadShare_def verdict_response_def)

lemma verdict_response_ok: "response_ok (verdict_response i st) = marshal_ok i"
  by (cases st) (simp_all add: verdict_response_def response_ok_def)

lemma validate_verdict:
  "case snd (validateSubmit ctx event) of
     Inl err \<Rightarrow> v1_verdict nd event ctx sh = Some (if err = ErrStaleShare then SubmitStatusStale else SubmitStatusBad)
   | Inr si \<Rightarrow> v1_verdict nd event ctx sh = (case parseV1SubmitNonce ctx (noncestr si) of
        Inl _ \<Rightarrow> Some SubmitStatusBad
      | Inr n \<Rightarrow> (case submit_verdict (unat (tipBlueScore sh)) (hset (hist (workerStatsKey ctx) sh)) nd ctx
            (si\<lparr>nonceVal := n, noncestr := fmt_hex 16 (unat n)\<rparr>) of
          Some (st, internal) \<Rightarrow> if internal then None else Some st
        | None \<Rightarrow> None))"
proof -
  consider "length (Params event) < 3" | user job nonce rest where "Params event = user # job # nonce # rest"
    by (cases "Params event" rule: list.exhaust; cases "tl (Params event)"; cases "tl (tl (Params event))") auto
  then show ?thesis
  proof cases
    case 1
    then show ?thesis by (auto simp: validateSubmit_def v1_verdict_def Let_def split: list.split go_any.split)
  next
    case 2
    show ?thesis
    proof (cases "\<exists>j b. job = AStr j \<and> parse_int j \<noteq> None")
      case True
      then obtain j k where j: "job = AStr j" "parse_int j = Some k" by auto
      show ?thesis
        by (cases "GetJob (State ctx) k"; cases nonce)
          (simp_all add: validateSubmit_def v1_verdict_def 2 j Let_def split: sum.split)
    next
      case False
      then show ?thesis by (cases job) (auto simp: validateSubmit_def v1_verdict_def 2 Let_def)
    qed
  qed
qed

text \<open>The handler as the verdict and the answer to it.\<close>

lemma HandleSubmit_reply:
  assumes "HandleSubmit now nd event ctx sh = Some (e, ctx', sh')"
  shows "case v1_verdict nd event ctx sh of None \<Rightarrow> e \<noteq> None \<and> ctx' = ctx
    | Some st \<Rightarrow> Reply (verdict_response (eventId event) st) ctx = (e, ctx')"
proof -
  obtain ops res where v: "validateSubmit ctx event = (ops, res)" by fastforce
  note verdict = validate_verdict [where ctx = ctx and event = event and nd = nd and sh = sh, unfolded v snd_conv]
  show ?thesis
  proof (cases res)
    case (Inl err)
    then show ?thesis
      using assms verdict by (auto simp: HandleSubmit_def v replySubmit_response Let_def split: if_splits prod.splits)
  next
    case si: (Inr si)
    show ?thesis
    proof (cases "parseV1SubmitNonce ctx (noncestr si)")
      case (Inl err)
      then show ?thesis
        using assms verdict si by (auto simp: HandleSubmit_def v replySubmit_response Let_def split: prod.splits)
    next
      case (Inr n)
      let ?si = "si\<lparr>nonceVal := n, noncestr := fmt_hex 16 (unat n)\<rparr>" and ?sh = "record_prom ops sh"
      have same: "unat (tipBlueScore ?sh) = unat (tipBlueScore sh)" "hist w ?sh = hist w sh" for w
        by (simp_all add: hist_def record_prom_def)
      obtain st err where p: "processSubmit now nd ctx ?si ?sh = Some ((st, err), sh')"
        "case err of None \<Rightarrow> Reply (verdict_response (eventId event) st) ctx = (e, ctx') | Some x \<Rightarrow> e = Some x \<and> ctx' = ctx"
        using assms si Inr by (auto simp: HandleSubmit_def v Let_def replySubmit_response split: option.splits prod.splits)
      have "submit_verdict (unat (tipBlueScore sh)) (hset (hist (workerStatsKey ctx) sh)) nd ctx ?si = Some (st, err \<noteq> None)"
        using processSubmit_verdict_holds [of now nd ctx ?si ?sh] p(1) by (simp add: same)
      then show ?thesis using verdict si Inr p(2) by (cases err) auto
    qed
  qed
qed

lemma HandleSubmit_counts:
  assumes "books_ok sh" and "HandleSubmit now nd event ctx sh = Some (e, ctx', sh')"
  shows "SharesFound (overall sh') = SharesFound (overall sh)
    + of_bool (v1_verdict nd event ctx sh = Some SubmitStatusAccepted)"
proof -
  obtain ops res where v: "validateSubmit ctx event = (ops, res)" by fastforce
  note verdict = validate_verdict [where ctx = ctx and event = event and nd = nd and sh = sh, unfolded v snd_conv]
  let ?sh = "record_prom ops sh"
  have stale: "SharesFound (overall (staleSubmit now ctx ?sh)) = SharesFound (overall sh)"
    by (auto simp: staleSubmit_def addStale_def dest!: getCreateStats_frame(3) split: prod.split)
  show ?thesis
  proof (cases "\<exists>si n. res = Inr si \<and> parseV1SubmitNonce ctx (noncestr si) = Inr n")
    case False
    then show ?thesis
      using assms(2) verdict stale by (auto simp: HandleSubmit_def v Let_def split: sum.splits if_splits prod.splits)
  next
    case True
    then obtain si n where n: "res = Inr si" "parseV1SubmitNonce ctx (noncestr si) = Inr n" by blast
    let ?si = "si\<lparr>nonceVal := n, noncestr := fmt_hex 16 (unat n)\<rparr>"
    have same: "unat (tipBlueScore ?sh) = unat (tipBlueScore sh)" "hist w ?sh = hist w sh" for w
      by (simp_all add: hist_def record_prom_def)
    obtain st err where p: "processSubmit now nd ctx ?si ?sh = Some ((st, err), sh')"
      using assms(2) n by (auto simp: HandleSubmit_def v Let_def split: option.splits prod.splits)
    have "submit_verdict (unat (tipBlueScore sh)) (hset (hist (workerStatsKey ctx) sh)) nd ctx ?si = Some (st, err \<noteq> None)"
      using processSubmit_verdict_holds [of now nd ctx ?si ?sh] p by (simp add: same)
    moreover have "SharesFound (overall sh') = SharesFound (overall sh) + of_bool (err = None \<and> st = SubmitStatusAccepted)"
      using processSubmit_counted_holds [OF _ p] assms(1) by simp
    ultimately show ?thesis using verdict n by auto
  qed
qed

lemma HandleSubmit_exact:
  assumes "books_ok sh \<and> windows_ok sh \<and> histories_ok sh" and "mining_ok (State ctx)"
  shows "\<exists>e ctx' sh'. HandleSubmit now nd event ctx sh = Some (e, ctx', sh')
    \<and> (books_ok sh' \<and> windows_ok sh' \<and> histories_ok sh') \<and> same_client ctx ctx'
    \<and> sent ctx' = sent ctx @ (case v1_verdict nd event ctx sh of None \<Rightarrow> []
        | Some st \<Rightarrow> if takes_message ctx \<and> marshal_ok (eventId event)
            then [WResponse (verdict_response (eventId event) st)] else [])
    \<and> (e = None \<longleftrightarrow> sent ctx' \<noteq> sent ctx)"
proof -
  obtain e ctx' sh' where h: "HandleSubmit now nd event ctx sh = Some (e, ctx', sh')"
    and inv: "books_ok sh' \<and> windows_ok sh' \<and> histories_ok sh'"
    using HandleSubmit_holds [OF assms] by blast
  show ?thesis
  proof (cases "v1_verdict nd event ctx sh")
    case None
    then show ?thesis using HandleSubmit_reply [OF h] inv h by simp
  next
    case (Some st)
    then have r: "Reply (verdict_response (eventId event) st) ctx = (e, ctx')" using HandleSubmit_reply [OF h] by simp
    have "e = None \<longleftrightarrow> takes_message ctx \<and> marshal_ok (eventId event)"
      using Reply_iff [of "verdict_response (eventId event) st" ctx] r by (simp add: verdict_response_ok)
    then show ?thesis using rep.out_client [OF r] rep.out_sent [OF r] inv h Some by simp
  qed
qed

text \<open>
  C18: the handler of \<^verbatim>\<open>mining.submit\<close> never panics and keeps the books of the share handler. The verdict
  follows from the parameters: bad when they are not a job number and a nonce, stale when the job is not
  kept, and the decision table of \<^verbatim>\<open>processSubmit\<close> otherwise. The share is counted exactly when it is accepted.
  The message sent is the one of the verdict, with its code and the identifier of the request: \<^verbatim>\<open>true\<close>, 20, 21 for
  stale, 22 for duplicate, 23 for low difficulty. Nothing is sent, and an error is reported, exactly when the
  verdict is an internal error, the connection does not take the message, or the identifier has no text.
\<close>

theorem HandleSubmit_answer:
  assumes "books_ok sh \<and> windows_ok sh \<and> histories_ok sh" and "mining_ok (State ctx)"
  shows "\<exists>e ctx' sh'. HandleSubmit now nd event ctx sh = Some (e, ctx', sh')
    \<and> (books_ok sh' \<and> windows_ok sh' \<and> histories_ok sh') \<and> same_client ctx ctx'
    \<and> SharesFound (overall sh') = SharesFound (overall sh)
        + of_bool (v1_verdict nd event ctx sh = Some SubmitStatusAccepted)
    \<and> sent ctx' = sent ctx @ (case v1_verdict nd event ctx sh of None \<Rightarrow> []
        | Some st \<Rightarrow> if takes_message ctx \<and> marshal_ok (eventId event)
            then [WResponse (verdict_response (eventId event) st)] else [])
    \<and> (e = None \<longleftrightarrow> sent ctx' \<noteq> sent ctx)"
  using HandleSubmit_exact [OF assms, of now nd event] HandleSubmit_counts assms(1) by blast

theorem HandleSubmit_answer_witness:
  "\<exists>ctx' sh'. HandleSubmit 3 sample_node \<lparr>eventId = AInt 4, jsonrpc = ''2.0'', Method = ''mining.submit'',
       Params = [AStr ''rig'', AStr ''1'', AStr ''64'']\<rparr> sample_miner newShareHandler = Some (None, ctx', sh')
     \<and> books_ok sh' \<and> SharesFound (overall sh') = 1
     \<and> sent ctx' = sent sample_miner @ [WResponse \<lparr>respId = AInt 4, Result = ABool True, respError = None\<rparr>]"
proof -
  let ?ev = "\<lparr>eventId = AInt 4, jsonrpc = ''2.0'', Method = ''mining.submit'', Params = [AStr ''rig'', AStr ''1'', AStr ''64'']\<rparr>"
  have ok: "books_ok newShareHandler \<and> windows_ok newShareHandler \<and> histories_ok newShareHandler"
    by (simp add: books_ok_new)
      (simp add: windows_ok_def newShareHandler_def newWorkStats_def histories_ok_def history_ok_new hist_def)
  have mine: "mining_ok (State sample_miner)"
    by (simp add: mining_ok_def sample_miner_def sample_mining_def diff_ok_def one_f64_def)
  have share: "sample_share = \<lparr>block = sample_block, jobID = 1, noncestr = fmt_hex 16 100, nonceVal = 100\<rparr>"
    unfolding sample_share_def by simp code_simp
  have job: "GetJob (State sample_miner) 1 = Some sample_block"
    by (simp add: GetJob_def maxjobs_def go_rem_nonneg sample_miner_def sample_mining_def)
  have read: "parse_int ''1'' = Some 1" "parseV1SubmitNonce sample_miner ''64'' = Inr 100"
    by code_simp+
  obtain sh1 where "processSubmit 7 sample_node sample_miner sample_share newShareHandler
      = Some ((SubmitStatusAccepted, None), sh1)" using sample_accepted by blast
  then have "submit_verdict (unat (tipBlueScore newShareHandler)) (hset (hist (workerStatsKey sample_miner) newShareHandler))
      sample_node sample_miner sample_share = Some (SubmitStatusAccepted, False)"
    using processSubmit_verdict_holds [of 7 sample_node sample_miner sample_share newShareHandler] by simp
  then have v: "v1_verdict sample_node ?ev sample_miner newShareHandler = Some SubmitStatusAccepted"
    unfolding share by (simp add: v1_verdict_def read job)
  have t: "takes_message sample_miner" by (simp add: takes_message_def sample_miner_def numeral_3_eq_3)
  obtain e ctx' sh' where h: "HandleSubmit 3 sample_node ?ev sample_miner newShareHandler = Some (e, ctx', sh')" "books_ok sh'"
    "SharesFound (overall sh') = SharesFound (overall newShareHandler) + 1"
    "sent ctx' = sent sample_miner @ [WResponse (verdict_response (AInt 4) SubmitStatusAccepted)]"
    "e = None \<longleftrightarrow> sent ctx' \<noteq> sent sample_miner"
    using HandleSubmit_answer [OF ok mine, of 3 sample_node ?ev] by (auto simp: v t)
  then have "e = None" by simp
  with h show ?thesis
    by (intro exI [of _ ctx'] exI [of _ sh']) (simp add: verdict_response_def newShareHandler_def newWorkStats_def)
qed

end
