(* ===== verification/ClientListener.thy ===== *)
theory ClientListener
  imports Sv2Handler
begin

unbundle bit_operations_syntax

text \<open>
  \<^verbatim>\<open>src/cryptixstratum/client_handler.go\<close>: the clients that are connected, their extranonces, and
  the jobs that a new block template sends to them. Connections are shared objects: the map of the
  listener points to them (a reference is a natural number). The goroutine that serves one client
  is \<open>newJob\<close>, one atomic step; \<open>None\<close> is a panic. The node's templates and BLAKE2b are the
  record \<open>kapi\<close> (the method \<^verbatim>\<open>GetBlockTemplate\<close> of \<^verbatim>\<open>cryptixapi.go\<close> is here too).
\<close>

record 'tx kapi =
  nodeTemplate :: "string \<Rightarrow> string \<Rightarrow> string + 'tx rpc_block"
  blake2b :: "nat \<Rightarrow> byte list \<Rightarrow> (byte list \<Rightarrow> byte list) option"
  nodeBalances :: "string list \<Rightarrow> string + (string \<times> u64) list"

record clientListener =
  clients :: "u32 \<rightharpoonup> nat"
  lastBalanceCheck :: "int option"
  clientCounter :: u32
  minShareDiff :: f64
  extranonceSize :: int
  maxExtranonce :: int
  nextExtranonce :: int

definition balanceDelay :: int where
  "balanceDelay = 60000000000"

definition sv2NTimeMsTag :: u32 where
  "sv2NTimeMsTag = 0x4D530000"

definition sv2NTimeMsMask :: u32 where
  "sv2NTimeMsMask = 0x3FF"

text \<open>\<^verbatim>\<open>int32(math.Pow(2, 8*math.Min(size, 3)) - 1)\<close>; the power is exact.\<close>

definition extranonceLimit :: "int \<Rightarrow> int" where
  "extranonceLimit sz = (case to_f64 (2 powi (8 * min sz 3)) - 1 of Fin q \<Rightarrow> trunc q | _ \<Rightarrow> 0)"

definition newClientListener :: "f64 \<Rightarrow> int \<Rightarrow> clientListener" where
  "newClientListener minDiff sz = \<lparr>clients = Map.empty, lastBalanceCheck = None, clientCounter = 0,
     minShareDiff = minDiff, extranonceSize = sz, maxExtranonce = extranonceLimit sz, nextExtranonce = 0\<rparr>"

subsection \<open>Connect and disconnect\<close>

definition takeExtranonce :: "clientListener \<Rightarrow> int \<times> clientListener" where
  "takeExtranonce c = (if 0 < extranonceSize c
     then (nextExtranonce c, c\<lparr>nextExtranonce :=
             (if nextExtranonce c < maxExtranonce c then nextExtranonce c + 1 else 0)\<rparr>)
     else (0, c))"

text \<open>\<open>ref\<close> is the reference of the new connection \<open>ctx\<close>.\<close>

definition OnConnect :: "nat \<Rightarrow> 'st StratumContext \<Rightarrow> clientListener \<Rightarrow> 'st StratumContext \<times> clientListener" where
  "OnConnect ref ctx c =
    (let idx = clientCounter c + 1;
         ctx = ctx\<lparr>Id := idx\<rparr>;
         (extranonce, c) = takeExtranonce (c\<lparr>clientCounter := idx\<rparr>);
         c = c\<lparr>clients := (clients c)(idx \<mapsto> ref)\<rparr>
     in (if 0 < extranonceSize c
         then ctx\<lparr>Extranonce := fmt_hex (nat (extranonceSize c * 2)) (nat extranonce)\<rparr> else ctx, c))"

text \<open>The goroutine that \<open>OnConnect\<close> starts, five seconds later.\<close>

definition lateStats :: "int \<Rightarrow> 'st StratumContext \<Rightarrow> shareHandler \<Rightarrow> shareHandler" where
  "lateStats now ctx sh = snd (getCreateStats now ctx sh)"

definition OnDisconnect :: "'st StratumContext \<Rightarrow> clientListener \<Rightarrow> shareHandler \<Rightarrow> clientListener \<times> shareHandler" where
  "OnDisconnect ctx c sh = (c\<lparr>clients := (clients c)(Id ctx := None)\<rparr>,
     record_prom (RecordDisconnect ctx) (clearClientDupeHistory ctx sh))"

subsection \<open>Sending work\<close>

definition sendClientDiff :: "f64 \<Rightarrow> 'st StratumContext \<Rightarrow> shareHandler \<Rightarrow> 'st StratumContext \<times> shareHandler" where
  "sendClientDiff diff client sh =
    (case Send \<lparr>eventId = ANil, jsonrpc = ''2.0'', Method = ''mining.set_difficulty'', Params = [AFloat diff]\<rparr> client of
       (None, client) \<Rightarrow> (client, sh)
     | (Some err, client) \<Rightarrow> (client, record_prom (RecordWorkerError (WalletAddr client) ErrFailedSetDiff) sh))"

definition sendSV2Target :: "f64 \<Rightarrow> 'st StratumContext \<Rightarrow> (go_error option \<times> 'st StratumContext) option" where
  "sendSV2Target diff client = (case diffToSV2TargetLE diff of
     None \<Rightarrow> None
   | Some target \<Rightarrow> Some (writeSV2Frame sv2ExtChannel sv2MsgSetTarget
       (encodeSV2SetTargetPayload (SV2ChannelID client) target) client))"

definition sv2EncodeNBitsWithOptionalMsHint :: "string \<Rightarrow> u64 \<Rightarrow> u32 \<Rightarrow> u32" where
  "sv2EncodeNBitsWithOptionalMsHint remoteApp timestampMs nBits =
    (let app = lower_ascii (trim_space remoteApp) in
     if contains app ''cryptis-miner''
     then sv2NTimeMsTag OR (ucast (timestampMs mod 1000) AND sv2NTimeMsMask)
     else nBits)"

definition sendSV2Job ::
    "u32 \<Rightarrow> byte list \<Rightarrow> u32 \<Rightarrow> u64 \<Rightarrow> u32 \<Rightarrow> 'st StratumContext \<Rightarrow> go_error option \<times> 'st StratumContext" where
  "sendSV2Job job prePowHash version timestampMs nBits client = (case bytesToFixed32 prePowHash of
     Inl err \<Rightarrow> (Some err, client)
   | Inr prePowHash32 \<Rightarrow>
      (case writeSV2Frame sv2ExtChannel sv2MsgNewMiningJob
          (encodeSV2NewMiningJobPayload (SV2ChannelID client) job version prePowHash32) client of
         (Some err, client) \<Rightarrow> (Some err, client)
       | (None, client) \<Rightarrow>
          (let zeroPrevHash = replicate 32 0;
               minNTime = ucast (timestampMs div 1000);
               encodedNBits = sv2EncodeNBitsWithOptionalMsHint (RemoteApp client) timestampMs nBits
           in writeSV2Frame sv2ExtChannel sv2MsgSetNewPrevHash
                (encodeSV2SetNewPrevHashPayload (SV2ChannelID client) job zeroPrevHash minNTime encodedNBits)
                client)))"

text \<open>\<^verbatim>\<open>cryptixapi.go\<close>: the template for a client, or the text of the wrapped error.\<close>

definition GetBlockTemplate :: "'tx kapi \<Rightarrow> 'st StratumContext \<Rightarrow> string + 'tx rpc_block" where
  "GetBlockTemplate api client =
    (case nodeTemplate api (WalletAddr client)
        (CHR 0x27 # RemoteApp client @ CHR 0x27 # '' via Cryptix/cryptix-stratum-bridge_v1.2.3'') of
       Inl err \<Rightarrow> Inl (''failed fetching new block template from cryptix: '' @ err)
     | Inr b \<Rightarrow> Inr b)"

text \<open>An error while sending to a client: a disconnect is recorded and ends the job; any other error
  is recorded as \<open>code\<close> and the client is disconnected.\<close>

definition sv2SendFailed ::
    "go_error \<Rightarrow> ErrorShortCodeT \<Rightarrow> 'st StratumContext \<Rightarrow> shareHandler \<Rightarrow> 'st StratumContext \<times> shareHandler" where
  "sv2SendFailed err code client sh = (if err = ErrorDisconnected
     then (client, record_prom (RecordWorkerError (WalletAddr client) ErrDisconnected) sh)
     else (Disconnect client, record_prom (RecordWorkerError (WalletAddr client) code) sh))"

definition templateFailed :: "string \<Rightarrow> 'st StratumContext \<Rightarrow> shareHandler \<Rightarrow> 'st StratumContext \<times> shareHandler" where
  "templateFailed err client sh = (if contains err ''Could not decode address''
     then (Disconnect client, record_prom (RecordWorkerError (WalletAddr client) ErrInvalidAddressFmt) sh)
     else (client, record_prom (RecordWorkerError (WalletAddr client) ErrFailedBlockFetch) sh))"

text \<open>The first half of the goroutine, up to the difficulty of the client: lines 135 to 174. A client
  that is new gets its first difficulty, then the one of its worker or of the network is chosen, and
  a change is announced. The result says whether the job goes on.\<close>

definition initClient ::
    "int \<Rightarrow> bool \<Rightarrow> f64 \<Rightarrow> 'tx client \<Rightarrow> shareHandler \<Rightarrow> ('tx client \<times> shareHandler) option" where
  "initClient now soloMining minDiff client sh =
    (case InitializeIfNeeded (RemoteApp client) minDiff (State client) of
       None \<Rightarrow> None
     | Some (isNew, ms) \<Rightarrow>
        (let client = client\<lparr>State := ms\<rparr>;
             sh = (if isNew then snd (setClientVardiff now client minDiff sh) else sh)
         in Some (if isNew \<and> \<not> soloMining \<and> \<not> IsSV2 client
               then sendClientDiff minDiff client sh else (client, sh))))"

definition chooseDiff ::
    "int \<Rightarrow> bool \<Rightarrow> f64 \<Rightarrow> 'tx client \<Rightarrow> shareHandler \<Rightarrow> f64 \<times> shareHandler" where
  "chooseDiff now soloMining netDiff client sh =
    (let sh = setSoloDiff netDiff sh;
         (varDiff, sh) = (if soloMining then (netDiff, sh) else getClientVardiff now client sh);
         currentDiff = GetStratumDiffValue (State client)
     in (if f64_eq varDiff 0 then currentDiff else varDiff, sh))"

definition changeDiff ::
    "int \<Rightarrow> f64 \<Rightarrow> 'tx client \<Rightarrow> shareHandler \<Rightarrow> (bool \<times> 'tx client \<times> shareHandler) option" where
  "changeDiff now varDiff client sh =
    (case SetStratumDiff varDiff (State client) of
       None \<Rightarrow> None
     | Some (_, ms) \<Rightarrow>
        (let client = client\<lparr>State := ms\<rparr> in
         if IsSV2 client
         then (case sendSV2Target varDiff client of
             None \<Rightarrow> None
           | Some (Some err, client) \<Rightarrow> Some (False, sv2SendFailed err ErrFailedSetDiff client sh)
           | Some (None, client) \<Rightarrow> Some (True, client, startClientVardiff now client sh))
         else (case sendClientDiff varDiff client sh of
             (client, sh) \<Rightarrow> Some (True, client, startClientVardiff now client sh))))"

definition adjustDiff ::
    "int \<Rightarrow> bool \<Rightarrow> f64 \<Rightarrow> f64 \<Rightarrow> 'tx client \<Rightarrow> shareHandler \<Rightarrow> (bool \<times> 'tx client \<times> shareHandler) option" where
  "adjustDiff now soloMining minDiff netDiff client sh =
    (case initClient now soloMining minDiff client sh of
       None \<Rightarrow> None
     | Some (client, sh) \<Rightarrow>
        (case chooseDiff now soloMining netDiff client sh of (varDiff, sh) \<Rightarrow>
          if f64_eq varDiff (GetStratumDiffValue (State client)) then Some (True, client, sh)
          else changeDiff now varDiff client sh))"

text \<open>The second half: the job is entered into the ring and sent. At the end the wallet is set
  back to the value it had when the goroutine started.\<close>

definition jobParams :: "bool \<Rightarrow> int \<Rightarrow> byte list \<Rightarrow> u64 \<Rightarrow> go_any list option" where
  "jobParams big jobId header timestamp =
    (if big
     then (case GenerateLargeJobParams header timestamp of
             None \<Rightarrow> None
           | Some s \<Rightarrow> Some [AStr (fmt_dec jobId), AStr s])
     else (case GenerateJobHeader header of
             None \<Rightarrow> None
           | Some ids \<Rightarrow> Some [AStr (fmt_dec jobId), AList (map (\<lambda>v. AInt (uint v)) ids), AInt (uint timestamp)]))"

definition sendJob ::
    "string \<Rightarrow> 'tx rpc_block \<Rightarrow> byte list \<Rightarrow> 'tx client \<Rightarrow> shareHandler \<Rightarrow> ('tx client \<times> shareHandler) option" where
  "sendJob originalAddr template header client sh =
    (let (jobId, ms) = AddJob template (State client);
         client = client\<lparr>State := ms\<rparr>;
         hdr = Header template
     in if IsSV2 client
        then (case sendSV2Job (word_of_int jobId) header (Version hdr) (Timestamp hdr) (Bits hdr) client of
            (Some err, client) \<Rightarrow> Some (sv2SendFailed err ErrFailedSendWork client sh)
          | (None, client) \<Rightarrow>
              Some (client\<lparr>WalletAddr := originalAddr\<rparr>, record_prom (RecordNewJob client) sh))
        else (case jobParams (GetUseBigJob ms) jobId header (Timestamp hdr) of
            None \<Rightarrow> None
          | Some ps \<Rightarrow>
              (case Send \<lparr>eventId = AInt jobId, jsonrpc = ''2.0'', Method = ''mining.notify'', Params = ps\<rparr> client of
                 (Some err, client) \<Rightarrow>
                   (if err = ErrorDisconnected
                    then Some (client, record_prom (RecordWorkerError (WalletAddr client) ErrDisconnected) sh)
                    else Some (client\<lparr>WalletAddr := originalAddr\<rparr>,
                      record_prom (RecordNewJob client)
                        (record_prom (RecordWorkerError (WalletAddr client) ErrFailedSendWork) sh)))
               | (None, client) \<Rightarrow>
                   Some (client\<lparr>WalletAddr := originalAddr\<rparr>, record_prom (RecordNewJob client) sh))))"

definition newJob ::
    "int \<Rightarrow> 'tx kapi \<Rightarrow> bool \<Rightarrow> f64 \<Rightarrow> 'tx client \<Rightarrow> shareHandler \<Rightarrow> ('tx client \<times> shareHandler) option" where
  "newJob now api soloMining minDiff client sh =
    (let originalAddr = WalletAddr client;
         sh = snd (getCreateStats now client sh)
     in case GetBlockTemplate api client of
          Inl err \<Rightarrow> Some (templateFailed err client sh)
        | Inr template \<Rightarrow>
           (let (netDiff, ms) = SetNetworkTarget (ucast (Bits (Header template))) (State client);
                client = client\<lparr>State := ms\<rparr>
            in case SerializeBlockHeader (blake2b api) template of
                 Inl err \<Rightarrow> Some (client, record_prom (RecordWorkerError (WalletAddr client) ErrBadDataFromMiner) sh)
               | Inr header \<Rightarrow>
                  (case adjustDiff now soloMining minDiff netDiff client sh of
                     None \<Rightarrow> None
                   | Some (False, client, sh) \<Rightarrow> Some (client, sh)
                   | Some (True, client, sh) \<Rightarrow> sendJob originalAddr template header client sh)))"

subsection \<open>A new block\<close>

definition eligible :: "'st StratumContext \<Rightarrow> bool" where
  "eligible cl \<longleftrightarrow> Connected cl \<and> WalletAddr cl \<noteq> []"

text \<open>The goroutines of one notification, one after the other; \<open>refs\<close> are the connections of the
  listener's map, in the order in which it yields them. Who is served is decided first.\<close>

fun serveAll ::
    "int \<Rightarrow> 'tx kapi \<Rightarrow> bool \<Rightarrow> f64 \<Rightarrow> nat list \<Rightarrow> (nat \<Rightarrow> 'tx client) \<Rightarrow> shareHandler
     \<Rightarrow> ((nat \<Rightarrow> 'tx client) \<times> shareHandler) option" where
  "serveAll now api solo minDiff [] conns sh = Some (conns, sh)"
| "serveAll now api solo minDiff (r # refs) conns sh = (case newJob now api solo minDiff (conns r) sh of
     None \<Rightarrow> None
   | Some (cl, sh') \<Rightarrow> serveAll now api solo minDiff refs (conns(r := cl)) sh')"

definition checkBalances :: "int \<Rightarrow> 'tx kapi \<Rightarrow> string list \<Rightarrow> clientListener \<Rightarrow> shareHandler \<Rightarrow> clientListener \<times> shareHandler" where
  "checkBalances now api addresses c sh =
    (let shouldCheckBalances = balanceDelay < since now (lastBalanceCheck c);
         c = (if shouldCheckBalances then c\<lparr>lastBalanceCheck := Some now\<rparr> else c)
     in (c, if shouldCheckBalances \<and> addresses \<noteq> []
            then (case nodeBalances api addresses of Inl _ \<Rightarrow> sh | Inr entries \<Rightarrow> record_prom (RecordBalances entries) sh)
            else sh))"

definition NewBlockAvailable ::
    "int \<Rightarrow> 'tx kapi \<Rightarrow> bool \<Rightarrow> nat list \<Rightarrow> clientListener \<Rightarrow> (nat \<Rightarrow> 'tx client) \<Rightarrow> shareHandler
     \<Rightarrow> (clientListener \<times> (nat \<Rightarrow> 'tx client) \<times> shareHandler) option" where
  "NewBlockAvailable now api solo refs c conns sh =
    (let served = filter (\<lambda>r. eligible (conns r)) refs;
         addresses = map (\<lambda>r. WalletAddr (conns r)) served
     in case serveAll now api solo (minShareDiff c) served conns sh of
          None \<Rightarrow> None
        | Some (conns, sh) \<Rightarrow> (case checkBalances now api addresses c sh of (c, sh) \<Rightarrow> Some (c, conns, sh)))"

end
