(* ===== verification/ClientListenerLemmas.thy ===== *)
theory ClientListenerLemmas
  imports ClientListener Sv2HandlerLemmas
begin

text \<open>
  The client listener: a job goroutine never panics and keeps the books; what a miner is sent; the
  difficulty a miner knows is the one its shares are judged by; which extranonces and numbers
  connections get.
\<close>

subsection \<open>The goroutine of one client\<close>

text \<open>What the share handler guarantees between operations; no worker's difficulty is NaN.\<close>

definition worker_diffs :: "(f64 \<Rightarrow> bool) \<Rightarrow> shareHandler \<Rightarrow> bool" where
  "worker_diffs P sh \<longleftrightarrow> (\<forall>r. P (MinDiff (heap sh r)))"

abbreviation diffs_ok :: "shareHandler \<Rightarrow> bool" where
  "diffs_ok \<equiv> worker_diffs (\<lambda>d. d \<noteq> NaN)"

definition shares_ok :: "shareHandler \<Rightarrow> bool" where
  "shares_ok sh \<longleftrightarrow> (books_ok sh \<and> windows_ok sh \<and> histories_ok sh) \<and> diffs_ok sh"

text \<open>\<^verbatim>\<open>blake2b.New(32, key)\<close> hashes to 32 bytes.\<close>

definition hashes_32 :: "(nat \<Rightarrow> byte list \<Rightarrow> (byte list \<Rightarrow> byte list) option) \<Rightarrow> bool" where
  "hashes_32 blake \<longleftrightarrow> (\<forall>key f bs. blake 32 key = Some f \<longrightarrow> length (f bs) = 32)"

lemma worker_diffs_frame [simp]:
  "worker_diffs P (record_prom ops sh) = worker_diffs P sh" "worker_diffs P (upd_overall f sh) = worker_diffs P sh"
  "worker_diffs P (setSoloDiff d sh) = worker_diffs P sh"
  by (simp_all add: worker_diffs_def setSoloDiff_def)

lemma worker_diffs_upd:
  "worker_diffs P sh \<Longrightarrow> (\<And>ws. P (MinDiff ws) \<Longrightarrow> P (MinDiff (f ws))) \<Longrightarrow> worker_diffs P (upd_stats r f sh)"
  by (simp add: worker_diffs_def)

lemma shares_ok_frame [simp]:
  "shares_ok (record_prom ops sh) = shares_ok sh" "shares_ok (setSoloDiff d sh) = shares_ok sh"
  by (simp_all add: shares_ok_def setSoloDiff_def windows_ok_def histories_ok_def hist_def
      worker_diffs_def)

lemma getCreateStats_diffs:
  assumes "worker_diffs P sh" and "P 0" and "getCreateStats now ctx sh = (r, sh')"
  shows "worker_diffs P sh'"
  using assms
  by (auto simp: getCreateStats_def worker_diffs_def newWorkStats_def Let_def split: option.splits if_splits)

lemma setClientVardiff_diffs:
  assumes "worker_diffs P sh" and "P 0" and "P (f64_max d min_client_diff)"
  shows "worker_diffs P (snd (setClientVardiff now ctx d sh))"
proof -
  obtain r sh1 where g: "getCreateStats now ctx sh = (r, sh1)" by fastforce
  show ?thesis
    using getCreateStats_diffs [OF assms(1,2) g] assms(3)
    by (auto simp: setClientVardiff_def g Let_def startVarDiff_def updateVarDiff_def intro!: worker_diffs_upd)
qed

lemma zero_number [simp]: "(0 :: f64) \<noteq> NaN"
  by (simp add: zero_f64_def)

lemma getCreateStats_shares: "shares_ok sh \<Longrightarrow> shares_ok (snd (getCreateStats now ctx sh))"
proof -
  assume ok: "shares_ok sh"
  obtain r sh' where g: "getCreateStats now ctx sh = (r, sh')" by fastforce
  show ?thesis
    using ok getCreateStats_inv [OF _ g] getCreateStats_diffs [of "\<lambda>d. d \<noteq> NaN", OF _ zero_number g] by (simp add: shares_ok_def g)
qed

lemma getClientVardiff_shares:
  assumes "shares_ok sh" and "getClientVardiff now ctx sh = (d, sh')"
  shows "shares_ok sh'" and "d \<noteq> NaN"
  using assms getCreateStats_shares [OF assms(1), of now ctx]
  by (auto simp: getClientVardiff_def shares_ok_def worker_diffs_def split: prod.splits)

lemma startClientVardiff_shares:
  assumes "shares_ok sh"
  shows "shares_ok (startClientVardiff now ctx sh)"
proof -
  obtain r sh1 where g: "getCreateStats now ctx sh = (r, sh1)" by fastforce
  have "shares_ok sh1" using getCreateStats_shares [OF assms, of now ctx] g by simp
  moreover have "books_ok (upd_stats r (startVarDiff now) sh1) = books_ok sh1"
    by (rule books_ok_keep) (simp_all add: startVarDiff_def)
  ultimately show ?thesis
    by (simp add: shares_ok_def startClientVardiff_def g startVarDiff_def windows_ok_upd worker_diffs_upd)
qed

lemma f64_max_number: "a \<noteq> NaN \<Longrightarrow> b \<noteq> NaN \<Longrightarrow> f64_max a b \<noteq> NaN"
  by (simp add: f64_max_def)

lemma setClientVardiff_shares:
  assumes "shares_ok sh" and "d \<noteq> NaN"
  shows "shares_ok (snd (setClientVardiff now ctx d sh))"
proof -
  have "f64_max d min_client_diff \<noteq> NaN"
    using assms(2) by (intro f64_max_number) (simp_all add: min_client_diff_def)
  then have "diffs_ok (snd (setClientVardiff now ctx d sh))"
    using assms by (intro setClientVardiff_diffs) (simp_all add: shares_ok_def)
  then show ?thesis using assms setClientVardiff_inv [of sh now ctx d] by (simp add: shares_ok_def)
qed

lemma sendClientDiff_frame:
  assumes "sendClientDiff d cl sh = (cl', sh')"
  shows "same_client cl cl'" and "\<exists>ops. sh' = record_prom ops sh"
proof -
  let ?e = "\<lparr>eventId = ANil, jsonrpc = ''2.0'', Method = ''mining.set_difficulty'', Params = [AFloat d]\<rparr>"
  obtain r c where s: "Send ?e cl = (r, c)" by fastforce
  have "sh = record_prom [] sh" by (simp add: record_prom_def)
  moreover have "cl' = c \<and> sh' \<in> {sh, record_prom (RecordWorkerError (WalletAddr c) ErrFailedSetDiff) sh}"
    using assms by (cases r) (auto simp: sendClientDiff_def s)
  ultimately show "same_client cl cl'" "\<exists>ops. sh' = record_prom ops sh"
    using snd.out_client [OF s] by (blast, blast)
qed

lemma sendClientDiff_ok:
  "sendClientDiff d cl sh = (cl', sh') \<Longrightarrow> shares_ok sh' = shares_ok sh \<and> State cl' = State cl \<and> same_client cl cl'"
  using sendClientDiff_frame [of d cl sh cl' sh'] by (auto simp: handler)

lemma SetNetworkTarget_number: "fst (SetNetworkTarget bits ms) \<noteq> NaN"
  by (simp add: SetNetworkTarget_def TargetToDiff_def Let_def)

lemma sv2SendFailed_ok:
  "shares_ok sh \<Longrightarrow> shares_ok (snd (sv2SendFailed err code cl sh)) \<and> State (fst (sv2SendFailed err code cl sh)) = State cl"
  by (auto simp: sv2SendFailed_def Disconnect_def Let_def split: option.splits bool.splits)

text \<open>The outcome of a job goroutine or of a part of it: the ring of jobs may have grown.\<close>

definition job_fine :: "'tx MiningState \<Rightarrow> 'tx client \<times> shareHandler \<Rightarrow> bool" where
  "job_fine ms res \<longleftrightarrow> mining_ok (State (fst res)) \<and> shares_ok (snd res)
     \<and> Jobs (State (fst res)) = Jobs ms \<and> jobCounter (State (fst res)) = jobCounter ms"

lemma InitializeIfNeeded_jobs:
  "InitializeIfNeeded app d ms = Some (b, ms') \<Longrightarrow> Jobs ms' = Jobs ms \<and> jobCounter ms' = jobCounter ms"
  by (auto simp: InitializeIfNeeded_def split: if_splits option.splits)

lemma SetStratumDiff_jobs:
  "SetStratumDiff d ms = Some (old, ms') \<Longrightarrow> Jobs ms' = Jobs ms \<and> jobCounter ms' = jobCounter ms"
  by (auto simp: SetStratumDiff_def Let_def split: option.splits)

lemma initClient_runs:
  assumes "mining_ok (State cl)" and "shares_ok sh" and "diff_ok minDiff"
  shows "\<exists>res. initClient now solo minDiff cl sh = Some res \<and> job_fine (State cl) res"
proof -
  obtain new ms where i: "InitializeIfNeeded (RemoteApp cl) minDiff (State cl) = Some (new, ms)" "mining_ok ms"
    using InitializeIfNeeded_ok [OF assms(1,3)] by blast
  define cl0 where "cl0 = cl\<lparr>State := ms\<rparr>"
  define sh0 where "sh0 = (if new then snd (setClientVardiff now cl0 minDiff sh) else sh)"
  have sh0: "shares_ok sh0"
    using setClientVardiff_shares [OF assms(2), of minDiff now cl0] assms(2,3) by (simp add: sh0_def diff_ok_def)
  obtain cl1 sh1 where s: "sendClientDiff minDiff cl0 sh0 = (cl1, sh1)" by fastforce
  have "initClient now solo minDiff cl sh
      = Some (if new \<and> \<not> solo \<and> \<not> IsSV2 cl0 then (cl1, sh1) else (cl0, sh0))"
    unfolding initClient_def i(1) option.case prod.case Let_def cl0_def [symmetric] sh0_def [symmetric] s
    by simp
  then show ?thesis
    using sendClientDiff_ok [OF s] sh0 i(2) InitializeIfNeeded_jobs [OF i(1)]
    by (simp add: job_fine_def cl0_def)
qed

lemma chooseDiff_ok:
  assumes "mining_ok (State cl)" and "shares_ok sh" and "netDiff \<noteq> NaN"
    and "chooseDiff now solo netDiff cl sh = (d, sh')"
  shows "shares_ok sh'" and "d \<noteq> NaN" and "f64_eq d (GetStratumDiffValue (State cl)) \<or> diff_ok d"
proof -
  obtain vd sh1 where vd: "(if solo then (netDiff, setSoloDiff netDiff sh)
      else getClientVardiff now cl (setSoloDiff netDiff sh)) = (vd, sh1)" by fastforce
  then have "shares_ok sh1" "vd \<noteq> NaN"
    using getClientVardiff_shares [of "setSoloDiff netDiff sh" now cl vd sh1] assms
    by (auto split: if_splits)
  moreover have "d = (if f64_eq vd 0 then GetStratumDiffValue (State cl) else vd)" "sh' = sh1"
    using assms(4) vd by (simp_all add: chooseDiff_def Let_def)
  ultimately show "shares_ok sh'" "d \<noteq> NaN" "f64_eq d (GetStratumDiffValue (State cl)) \<or> diff_ok d"
    using GetStratumDiffValue_ok [OF assms(1)] by (auto simp: f64_eq_def diff_ok_def zero_f64_def)
qed

lemma changeDiff_runs:
  assumes "shares_ok sh" and "diff_ok d"
  shows "\<exists>on res. changeDiff now d cl sh = Some (on, res) \<and> job_fine (State cl) res"
proof -
  obtain old ms where ms: "SetStratumDiff d (State cl) = Some (old, ms)" "mining_ok ms"
    using SetStratumDiff_ok [OF assms(2)] by blast
  define cl2 where "cl2 = cl\<lparr>State := ms\<rparr>"
  show ?thesis
  proof (cases "IsSV2 cl2")
    case True
    obtain t where t: "diffToSV2TargetLE d = Some t"
      using diffToSV2TargetLE_value_holds [of d] assms(2) by (cases "diffToSV2TargetLE d") (auto simp: diff_ok_def)
    obtain r c where w: "writeSV2Frame sv2ExtChannel sv2MsgSetTarget
        (encodeSV2SetTargetPayload (SV2ChannelID cl2) t) cl2 = (r, c)" by fastforce
    have c: "State c = ms" using writeSV2Frame_client [OF w] by (simp add: handler cl2_def)
    have "sendSV2Target d cl2 = Some (r, c)" by (simp add: sendSV2Target_def t w)
    then show ?thesis
      using ms True c SetStratumDiff_jobs [OF ms(1)] startClientVardiff_shares [OF assms(1), of now c]
        sv2SendFailed_ok [OF assms(1), of _ ErrFailedSetDiff c]
      by (cases r) (simp_all add: changeDiff_def cl2_def [symmetric] Let_def job_fine_def ex_bool_eq)
  next
    case False
    obtain c s where w: "sendClientDiff d cl2 sh = (c, s)" by fastforce
    have "State c = ms" "shares_ok s" using sendClientDiff_ok [OF w] assms(1) by (simp_all add: cl2_def)
    then show ?thesis
      using False ms w SetStratumDiff_jobs [OF ms(1)] startClientVardiff_shares [of s now c]
      by (simp add: changeDiff_def cl2_def [symmetric] Let_def job_fine_def ex_bool_eq)
  qed
qed

lemma adjustDiff_runs:
  assumes "mining_ok (State cl)" and "shares_ok sh" and "diff_ok minDiff" and "netDiff \<noteq> NaN"
  shows "\<exists>on res. adjustDiff now solo minDiff netDiff cl sh = Some (on, res) \<and> job_fine (State cl) res"
proof -
  obtain cl1 sh1 where i: "initClient now solo minDiff cl sh = Some (cl1, sh1)" "job_fine (State cl) (cl1, sh1)"
    using initClient_runs [OF assms(1-3)] by fastforce
  obtain d sh2 where c: "chooseDiff now solo netDiff cl1 sh1 = (d, sh2)" by fastforce
  have ok: "shares_ok sh2" "f64_eq d (GetStratumDiffValue (State cl1)) \<or> diff_ok d"
    using chooseDiff_ok [OF _ _ assms(4) c] i(2) by (simp_all add: job_fine_def)
  show ?thesis
  proof (cases "f64_eq d (GetStratumDiffValue (State cl1))")
    case True
    then show ?thesis using i ok by (simp add: adjustDiff_def c job_fine_def ex_bool_eq)
  next
    case False
    then obtain on res where "changeDiff now d cl1 sh2 = Some (on, res)" "job_fine (State cl1) res"
      using changeDiff_runs [OF ok(1)] ok(2) by blast
    then show ?thesis using i False by (simp add: adjustDiff_def c job_fine_def)
  qed
qed

lemma jobParams_some: "32 \<le> length header \<Longrightarrow> jobParams big i header ts \<noteq> None"
  by (simp add: jobParams_def GenerateLargeJobParams_def GenerateJobHeader_def Let_def)

lemma sendSV2Job_client:
  assumes "sendSV2Job job header version ts bits cl = (r, cl')"
  shows "same_client cl cl'"
  using assms
  by (auto simp: sendSV2Job_def Let_def split: sum.splits prod.splits option.splits
      dest!: writeSV2Frame_client intro: same_client_trans)

lemma AddJob_ok:
  "mining_ok ms \<Longrightarrow> mining_ok (snd (AddJob b ms))"
  by simp

text \<open>A goroutine that gets to the end enters the template into the ring, exactly once.\<close>

lemma sendJob_runs:
  assumes "mining_ok (State cl)" and "shares_ok sh" and "32 \<le> length header"
  shows "\<exists>res. sendJob addr b header cl sh = Some res \<and> job_fine (snd (AddJob b (State cl))) res"
proof -
  obtain i ms where a: "AddJob b (State cl) = (i, ms)" by fastforce
  then have ms: "mining_ok ms" using AddJob_ok [OF assms(1), of b] by simp
  define cl0 where "cl0 = cl\<lparr>State := ms\<rparr>"
  define hdr where "hdr = Header b"
  show ?thesis
  proof (cases "IsSV2 cl0")
    case True
    obtain r c where w: "sendSV2Job (word_of_int i) header (Version hdr) (Timestamp hdr) (Bits hdr) cl0 = (r, c)"
      by fastforce
    have "State c = ms" using sendSV2Job_client [OF w] by (simp add: handler cl0_def)
    then show ?thesis
      using True w ms assms(2) sv2SendFailed_ok [OF assms(2), of _ ErrFailedSendWork c]
      by (cases r) (simp_all add: sendJob_def a cl0_def [symmetric] hdr_def [symmetric] Let_def job_fine_def)
  next
    case False
    obtain ps where ps: "jobParams (GetUseBigJob ms) i header (Timestamp hdr) = Some ps"
      using jobParams_some [OF assms(3)] by blast
    obtain r c where w: "Send \<lparr>eventId = AInt i, jsonrpc = ''2.0'', Method = ''mining.notify'', Params = ps\<rparr> cl0 = (r, c)"
      by fastforce
    have "State c = ms" using snd.out_client [OF w] by (simp add: handler cl0_def)
    then show ?thesis
      using False w ms assms(2)
      by (cases r) (simp_all add: sendJob_def a cl0_def [symmetric] hdr_def [symmetric] Let_def job_fine_def ps)
  qed
qed

lemma newJob_runs:
  assumes "mining_ok (State cl)" and "shares_ok sh" and "diff_ok minDiff" and "hashes_32 (blake2b api)"
  shows "\<exists>cl' sh' ms. newJob now api solo minDiff cl sh = Some (cl', sh') \<and> mining_ok (State cl') \<and> shares_ok sh'
    \<and> Jobs ms = Jobs (State cl) \<and> jobCounter ms = jobCounter (State cl)
    \<and> (State cl' = ms \<or> (\<exists>b. GetBlockTemplate api cl = Inr b
        \<and> Jobs (State cl') = Jobs (snd (AddJob b ms)) \<and> jobCounter (State cl') = jobCounter (snd (AddJob b ms))))"
proof (cases "GetBlockTemplate api cl")
  case (Inl err)
  have "templateFailed err cl sh' = (cl', sh'') \<Longrightarrow> shares_ok sh'' = shares_ok sh' \<and> State cl' = State cl" for sh' cl' sh''
    by (auto simp: templateFailed_def Disconnect_def Let_def split: if_splits option.splits bool.splits)
  then show ?thesis
    using Inl assms getCreateStats_shares [OF assms(2), of now cl]
    by (cases "templateFailed err cl (snd (getCreateStats now cl sh))") (simp add: newJob_def Let_def)
next
  case (Inr b)
  obtain netDiff ms where n: "SetNetworkTarget (ucast (Bits (Header b))) (State cl) = (netDiff, ms)" by fastforce
  have ms: "mining_ok ms" "netDiff \<noteq> NaN" "Jobs ms = Jobs (State cl)" "jobCounter ms = jobCounter (State cl)"
    using n mining_ok_frame(2) [of "ucast (Bits (Header b))" "State cl"] assms(1)
      SetNetworkTarget_number [of "ucast (Bits (Header b))" "State cl"]
    by (auto simp: SetNetworkTarget_def Let_def)
  define sh0 where "sh0 = snd (getCreateStats now cl sh)"
  have sh0: "shares_ok sh0" using getCreateStats_shares [OF assms(2)] by (simp add: sh0_def)
  define cl0 where "cl0 = cl\<lparr>State := ms\<rparr>"
  show ?thesis
  proof (cases "SerializeBlockHeader (blake2b api) b")
    case (Inl err)
    then show ?thesis
      using Inr n ms sh0 by (auto simp: newJob_def Let_def sh0_def [symmetric])
  next
    case header: (Inr header)
    then have len: "32 \<le> length header"
      using assms(4) by (auto simp: SerializeBlockHeader_def hashes_32_def split: option.splits)
    obtain on cl1 sh1 where a: "adjustDiff now solo minDiff netDiff cl0 sh0 = Some (on, cl1, sh1)"
      "job_fine ms (cl1, sh1)"
      using adjustDiff_runs [of cl0 sh0 minDiff netDiff now solo] ms sh0 assms(3) by (auto simp: cl0_def)
    obtain cl2 sh2 where s: "sendJob (WalletAddr cl) b header cl1 sh1 = Some (cl2, sh2)"
      "job_fine (snd (AddJob b (State cl1))) (cl2, sh2)"
      using sendJob_runs [of cl1 sh1 header "WalletAddr cl" b] a(2) len by (auto simp: job_fine_def)
    have "newJob now api solo minDiff cl sh = (if on then Some (cl2, sh2) else Some (cl1, sh1))"
      using Inr n header a(1) s(1) by (simp add: newJob_def Let_def sh0_def [symmetric] cl0_def [symmetric])
    then show ?thesis
      using Inr a(2) s(2) ms by (cases on) (auto simp: job_fine_def)
  qed
qed

subsection \<open>What a miner is sent\<close>

definition notify :: "wire \<Rightarrow> bool" where
  "notify w = (case w of WEvent e \<Rightarrow> Method e = ''mining.notify'' | _ \<Rightarrow> False)"

text \<open>The connection may have been sent something, but no job.\<close>

definition no_job_sent :: "'st StratumContext \<Rightarrow> 'st StratumContext \<Rightarrow> bool" where
  "no_job_sent cl cl' \<longleftrightarrow> (\<exists>ws. sent cl' = sent cl @ ws \<and> (\<forall>w\<in>set ws. \<not> notify w))"

lemma no_job_sent_refl: "sent cl' = sent cl \<Longrightarrow> no_job_sent cl cl'"
  by (simp add: no_job_sent_def)

lemma no_job_sent_trans [trans]: "no_job_sent a b \<Longrightarrow> no_job_sent b c \<Longrightarrow> no_job_sent a c"
  by (fastforce simp: no_job_sent_def)

lemma sendClientDiff_no_job:
  assumes "sendClientDiff d cl sh = (cl', sh')"
  shows "no_job_sent cl cl'"
proof -
  let ?e = "\<lparr>eventId = ANil, jsonrpc = ''2.0'', Method = ''mining.set_difficulty'', Params = [AFloat d]\<rparr>"
  obtain r c where s: "Send ?e cl = (r, c)" by fastforce
  then have "cl' = c" using assms by (cases r) (auto simp: sendClientDiff_def)
  then show ?thesis using snd.out_sent [OF s] by (auto simp: no_job_sent_def notify_def split: if_splits)
qed

lemma writeSV2Frame_no_job:
  assumes "writeSV2Frame ext mt p cl = (r, cl')"
  shows "no_job_sent cl cl'"
proof (cases "encodeSV2Frame ext mt p")
  case (Inl err)
  then show ?thesis using assms by (simp add: writeSV2Frame_def no_job_sent_refl)
next
  case (Inr bs)
  then have "WriteRaw bs cl = (r, cl')" using assms by (simp add: writeSV2Frame_def)
  from raw.out_sent [OF this] show ?thesis by (auto simp: no_job_sent_def notify_def split: if_splits)
qed

lemma sv2SendFailed_no_job: "sent (fst (sv2SendFailed err code cl sh)) = sent cl"
  by (auto simp: sv2SendFailed_def Disconnect_def Let_def split: option.splits bool.splits)

lemma initClient_no_job: "initClient now solo minDiff cl sh = Some (cl', sh') \<Longrightarrow> no_job_sent cl cl'"
proof -
  assume a: "initClient now solo minDiff cl sh = Some (cl', sh')"
  then obtain new ms where i: "InitializeIfNeeded (RemoteApp cl) minDiff (State cl) = Some (new, ms)"
    by (auto simp: initClient_def split: option.splits)
  have s: "no_job_sent cl (cl\<lparr>State := ms\<rparr>)" by (rule no_job_sent_refl) simp
  show ?thesis
    using a s by (auto simp: initClient_def i Let_def split: if_splits
        dest!: sendClientDiff_no_job intro: no_job_sent_trans)
qed

lemma changeDiff_no_job: "changeDiff now d cl sh = Some (on, cl', sh') \<Longrightarrow> no_job_sent cl cl'"
proof -
  assume a: "changeDiff now d cl sh = Some (on, cl', sh')"
  then obtain old ms where i: "SetStratumDiff d (State cl) = Some (old, ms)"
    by (auto simp: changeDiff_def split: option.splits)
  have s: "no_job_sent cl (cl\<lparr>State := ms\<rparr>)" by (rule no_job_sent_refl) simp
  show ?thesis
  proof (cases "IsSV2 (cl\<lparr>State := ms\<rparr>)")
    case True
    then obtain r c where w: "sendSV2Target d (cl\<lparr>State := ms\<rparr>) = Some (r, c)"
      using a by (auto simp: changeDiff_def i Let_def split: option.splits)
    then have "no_job_sent (cl\<lparr>State := ms\<rparr>) c"
      by (auto simp: sendSV2Target_def split: option.splits dest: writeSV2Frame_no_job)
    moreover have "no_job_sent c cl'"
      using a True w sv2SendFailed_no_job [of _ ErrFailedSetDiff c sh]
      by (cases r) (auto simp: changeDiff_def i Let_def intro!: no_job_sent_refl dest: arg_cong [of _ _ "\<lambda>p. sent (fst p)"])
    ultimately show ?thesis using s by (blast intro: no_job_sent_trans)
  next
    case False
    then show ?thesis
      using a s by (auto simp: changeDiff_def i Let_def split: prod.splits
          dest!: sendClientDiff_no_job intro: no_job_sent_trans)
  qed
qed

lemma adjustDiff_no_job: "adjustDiff now solo minDiff netDiff cl sh = Some (on, cl', sh') \<Longrightarrow> no_job_sent cl cl'"
  by (auto simp: adjustDiff_def split: option.splits prod.splits if_splits
      dest!: initClient_no_job changeDiff_no_job intro: no_job_sent_trans)

text \<open>The end of the goroutine for a Stratum V1 client.\<close>

lemma sendJob_notify:
  assumes "sendJob addr b header cl sh = Some (cl', sh')" and "\<not> IsSV2 cl"
  shows "\<exists>ps r c. jobParams (GetUseBigJob (State cl)) (jobCounter (State cl) + 1) header (Timestamp (Header b)) = Some ps
    \<and> Send \<lparr>eventId = AInt (jobCounter (State cl) + 1), jsonrpc = ''2.0'', Method = ''mining.notify'', Params = ps\<rparr>
        (cl\<lparr>State := snd (AddJob b (State cl))\<rparr>) = (r, c)
    \<and> sent cl' = sent c \<and> State cl' = State c \<and> (r \<noteq> Some ErrorDisconnected \<longrightarrow> WalletAddr cl' = addr)"
proof -
  let ?i = "jobCounter (State cl) + 1"
  obtain ms where a: "AddJob b (State cl) = (?i, ms)" "GetUseBigJob ms = GetUseBigJob (State cl)"
    by (auto simp: AddJob_def GetUseBigJob_def Let_def)
  obtain ps where ps: "jobParams (GetUseBigJob (State cl)) ?i header (Timestamp (Header b)) = Some ps"
    using assms by (auto simp: sendJob_def a IsSV2_def Let_def split: option.splits)
  obtain r c where s: "Send \<lparr>eventId = AInt ?i, jsonrpc = ''2.0'', Method = ''mining.notify'', Params = ps\<rparr>
        (cl\<lparr>State := ms\<rparr>) = (r, c)" by fastforce
  have "sent cl' = sent c \<and> State cl' = State c \<and> (r \<noteq> Some ErrorDisconnected \<longrightarrow> WalletAddr cl' = addr)"
    using assms by (cases r) (auto simp: sendJob_def a ps s IsSV2_def Let_def split: if_splits)
  with ps s a show ?thesis by simp
qed

lemma sv2_job_frames:
  assumes "sendJob addr b header cl sh = Some (cl', sh')" and "IsSV2 cl"
  shows "\<exists>ws. sent cl' = sent cl @ ws \<and> (\<forall>w\<in>set ws. \<not> notify w)"
proof -
  obtain i ms where a: "AddJob b (State cl) = (i, ms)" by fastforce
  obtain r c where w: "sendSV2Job (word_of_int i) header (Version (Header b)) (Timestamp (Header b))
      (Bits (Header b)) (cl\<lparr>State := ms\<rparr>) = (r, c)" by fastforce
  have "no_job_sent (cl\<lparr>State := ms\<rparr>) c"
    using w by (auto simp: sendSV2Job_def Let_def split: sum.splits prod.splits option.splits
        dest!: writeSV2Frame_no_job intro: no_job_sent_trans no_job_sent_refl)
  moreover have "sent cl' = sent c"
    using assms w sv2SendFailed_no_job [of _ ErrFailedSendWork c sh]
    by (cases r) (auto simp: sendJob_def a IsSV2_def Let_def dest: arg_cong [of _ _ "\<lambda>p. sent (fst p)"])
  ultimately show ?thesis by (simp add: no_job_sent_def)
qed

definition same_jobs :: "'tx client \<Rightarrow> 'tx client \<Rightarrow> bool" where
  "same_jobs cl cl' \<longleftrightarrow> Jobs (State cl') = Jobs (State cl) \<and> jobCounter (State cl') = jobCounter (State cl)"

lemma same_jobs_trans: "same_jobs a b \<Longrightarrow> same_jobs b c \<Longrightarrow> same_jobs a c"
  by (simp add: same_jobs_def)

lemma same_client_jobs: "same_client a b \<Longrightarrow> same_jobs a b"
  by (simp add: same_jobs_def handler)

lemma initClient_jobs:
  assumes "initClient now solo minDiff cl sh = Some (cl', sh')"
  shows "same_jobs cl cl'"
proof -
  obtain new ms where i: "InitializeIfNeeded (RemoteApp cl) minDiff (State cl) = Some (new, ms)"
    using assms by (auto simp: initClient_def split: option.splits)
  have s: "same_jobs cl (cl\<lparr>State := ms\<rparr>)" using InitializeIfNeeded_jobs [OF i] by (simp add: same_jobs_def)
  show ?thesis
    using assms s by (auto simp: initClient_def i Let_def split: if_splits
        dest!: sendClientDiff_frame(1) same_client_jobs intro: same_jobs_trans)
qed

lemma changeDiff_jobs:
  assumes "changeDiff now d cl sh = Some (on, cl', sh')"
  shows "same_jobs cl cl'"
proof -
  obtain old ms where i: "SetStratumDiff d (State cl) = Some (old, ms)"
    using assms by (auto simp: changeDiff_def split: option.splits)
  let ?cl = "cl\<lparr>State := ms\<rparr>"
  have s: "same_jobs cl ?cl" using SetStratumDiff_jobs [OF i] by (simp add: same_jobs_def)
  have failed: "State (fst (sv2SendFailed err ErrFailedSetDiff c sh)) = State c" for err and c :: "'a client"
    by (auto simp: sv2SendFailed_def Disconnect_def Let_def split: option.splits bool.splits)
  show ?thesis
  proof (cases "IsSV2 ?cl")
    case True
    then obtain r c where w: "sendSV2Target d ?cl = Some (r, c)"
      using assms by (auto simp: changeDiff_def i Let_def split: option.splits)
    then have "same_jobs ?cl c"
      by (auto simp: sendSV2Target_def split: option.splits dest: writeSV2Frame_client same_client_jobs)
    moreover have "State cl' = State c"
      using assms True w failed [of _ c]
      by (cases r) (auto simp: changeDiff_def i Let_def dest: arg_cong [of _ _ "\<lambda>p. State (fst p)"])
    ultimately show ?thesis using s by (simp add: same_jobs_def)
  next
    case False
    then show ?thesis
      using assms s by (auto simp: changeDiff_def i Let_def split: prod.splits
          dest!: sendClientDiff_frame(1) same_client_jobs intro: same_jobs_trans)
  qed
qed

lemma adjustDiff_jobs: "adjustDiff now solo minDiff netDiff cl sh = Some (on, cl', sh') \<Longrightarrow> same_jobs cl cl'"
  by (auto simp: adjustDiff_def split: option.splits prod.splits if_splits
      dest!: initClient_jobs changeDiff_jobs intro: same_jobs_trans)

text \<open>How a goroutine that got the template and the hash goes on.\<close>

lemma newJob_template:
  assumes "newJob now api solo minDiff cl sh = Some (cl', sh')"
  shows "no_job_sent cl cl' \<or> (\<exists>b header cl1 sh1. GetBlockTemplate api cl = Inr b
    \<and> SerializeBlockHeader (blake2b api) b = Inr header \<and> no_job_sent cl cl1 \<and> same_jobs cl cl1
    \<and> sendJob (WalletAddr cl) b header cl1 sh1 = Some (cl', sh'))"
proof (cases "GetBlockTemplate api cl")
  case (Inl err)
  have "sent (fst (templateFailed err cl sh')) = sent cl" for sh'
    by (auto simp: templateFailed_def Disconnect_def Let_def split: option.splits bool.splits)
  then show ?thesis
    using assms Inl by (auto simp: newJob_def Let_def intro!: no_job_sent_refl
        dest: arg_cong [of _ _ "\<lambda>p. sent (fst p)"])
next
  case (Inr b)
  obtain netDiff ms where n: "SetNetworkTarget (ucast (Bits (Header b))) (State cl) = (netDiff, ms)" by fastforce
  let ?cl = "cl\<lparr>State := ms\<rparr>"
  have s: "no_job_sent cl ?cl" "same_jobs cl ?cl"
    using n by (auto simp: same_jobs_def SetNetworkTarget_def Let_def intro: no_job_sent_refl)
  show ?thesis
  proof (cases "SerializeBlockHeader (blake2b api) b")
    case (Inl err)
    then show ?thesis using assms Inr n s by (auto simp: newJob_def Let_def)
  next
    case header: (Inr header)
    obtain on cl1 sh1 where a: "adjustDiff now solo minDiff netDiff ?cl (snd (getCreateStats now cl sh)) = Some (on, cl1, sh1)"
      using assms Inr n header by (auto simp: newJob_def Let_def split: option.splits)
    have "no_job_sent cl cl1" "same_jobs cl cl1"
      using s adjustDiff_no_job [OF a] adjustDiff_jobs [OF a]
      by (blast intro: no_job_sent_trans, blast intro: same_jobs_trans)
    then show ?thesis
      using assms Inr n header a by (cases on) (auto simp: newJob_def Let_def)
  qed
qed

lemma no_job_sent_drop:
  "no_job_sent a b \<Longrightarrow> w \<in> set (drop (length (sent a)) (sent b @ ws)) \<Longrightarrow> notify w \<Longrightarrow> w \<in> set ws"
  by (auto simp: no_job_sent_def)

text \<open>
  C13: a job that a Stratum V1 miner is sent carries a new number, the template the node made for
  this miner and its hash; whatever else the goroutine did, a share that quotes the text of the
  number is looked up to exactly that template.
\<close>

theorem newJob_notifies:
  assumes "newJob now api solo minDiff cl sh = Some (cl', sh')" and "0 \<le> jobCounter (State cl)"
    and "jobCounter (State cl) < 2 ^ 62"
    and "w \<in> set (drop (length (sent cl)) (sent cl'))" and "notify w"
  shows "\<exists>b header ps. GetBlockTemplate api cl = Inr b
    \<and> SerializeBlockHeader (blake2b api) b = Inr header
    \<and> jobParams (GetUseBigJob (State cl')) (jobCounter (State cl) + 1) header (Timestamp (Header b)) = Some ps
    \<and> w = WEvent \<lparr>eventId = AInt (jobCounter (State cl) + 1), jsonrpc = ''2.0'', Method = ''mining.notify'', Params = ps\<rparr>
    \<and> validateSubmit cl' \<lparr>eventId = i, jsonrpc = v, Method = m, Params = [user, hd ps, AStr nonce]\<rparr>
      = ([], Inr \<lparr>block = b, jobID = jobCounter (State cl) + 1, noncestr = remove_first ''0x'' nonce, nonceVal = 0\<rparr>)"
proof -
  let ?i = "jobCounter (State cl) + 1"
  have "\<not> no_job_sent cl cl'" using assms(4,5) by (auto simp: no_job_sent_def)
  then obtain b header cl1 sh1 where b: "GetBlockTemplate api cl = Inr b"
    "SerializeBlockHeader (blake2b api) b = Inr header" "no_job_sent cl cl1" "same_jobs cl cl1"
    "sendJob (WalletAddr cl) b header cl1 sh1 = Some (cl', sh')"
    using newJob_template [OF assms(1)] by blast
  have i: "jobCounter (State cl1) + 1 = ?i" using b(4) by (simp add: same_jobs_def)
  have "\<not> IsSV2 cl1"
  proof
    assume "IsSV2 cl1"
    from sv2_job_frames [OF b(5) this] obtain ws where ws: "sent cl' = sent cl1 @ ws" "\<forall>w\<in>set ws. \<not> notify w"
      by blast
    with no_job_sent_drop [OF b(3) _ assms(5), of ws] assms(4,5) show False by simp
  qed
  from sendJob_notify [OF b(5) this] obtain ps r c where ps:
    "jobParams (GetUseBigJob (State cl1)) ?i header (Timestamp (Header b)) = Some ps"
    and snd: "Send \<lparr>eventId = AInt ?i, jsonrpc = ''2.0'', Method = ''mining.notify'', Params = ps\<rparr>
        (cl1\<lparr>State := snd (AddJob b (State cl1))\<rparr>) = (r, c)"
    and c: "sent cl' = sent c" "State cl' = State c"
    unfolding i by blast
  let ?e = "WEvent \<lparr>eventId = AInt ?i, jsonrpc = ''2.0'', Method = ''mining.notify'', Params = ps\<rparr>"
  have s: "sent cl' = sent cl1 @ (if r = None then [?e] else [])"
    using snd.out_sent [OF snd] c by simp
  have "w \<in> set (if r = None then [?e] else [])"
    by (rule no_job_sent_drop [OF b(3) _ assms(5)]) (use assms(4) in \<open>simp only: s\<close>)
  then have w: "w = ?e" by (cases "r = None") simp_all
  have st: "State cl' = snd (AddJob b (State cl1))"
    using snd.out_client [OF snd] c by (simp add: handler)
  have hd: "hd ps = AStr (fmt_dec ?i)" and big: "GetUseBigJob (State cl') = GetUseBigJob (State cl1)"
    using ps by (auto simp: jobParams_def st AddJob_def GetUseBigJob_def Let_def split: if_splits option.splits)
  have "GetJob (State cl') ?i = Some b"
    using GetJob_AddJob [of "State cl1" b] assms(2) b(4) by (simp add: st same_jobs_def AddJob_def Let_def)
  moreover have "parse_int (fmt_dec ?i) = Some ?i" using assms(2,3) by (intro parse_int_fmt_dec) simp
  ultimately have valid: "validateSubmit cl' \<lparr>eventId = i, jsonrpc = v, Method = m, Params = [user, hd ps, AStr nonce]\<rparr>
      = ([], Inr \<lparr>block = b, jobID = ?i, noncestr = remove_first ''0x'' nonce, nonceVal = 0\<rparr>)"
    by (simp add: validateSubmit_def hd Let_def numeral_2_eq_2)
  have "jobParams (GetUseBigJob (State cl')) ?i header (Timestamp (Header b)) = Some ps"
    using ps big by simp
  with valid b(1,2) w show ?thesis by blast
qed

lemma Send_quiet:
  assumes "\<not> disconnecting cl" and "net cl = []" and "event_ok e"
  shows "Send e cl = (None, cl\<lparr>sent := sent cl @ [WEvent e]\<rparr>)"
  using assms by (simp add: Send_def writeWithBackoff_def numeral_3_eq_3 write_data_def checkDisconnect_def Let_def)

definition sample_api :: "unit kapi" where
  "sample_api = \<lparr>nodeTemplate = (\<lambda>_ _. Inr sample_block), blake2b = (\<lambda>_ _. Some (\<lambda>_. replicate 32 0)),
     nodeBalances = (\<lambda>_. Inl ''none'')\<rparr>"

lemma sample_shares_ok: "shares_ok newShareHandler"
  by (simp add: shares_ok_def books_ok_new)
    (simp add: windows_ok_def newShareHandler_def newWorkStats_def histories_ok_def history_ok_new hist_def
      worker_diffs_def)

lemma sample_job:
  "\<exists>cl' sh' w. newJob 5 sample_api False (Fin 1) sample_miner newShareHandler = Some (cl', sh')
     \<and> sent cl' = [w] \<and> notify w"
proof -
  obtain netDiff ms where n: "SetNetworkTarget (ucast (Bits sample_header)) sample_mining = (netDiff, ms)" by fastforce
  then have ms: "ms = sample_mining\<lparr>bigDiff := CalculateTarget (ucast (Bits sample_header))\<rparr>"
    by (simp add: SetNetworkTarget_def Let_def)
  define cl where "cl = sample_miner\<lparr>State := ms\<rparr>"
  have cl: "IsSV2 cl = False" "\<not> disconnecting cl" "net cl = []" "sent cl = []" "jobCounter (State cl) = 1"
    by (simp_all add: cl_def sample_miner_def IsSV2_def ms sample_mining_def)
  obtain r sh1 where g: "getCreateStats 5 sample_miner newShareHandler = (r, sh1)" by fastforce
  have key: "workerStatsKey cl = workerStatsKey sample_miner" "workerStatsDisplayName cl = workerStatsDisplayName sample_miner"
    by (simp_all add: workerStatsKey_def workerStatsDisplayName_def cl_def)
  have "MinDiff (heap sh1 r) = 0"
    using g by (auto simp: getCreateStats_def newShareHandler_def newWorkStats_def Let_def split: if_splits)
  moreover have "getCreateStats 5 cl (setSoloDiff netDiff sh1) = (r, setSoloDiff netDiff sh1)"
    using getCreateStats_frame(1,2) [OF g] by (intro getCreateStats_again) (simp_all add: key setSoloDiff_def)
  ultimately have "getClientVardiff 5 cl (setSoloDiff netDiff sh1) = (0, setSoloDiff netDiff sh1)"
    by (simp add: getClientVardiff_def setSoloDiff_def)
  then have a: "adjustDiff 5 False (Fin 1) netDiff cl sh1 = Some (True, cl, setSoloDiff netDiff sh1)"
    by (simp add: adjustDiff_def initClient_def InitializeIfNeeded_def cl_def ms sample_mining_def
        chooseDiff_def GetStratumDiffValue_def f64_eq_def zero_f64_def one_f64_def Let_def)
  have "mining_ok (State cl)" by (simp add: cl_def ms mining_ok_def sample_mining_def diff_ok_def one_f64_def)
  moreover have "shares_ok (setSoloDiff netDiff sh1)"
    using getCreateStats_shares [OF sample_shares_ok, of 5 sample_miner] g by simp
  ultimately obtain cl' sh' where job: "sendJob (WalletAddr sample_miner) sample_block (replicate 32 0) cl
      (setSoloDiff netDiff sh1) = Some (cl', sh')"
    using sendJob_runs [of cl "setSoloDiff netDiff sh1" "replicate 32 0" "WalletAddr sample_miner" sample_block] by auto
  then obtain ps r c where ps: "jobParams (GetUseBigJob (State cl)) (1 + 1) (replicate 32 0)
      (Timestamp (Header sample_block)) = Some ps"
    and snd: "Send \<lparr>eventId = AInt (1 + 1), jsonrpc = ''2.0'', Method = ''mining.notify'', Params = ps\<rparr>
      (cl\<lparr>State := snd (AddJob sample_block (State cl))\<rparr>) = (r, c)" and c: "sent cl' = sent c"
    using sendJob_notify [OF job] cl by auto
  let ?e = "\<lparr>eventId = AInt (1 + 1), jsonrpc = ''2.0'', Method = ''mining.notify'', Params = ps\<rparr>"
  have "list_all marshal_ok ps"
    using ps by (auto simp: jobParams_def list_all_iff split: option.splits if_splits)
  then have "event_ok ?e" by (simp add: event_ok_def)
  with snd cl have "sent c = [WEvent ?e]" by (auto simp: Send_quiet)
  with c job have "\<exists>cl' sh' w. sendJob (WalletAddr sample_miner) sample_block (replicate 32 0) cl
      (setSoloDiff netDiff sh1) = Some (cl', sh') \<and> sent cl' = [w] \<and> notify w"
    by (auto simp: notify_def)
  then show ?thesis
    using a n g by (simp add: newJob_def GetBlockTemplate_def sample_api_def SerializeBlockHeader_def sample_block_def
        Let_def cl_def sample_miner_def)
qed

theorem newJob_notifies_witness:
  "\<exists>cl' sh' b header ps. newJob 5 sample_api False (Fin 1) sample_miner newShareHandler = Some (cl', sh')
     \<and> GetBlockTemplate sample_api sample_miner = Inr b
     \<and> jobParams (GetUseBigJob (State cl')) 2 header (Timestamp (Header b)) = Some ps
     \<and> validateSubmit cl' \<lparr>eventId = AInt 1, jsonrpc = ''2.0'', Method = ''mining.submit'',
          Params = [AStr ''rig'', hd ps, AStr ''ff'']\<rparr>
       = ([], Inr \<lparr>block = b, jobID = 2, noncestr = remove_first ''0x'' ''ff'', nonceVal = 0\<rparr>)"
proof -
  obtain cl' sh' w where j: "newJob 5 sample_api False (Fin 1) sample_miner newShareHandler = Some (cl', sh')"
    and w: "sent cl' = [w]" "notify w" using sample_job by blast
  have "sent sample_miner = []" "jobCounter (State sample_miner) = 1"
    by (simp_all add: sample_miner_def sample_mining_def)
  with newJob_notifies [OF j, of w "AInt 1" "''2.0''" "''mining.submit''" "AStr ''rig''" "''ff''"] w
  have "\<exists>b header ps. GetBlockTemplate sample_api sample_miner = Inr b
     \<and> jobParams (GetUseBigJob (State cl')) 2 header (Timestamp (Header b)) = Some ps
     \<and> validateSubmit cl' \<lparr>eventId = AInt 1, jsonrpc = ''2.0'', Method = ''mining.submit'',
          Params = [AStr ''rig'', hd ps, AStr ''ff'']\<rparr>
       = ([], Inr \<lparr>block = b, jobID = 2, noncestr = remove_first ''0x'' ''ff'', nonceVal = 0\<rparr>)"
    by simp blast
  with j show ?thesis by blast
qed

subsection \<open>The difficulty a miner knows\<close>

text \<open>The last difficulty a Stratum V1 miner was told.\<close>

definition told :: "wire \<Rightarrow> f64 option" where
  "told w = (case w of WEvent e \<Rightarrow> (if Method e = ''mining.set_difficulty''
       then (case Params e of AFloat d # _ \<Rightarrow> Some d | _ \<Rightarrow> None) else None) | _ \<Rightarrow> None)"

definition announced :: "wire list \<Rightarrow> f64 option" where
  "announced ws = fold (\<lambda>w acc. case told w of None \<Rightarrow> acc | d \<Rightarrow> d) ws None"

definition agrees :: "'tx client \<Rightarrow> bool" where
  "agrees cl \<longleftrightarrow> (initialized (State cl) \<longrightarrow> announced (sent cl) = Some (GetStratumDiffValue (State cl)))"

lemma announced_snoc:
  "announced (ws @ [w]) = (case told w of None \<Rightarrow> announced ws | d \<Rightarrow> d)"
  by (simp add: announced_def split: option.split)

fun finite_f64 :: "f64 \<Rightarrow> bool" where
  "finite_f64 (Fin q) = True"
| "finite_f64 _ = False"

lemma finite_f64_E: "finite_f64 d \<Longrightarrow> (\<And>q. d = Fin q \<Longrightarrow> P) \<Longrightarrow> P"
  by (cases d) auto

text \<open>A connection on which every write succeeds.\<close>

definition healthy :: "'tx client \<Rightarrow> bool" where
  "healthy cl \<longleftrightarrow> \<not> disconnecting cl \<and> net cl = [] \<and> \<not> IsSV2 cl"

lemma sendClientDiff_quiet:
  assumes "healthy cl" and "finite_f64 d"
  shows "\<exists>w. sendClientDiff d cl sh = (cl\<lparr>sent := sent cl @ [w]\<rparr>, sh) \<and> told w = Some d"
proof -
  let ?e = "\<lparr>eventId = ANil, jsonrpc = ''2.0'', Method = ''mining.set_difficulty'', Params = [AFloat d]\<rparr>"
  have "event_ok ?e" using assms(2) by (cases d) (simp_all add: event_ok_def)
  then show ?thesis
    using assms(1) by (intro exI [of _ "WEvent ?e"]) (simp add: sendClientDiff_def Send_quiet healthy_def told_def)
qed

lemma finite_min_client_diff: "finite_f64 min_client_diff"
proof -
  have "f64_ok (Fin 1)" "f64_ok (Fin 0)"
    using to_f64_ok [of 1] to_f64_ok [of 0] f64_eval_int [of 1 1] by simp_all
  then have "f64_le (Fin 0) min_client_diff" "f64_le min_client_diff (Fin 1)"
    unfolding min_client_diff_def by (intro to_f64_ge to_f64_le; simp)+
  moreover have "finite_f64 d" if "f64_le (Fin 0) d" "f64_le d (Fin 1)" for d
    using that by (cases d) simp_all
  ultimately show ?thesis by blast
qed

lemma SetStratumDiff_value:
  "SetStratumDiff d ms = Some (old, ms') \<Longrightarrow> GetStratumDiffValue ms' = d \<and> initialized ms' = initialized ms"
  by (auto simp: SetStratumDiff_def GetStratumDiffValue_def setDiffValue_def Let_def split: option.splits)

lemma InitializeIfNeeded_value:
  "InitializeIfNeeded app d ms = Some (b, ms') \<Longrightarrow> initialized ms' \<and> (b = (\<not> initialized ms))
     \<and> (if b then GetStratumDiffValue ms' = d else ms' = ms)"
  by (auto simp: InitializeIfNeeded_def GetStratumDiffValue_def setDiffValue_def split: if_splits option.splits)

lemma initClient_agrees:
  assumes "initClient now False minDiff cl sh = Some (cl', sh')" and "healthy cl" and "agrees cl"
    and "finite_f64 minDiff" and "worker_diffs finite_f64 sh"
  shows "agrees cl'" and "initialized (State cl')" and "healthy cl'" and "worker_diffs finite_f64 sh'"
    and "finite_f64 (GetStratumDiffValue (State cl)) \<or> \<not> initialized (State cl) \<Longrightarrow> finite_f64 (GetStratumDiffValue (State cl'))"
proof -
  obtain new ms where i: "InitializeIfNeeded (RemoteApp cl) minDiff (State cl) = Some (new, ms)"
    using assms by (auto simp: initClient_def split: option.splits)
  note ms = InitializeIfNeeded_value [OF i]
  let ?cl = "cl\<lparr>State := ms\<rparr>"
  let ?sh = "snd (setClientVardiff now ?cl minDiff sh)"
  have h: "healthy ?cl" using assms(2) by (simp add: healthy_def IsSV2_def)
  have "finite_f64 (f64_max minDiff min_client_diff)"
    using assms(4) finite_min_client_diff by (auto simp: f64_max_def elim!: finite_f64_E)
  then have sh: "worker_diffs finite_f64 ?sh"
    using assms(5) by (intro setClientVardiff_diffs) (simp_all add: zero_f64_def)
  obtain w where w: "sendClientDiff minDiff ?cl ?sh = (?cl\<lparr>sent := sent ?cl @ [w]\<rparr>, ?sh)" "told w = Some minDiff"
    using sendClientDiff_quiet [OF h assms(4)] by blast
  have res: "(cl', sh') = (if new then (?cl\<lparr>sent := sent cl @ [w]\<rparr>, ?sh) else (?cl, sh))"
    using assms(1) h w(1) by (simp add: initClient_def i Let_def healthy_def split: if_splits)
  then show "agrees cl'" "initialized (State cl')" "healthy cl'" "worker_diffs finite_f64 sh'"
    "finite_f64 (GetStratumDiffValue (State cl)) \<or> \<not> initialized (State cl) \<Longrightarrow> finite_f64 (GetStratumDiffValue (State cl'))"
    using ms w(2) assms(3,4,5) h sh
    by (auto simp: agrees_def announced_snoc healthy_def IsSV2_def split: if_splits)
qed

lemma chooseDiff_finite:
  assumes "chooseDiff now False netDiff cl sh = (d, sh')" and "worker_diffs finite_f64 sh"
    and "finite_f64 (GetStratumDiffValue (State cl))"
  shows "finite_f64 d"
proof -
  obtain vd sh1 where vd: "getClientVardiff now cl (setSoloDiff netDiff sh) = (vd, sh1)" by fastforce
  obtain r sh2 where g: "getCreateStats now cl (setSoloDiff netDiff sh) = (r, sh2)" by fastforce
  have "worker_diffs finite_f64 sh2"
    using assms(2) by (intro getCreateStats_diffs [OF _ _ g]) (simp_all add: zero_f64_def)
  then have "finite_f64 vd" using vd by (auto simp: getClientVardiff_def g worker_diffs_def)
  then show ?thesis using assms vd by (auto simp: chooseDiff_def Let_def split: if_splits)
qed

lemma changeDiff_agrees:
  assumes "changeDiff now d cl sh = Some (on, cl', sh')" and "healthy cl" and "finite_f64 d"
  shows "agrees cl'" and "healthy cl'" and "GetStratumDiffValue (State cl') = d"
proof -
  obtain old ms where i: "SetStratumDiff d (State cl) = Some (old, ms)"
    using assms by (auto simp: changeDiff_def split: option.splits)
  let ?cl = "cl\<lparr>State := ms\<rparr>"
  have h: "healthy ?cl" using assms(2) by (simp add: healthy_def IsSV2_def)
  obtain w where w: "sendClientDiff d ?cl sh = (?cl\<lparr>sent := sent ?cl @ [w]\<rparr>, sh)" "told w = Some d"
    using sendClientDiff_quiet [OF h assms(3)] by blast
  have "cl' = ?cl\<lparr>sent := sent cl @ [w]\<rparr>"
    using assms(1) h w(1) by (simp add: changeDiff_def i Let_def healthy_def)
  then show "agrees cl'" "healthy cl'" "GetStratumDiffValue (State cl') = d"
    using SetStratumDiff_value [OF i] w(2) h by (simp_all add: agrees_def announced_snoc healthy_def IsSV2_def)
qed

text \<open>
  C10: the share difficulty that the bridge judges a pool miner's shares by is the last one the miner was told, as
  long as its job goroutines run one after the other on a Stratum V1 connection on which every write succeeds,
  and all difficulties are finite: if this holds before a job goroutine runs, it holds after it, whichever of the
  difficulties changed. What goroutines that overlap and writes that fail can do is the matter of \<^verbatim>\<open>JobRaces\<close>.
\<close>

theorem difficulty_agrees:
  assumes "newJob now api False minDiff cl sh = Some (cl', sh')" and "healthy cl" and "agrees cl"
    and "finite_f64 minDiff" and "worker_diffs finite_f64 sh"
    and "initialized (State cl) \<longrightarrow> finite_f64 (GetStratumDiffValue (State cl))"
  shows "agrees cl'"
proof (cases "GetBlockTemplate api cl")
  case (Inl err)
  have "sent c = sent cl \<and> State c = State cl" if "templateFailed err cl s = (c, s')" for s c s'
    using that by (auto simp: templateFailed_def Disconnect_def Let_def split: if_splits option.splits bool.splits)
  then show ?thesis using assms(1,3) Inl by (auto simp: newJob_def agrees_def Let_def)
next
  case (Inr b)
  obtain netDiff ms where n: "SetNetworkTarget (ucast (Bits (Header b))) (State cl) = (netDiff, ms)" by fastforce
  let ?cl = "cl\<lparr>State := ms\<rparr>" and ?sh = "snd (getCreateStats now cl sh)"
  have ms: "initialized ms = initialized (State cl)" "GetStratumDiffValue ms = GetStratumDiffValue (State cl)"
    using n by (auto simp: SetNetworkTarget_def GetStratumDiffValue_def Let_def)
  then have cl: "healthy ?cl" "agrees ?cl" using assms(2,3) by (auto simp: healthy_def agrees_def IsSV2_def)
  have sh: "worker_diffs finite_f64 ?sh"
    using getCreateStats_diffs [OF assms(5), of now cl] by (cases "getCreateStats now cl sh") (simp add: zero_f64_def)
  show ?thesis
  proof (cases "SerializeBlockHeader (blake2b api) b")
    case (Inl err)
    then show ?thesis using assms(1) Inr n cl by (simp add: newJob_def Let_def)
  next
    case header: (Inr header)
    obtain on cl1 sh1 where a: "adjustDiff now False minDiff netDiff ?cl ?sh = Some (on, cl1, sh1)"
      using assms(1) Inr n header by (auto simp: newJob_def Let_def split: option.splits)
    then obtain cl0 sh0 where i: "initClient now False minDiff ?cl ?sh = Some (cl0, sh0)"
      by (auto simp: adjustDiff_def split: option.splits)
    note i' = initClient_agrees [OF i cl assms(4) sh]
    obtain d sh2 where c: "chooseDiff now False netDiff cl0 sh0 = (d, sh2)" by fastforce
    have d: "finite_f64 d" using chooseDiff_finite [OF c i'(4)] i'(5) assms(6) ms by auto
    have cl1: "agrees cl1 \<and> healthy cl1"
      using a i' changeDiff_agrees(1,2) [OF _ i'(3) d] by (auto simp: adjustDiff_def i c split: if_splits)
    show ?thesis
    proof (cases on)
      case False
      then show ?thesis using assms(1) Inr n header a cl1 by (simp add: newJob_def Let_def)
    next
      case True
      then have "sendJob (WalletAddr cl) b header cl1 sh1 = Some (cl', sh')"
        using assms(1) Inr n header a by (simp add: newJob_def Let_def)
      from sendJob_notify [OF this] cl1 obtain ps r c where
        snd: "Send \<lparr>eventId = AInt (jobCounter (State cl1) + 1), jsonrpc = ''2.0'', Method = ''mining.notify'', Params = ps\<rparr>
          (cl1\<lparr>State := snd (AddJob b (State cl1))\<rparr>) = (r, c)"
        and c: "sent cl' = sent c" "State cl' = State c" by (auto simp: healthy_def)
      have "State cl' = snd (AddJob b (State cl1))" using snd.out_client [OF snd] c by (simp add: handler)
      then have "initialized (State cl') = initialized (State cl1)"
        "GetStratumDiffValue (State cl') = GetStratumDiffValue (State cl1)"
        by (simp_all add: AddJob_def GetStratumDiffValue_def Let_def)
      moreover have "announced (sent cl') = announced (sent cl1)"
        using snd.out_sent [OF snd] c by (simp add: announced_snoc told_def)
      ultimately show ?thesis using cl1 by (simp add: agrees_def)
    qed
  qed
qed

definition fresh_miner :: "unit client" where
  "fresh_miner = sample_miner\<lparr>State := MiningStateGenerator 0\<rparr>"

theorem difficulty_agrees_witness:
  "\<exists>cl' sh'. newJob 5 sample_api False (Fin 1) fresh_miner newShareHandler = Some (cl', sh') \<and> agrees cl'"
proof -
  have "hashes_32 (blake2b sample_api)" by (simp add: hashes_32_def sample_api_def)
  moreover have m: "mining_ok (State fresh_miner)" by (simp add: fresh_miner_def MiningStateGenerator_ok)
  moreover have "diff_ok (Fin 1)" by (simp add: diff_ok_def)
  ultimately obtain cl' sh' where j: "newJob 5 sample_api False (Fin 1) fresh_miner newShareHandler = Some (cl', sh')"
    using newJob_runs [OF _ sample_shares_ok] by metis
  have f: "healthy fresh_miner" "\<not> initialized (State fresh_miner)"
    by (simp_all add: healthy_def fresh_miner_def sample_miner_def IsSV2_def MiningStateGenerator_def)
  have "worker_diffs finite_f64 newShareHandler"
    by (simp add: worker_diffs_def newShareHandler_def newWorkStats_def zero_f64_def)
  with difficulty_agrees [OF j f(1)] f(2) j show ?thesis by (auto simp: agrees_def)
qed

subsection \<open>Who gets which extranonce\<close>

text \<open>What happens to the listener's map over time.\<close>

datatype 'st lifecycle = Arrives nat "'st StratumContext" | Leaves "'st StratumContext"

fun lifecycle_step :: "shareHandler \<Rightarrow> 'st lifecycle \<Rightarrow> clientListener \<Rightarrow> clientListener" where
  "lifecycle_step sh (Arrives ref ctx) c = snd (OnConnect ref ctx c)"
| "lifecycle_step sh (Leaves ctx) c = fst (OnDisconnect ctx c sh)"

fun arrivals :: "'st lifecycle list \<Rightarrow> nat" where
  "arrivals [] = 0"
| "arrivals (Arrives ref ctx # evs) = Suc (arrivals evs)"
| "arrivals (Leaves ctx # evs) = arrivals evs"

lemma extranonceLimit_eq: "0 < sz \<Longrightarrow> sz \<le> 3 \<Longrightarrow> extranonceLimit sz = 256 ^ nat sz - 1"
proof -
  assume "0 < sz" "sz \<le> 3"
  then consider "sz = 1" | "sz = 2" | "sz = 3" by linarith
  moreover have "to_f64 256 = Fin 256" "to_f64 65536 = Fin 65536" "to_f64 16777216 = Fin 16777216"
    "to_f64 255 = Fin 255" "to_f64 65535 = Fin 65535" "to_f64 16777215 = Fin 16777215"
    using f64_eval_int [of 256 256] f64_eval_int [of 65536 65536] f64_eval_int [of 16777216 16777216]
      f64_eval_int [of 255 255] f64_eval_int [of 65535 65535] f64_eval_int [of 16777215 16777215] by simp_all
  ultimately show ?thesis
    by cases (simp_all add: extranonceLimit_def minus_f64_def one_f64_def trunc_def)
qed

lemma arrivals_append: "arrivals (evs @ evs2) = arrivals evs + arrivals evs2"
  by (induction evs rule: arrivals.induct) simp_all

lemma mod_Suc_int: "int (Suc n mod k) = (if int (n mod k) < int k - 1 then int (n mod k) + 1 else 0)" if "0 < k"
proof -
  have "n mod k < k" using that by simp
  then show ?thesis by (cases "Suc (n mod k) = k") (auto simp: mod_Suc)
qed

definition after :: "f64 \<Rightarrow> int \<Rightarrow> shareHandler \<Rightarrow> 'st lifecycle list \<Rightarrow> clientListener" where
  "after d sz sh evs = fold (lifecycle_step sh) evs (newClientListener d sz)"

lemma lifecycle_counters:
  assumes "0 < sz" and "sz \<le> 3"
  shows "clientCounter (after d sz sh evs) = word_of_nat (arrivals evs)
    \<and> extranonceSize (after d sz sh evs) = sz \<and> maxExtranonce (after d sz sh evs) = 256 ^ nat sz - 1
    \<and> nextExtranonce (after d sz sh evs) = int (arrivals evs mod 256 ^ nat sz)"
proof (induction evs rule: rev_induct)
  case Nil
  then show ?case by (simp add: after_def newClientListener_def extranonceLimit_eq assms)
next
  case (snoc e evs)
  have step: "after d sz sh (evs @ [e]) = lifecycle_step sh e (after d sz sh evs)" by (simp add: after_def)
  show ?case
  proof (cases e)
    case (Arrives ref ctx)
    have k: "0 < (256 :: nat) ^ nat sz" by simp
    show ?thesis
      using snoc assms mod_Suc_int [OF k, of "arrivals evs"]
      unfolding step unfolding Arrives by (simp add: arrivals_append OnConnect_def takeExtranonce_def Let_def add.commute)
  next
    case (Leaves ctx)
    then show ?thesis using snoc unfolding step by (simp add: arrivals_append OnDisconnect_def)
  qed
qed

text \<open>
  C29: whatever the order of connects and disconnects, the connection that arrives after \<open>n\<close> others
  gets the number \<open>n + 1\<close> and the extranonce \<open>n\<close> modulo \<open>256\<close> to the configured size, written with two
  digits for each byte. So among any \<open>256 ^ size\<close> connections in a row no extranonce is used twice.
\<close>

theorem connect_extranonces:
  assumes "0 < sz" and "sz \<le> 3"
    and "OnConnect ref ctx (after d sz sh evs) = (ctx', c')"
  shows "Extranonce ctx' = fmt_hex (2 * nat sz) (arrivals evs mod 256 ^ nat sz)
    \<and> length (Extranonce ctx') = 2 * nat sz
    \<and> Id ctx' = word_of_nat (arrivals evs + 1) \<and> clients c' (Id ctx') = Some ref
    \<and> (OnConnect ref2 ctx2 (after d sz sh (evs @ Arrives ref ctx # evs2)) = (ctx2', c2')
       \<and> arrivals evs2 + 1 < 256 ^ nat sz \<longrightarrow> Extranonce ctx2' \<noteq> Extranonce ctx')"
proof -
  have conn: "Extranonce x = fmt_hex (2 * nat sz) (arrivals es mod 256 ^ nat sz)
      \<and> Id x = word_of_nat (arrivals es + 1) \<and> clients y (Id x) = Some r"
    if "OnConnect r c (after d sz sh es) = (x, y)" for r c es x y
    using that lifecycle_counters [OF assms(1,2), of d sh es] assms(1)
    by (auto simp: OnConnect_def takeExtranonce_def Let_def add.commute nat_mult_distrib mult.commute [of "nat sz" 2]
        split: if_splits)
  have "arrivals evs mod 256 ^ nat sz < 256 ^ nat sz" by simp
  also have "(256 :: nat) ^ nat sz = 16 ^ (2 * nat sz)" by (simp add: power_mult)
  finally have len: "length (fmt_hex (2 * nat sz) (arrivals evs mod 256 ^ nat sz)) = 2 * nat sz"
    using assms(1) by (intro length_fmt_hex) auto
  have "(n + 1 + m) mod k \<noteq> n mod k" if "m + 1 < k" for n m k :: nat
  proof
    assume "(n + 1 + m) mod k = n mod k"
    then have "k dvd n + 1 + m - n" by (metis mod_eq_dvd_iff_nat le_add1 add.assoc)
    with that show False by (auto dest: dvd_imp_le)
  qed
  from this [of "arrivals evs2" "256 ^ nat sz" "arrivals evs"]
  have "fmt_hex (2 * nat sz) (arrivals (evs @ Arrives ref ctx # evs2) mod 256 ^ nat sz)
      \<noteq> fmt_hex (2 * nat sz) (arrivals evs mod 256 ^ nat sz)"
    if "arrivals evs2 + 1 < 256 ^ nat sz"
    using that by (auto simp: arrivals_append dest!: fmt_hex_inject)
  then have "OnConnect ref2 ctx2 (after d sz sh (evs @ Arrives ref ctx # evs2)) = (ctx2', c2')
      \<and> arrivals evs2 + 1 < 256 ^ nat sz \<longrightarrow> Extranonce ctx2' \<noteq> Extranonce ctx'"
    using conn [OF assms(3)] conn [of ref2 ctx2 "evs @ Arrives ref ctx # evs2" ctx2' c2'] by metis
  then show ?thesis using conn [OF assms(3)] len by auto
qed

theorem connect_extranonces_witness:
  "Extranonce (fst (OnConnect 9 sample_miner (after (Fin 1) 2 newShareHandler [Arrives 7 sample_miner, Leaves sample_miner])))
     = fmt_hex 4 1"
proof -
  obtain x y where c: "OnConnect 9 sample_miner (after (Fin 1) 2 newShareHandler [Arrives 7 sample_miner, Leaves sample_miner])
    = (x, y)" by fastforce
  show ?thesis using connect_extranonces [OF _ _ c, of 0 sample_miner "[]" sample_miner y] by (simp add: c)
qed

end
