(* ===== verification/StratumListener.thy ===== *)
theory StratumListener
  imports Sv2Codec StratumContext
begin

text \<open>
  \<^verbatim>\<open>src/gostratum/stratum_listener.go\<close> and \<^verbatim>\<open>stratum_client.go\<close>: accepting connections, choosing the
  protocol by the first byte, reading lines, dispatching them to handlers, and announcing
  disconnects. What the peer and the network do to a socket is a list of events; after the last one
  the stream has ended. \<open>'w\<close> is the state that the handlers share. \<^verbatim>\<open>json.Unmarshal\<close> is the parameter
  \<open>unmarshal\<close>. The handlers are given for each round of a loop, so that time and the node's answers
  may change between rounds; \<open>None\<close> is a panic. Logging is left out.
\<close>

subsection \<open>Sockets\<close>

datatype sock_event = Data "byte list" | Timeout | Broken

type_synonym socket = "sock_event list"

text \<open>One \<^verbatim>\<open>Read\<close> into a buffer of \<open>n\<close> bytes; a timeout can only happen while a deadline is set.\<close>

fun sock_read :: "nat \<Rightarrow> socket \<Rightarrow> (byte list \<times> go_error option) \<times> socket" where
  "sock_read n [] = (([], Some ErrEOF), [])"
| "sock_read n (Data bs # s) = (if bs = [] then sock_read n s
     else ((take n bs, None), if length bs \<le> n then s else Data (drop n bs) # s))"
| "sock_read n (Timeout # s) = (([], Some ErrDeadlineExceeded), s)"
| "sock_read n (Broken # s) = (([], Some (ErrOther ''read'')), Broken # s)"

text \<open>The whole stream as the frame reader sees it, without deadlines.\<close>

fun stream :: "socket \<Rightarrow> reader" where
  "stream [] = \<lparr>pending = [], ending = ErrEOF\<rparr>"
| "stream (Data bs # s) = (stream s)\<lparr>pending := bs @ pending (stream s)\<rparr>"
| "stream (Timeout # s) = stream s"
| "stream (Broken # s) = \<lparr>pending = [], ending = ErrOther ''read''\<rparr>"

record prefixedConn =
  cprefix :: "byte list"
  innerConn :: socket

definition prefixedRead :: "nat \<Rightarrow> prefixedConn \<Rightarrow> (byte list \<times> go_error option) \<times> prefixedConn" where
  "prefixedRead n pc = (if 0 < length (cprefix pc)
     then ((take n (cprefix pc), None), pc\<lparr>cprefix := drop n (cprefix pc)\<rparr>)
     else (case sock_read n (innerConn pc) of (res, s) \<Rightarrow> (res, pc\<lparr>innerConn := s\<rparr>)))"

text \<open>The socket that behaves like a prefixed connection.\<close>

definition as_socket :: "prefixedConn \<Rightarrow> socket" where
  "as_socket pc = (if cprefix pc = [] then innerConn pc else Data (cprefix pc) # innerConn pc)"

definition sniffConnectionPrefix :: "socket \<Rightarrow> go_error + byte \<times> prefixedConn" where
  "sniffConnectionPrefix connection = (case sock_read 1 connection of
     ((peek, Some err), _) \<Rightarrow> Inl err
   | ((peek, None), connection) \<Rightarrow> Inr (peek ! 0, \<lparr>cprefix = peek, innerConn = connection\<rparr>))"

subsection \<open>Lines\<close>

text \<open>\<^verbatim>\<open>bufio.Reader\<close>: what was read ahead, and the socket. \<open>ReadBytes\<close> returns what it has gathered
  when the socket reports an error, and forgets it.\<close>

record bufReader =
  buffered :: "byte list"
  source :: socket

fun gather :: "byte \<Rightarrow> byte list \<Rightarrow> socket \<Rightarrow> (byte list \<times> go_error option) \<times> bufReader" where
  "gather delim acc [] = ((acc, Some ErrEOF), \<lparr>buffered = [], source = []\<rparr>)"
| "gather delim acc (Data bs # s) = (if delim \<in> set bs
     then ((acc @ takeWhile (\<lambda>b. b \<noteq> delim) bs @ [delim], None),
           \<lparr>buffered = tl (dropWhile (\<lambda>b. b \<noteq> delim) bs), source = s\<rparr>)
     else gather delim (acc @ bs) s)"
| "gather delim acc (Timeout # s) = ((acc, Some ErrDeadlineExceeded), \<lparr>buffered = [], source = s\<rparr>)"
| "gather delim acc (Broken # s) = ((acc, Some (ErrOther ''read'')), \<lparr>buffered = [], source = Broken # s\<rparr>)"

definition ReadBytes :: "byte \<Rightarrow> bufReader \<Rightarrow> (byte list \<times> go_error option) \<times> bufReader" where
  "ReadBytes delim rd = gather delim [] (Data (buffered rd) # source rd)"

definition maxEventLineBytes :: nat where
  "maxEventLineBytes = 2 ^ 20"

definition newline :: byte where
  "newline = 10"

text \<open>The text of a line: without zero bytes, trimmed.\<close>

definition line_text :: "byte list \<Rightarrow> string" where
  "line_text line = trim_space (bytes_str (filter (\<lambda>b. b \<noteq> 0) line))"

text \<open>\<open>localClosed\<close>: the connection was closed on this side, so that no deadline can be set.\<close>

definition readFromConnection :: "bool \<Rightarrow> bufReader \<Rightarrow> (go_error + string) \<times> bufReader" where
  "readFromConnection localClosed rd = (if localClosed then (Inl (ErrOther ''use of closed network connection''), rd)
     else case ReadBytes newline rd of
       ((line, Some err), rd) \<Rightarrow> (Inl err, rd)
     | ((line, None), rd) \<Rightarrow>
         (if maxEventLineBytes < length line
          then (Inl (ErrOther ''incoming stratum message exceeds max length''), rd)
          else (Inr (line_text line), rd)))"

subsection \<open>Serving a Stratum V1 client\<close>

type_synonym ('st, 'w) EventHandler =
  "JsonRpcEvent \<Rightarrow> 'st StratumContext \<Rightarrow> 'w \<Rightarrow> (go_error option \<times> 'st StratumContext \<times> 'w) option"

type_synonym ('st, 'w) HandlerMap = "string \<rightharpoonup> ('st, 'w) EventHandler"

definition HandleEvent ::
    "('st, 'w) HandlerMap \<Rightarrow> 'st StratumContext \<Rightarrow> JsonRpcEvent \<Rightarrow> 'w
     \<Rightarrow> (go_error option \<times> 'st StratumContext \<times> 'w) option" where
  "HandleEvent handlers ctx event w = (case handlers (Method event) of
     Some handler \<Rightarrow> handler event ctx w
   | None \<Rightarrow> Some (None, ctx, w))"

text \<open>What happens to a line, and one round of the loop: no error means that the loop goes on.\<close>

definition handle_line ::
    "(string \<Rightarrow> JsonRpcEvent option) \<Rightarrow> ('st, 'w) HandlerMap \<Rightarrow> string \<Rightarrow> 'st StratumContext \<Rightarrow> 'w
     \<Rightarrow> (go_error option \<times> 'st StratumContext \<times> 'w) option" where
  "handle_line unmarshal handlers line ctx w = (if line = [] then Some (None, ctx, w)
     else case unmarshal line of
       None \<Rightarrow> Some (Some (ErrOther ''error unmarshalling event''), ctx, w)
     | Some event \<Rightarrow> HandleEvent handlers ctx event w)"

definition client_round ::
    "(string \<Rightarrow> JsonRpcEvent option) \<Rightarrow> ('st, 'w) HandlerMap \<Rightarrow> bool \<Rightarrow> bufReader \<Rightarrow> 'st StratumContext \<Rightarrow> 'w
     \<Rightarrow> bufReader \<times> (go_error option \<times> 'st StratumContext \<times> 'w) option" where
  "client_round unmarshal handlers cancelled rd ctx w =
    (case readFromConnection (connClosed ctx) rd of (res, rd) \<Rightarrow>
      (rd, if res = Inl ErrDeadlineExceeded then Some (None, ctx, w)
           else if cancelled then Some (Some ErrCanceled, ctx, w)
           else (case res of
             Inl err \<Rightarrow> Some (Some err, ctx, w)
           | Inr line \<Rightarrow> handle_line unmarshal handlers line ctx w)))"

definition reader_left :: "bufReader \<Rightarrow> nat" where
  "reader_left rd = length (buffered rd)
     + sum_list (map (\<lambda>e. case e of Data bs \<Rightarrow> Suc (length bs) | _ \<Rightarrow> 1) (source rd))"

lemma dropWhile_tl_shorter: "x \<in> set bs \<Longrightarrow> length (tl (dropWhile (\<lambda>b. b \<noteq> x) bs)) < length bs"
  using length_dropWhile_le [of "\<lambda>b. b \<noteq> x" bs] by (cases bs) auto

lemma gather_left:
  assumes "gather delim acc s = ((line, e), rd)" and "e = None \<or> e = Some ErrDeadlineExceeded"
  shows "Suc (reader_left rd) < Suc (sum_list (map (\<lambda>e. case e of Data bs \<Rightarrow> Suc (length bs) | _ \<Rightarrow> 1) s))"
  using assms
proof (induction delim acc s rule: gather.induct)
  case (2 delim acc bs s)
  then show ?case
    using dropWhile_tl_shorter [of delim bs] by (auto simp: reader_left_def split: if_splits)
qed (auto simp: reader_left_def)

text \<open>The first event of a fresh round may be the buffer itself, which is not yet an event.\<close>

lemma client_round_left:
  assumes "client_round unmarshal handlers cancelled rd ctx w = (rd', Some (None, ctx', w'))"
  shows "reader_left rd' < reader_left rd"
proof -
  obtain line e rd2 where g: "ReadBytes newline rd = ((line, e), rd2)" by (metis surj_pair)
  have e: "e = None \<or> e = Some ErrDeadlineExceeded" and r: "rd' = rd2"
    using assms by (auto simp: client_round_def readFromConnection_def g split: if_splits option.splits)
  show ?thesis
  proof (cases "newline \<in> set (buffered rd)")
    case True
    then show ?thesis
      using g r dropWhile_tl_shorter [OF True] by (auto simp: ReadBytes_def reader_left_def)
  next
    case False
    then have "gather newline (buffered rd) (source rd) = ((line, e), rd2)" using g by (simp add: ReadBytes_def)
    from gather_left [OF this e] show ?thesis by (simp add: r reader_left_def)
  qed
qed

function spawnClientListener ::
    "(string \<Rightarrow> JsonRpcEvent option) \<Rightarrow> (nat \<Rightarrow> ('st, 'w) HandlerMap) \<Rightarrow> (nat \<Rightarrow> bool) \<Rightarrow> nat \<Rightarrow> bufReader
     \<Rightarrow> 'st StratumContext \<Rightarrow> 'w \<Rightarrow> (go_error \<times> 'st StratumContext \<times> 'w) option" where
  "spawnClientListener unmarshal handlers cancelled k rd ctx w =
    (case client_round unmarshal (handlers k) (cancelled k) rd ctx w of
       (rd', None) \<Rightarrow> None
     | (rd', Some (Some err, ctx', w')) \<Rightarrow> Some (err, Disconnect ctx', w')
     | (rd', Some (None, ctx', w')) \<Rightarrow> spawnClientListener unmarshal handlers cancelled (k + 1) rd' ctx' w')"
  by pat_completeness auto
termination
  by (relation "measure (\<lambda>(unmarshal, handlers, cancelled, k, rd, ctx, w). reader_left rd)")
    (auto dest: client_round_left [OF sym])

declare spawnClientListener.simps [simp del]

subsection \<open>The listener\<close>

text \<open>The functions that a listener is configured with. A missing state generator is replaced by one
  that returns nil, \<open>noState\<close>.\<close>

record ('st, 'w) StratumListenerConfig =
  Handlers :: "nat \<Rightarrow> ('st, 'w) HandlerMap"
  ListenerOnConnect :: "(nat \<Rightarrow> 'st StratumContext \<Rightarrow> 'w \<Rightarrow> 'st StratumContext \<times> 'w) option"
  ListenerOnDisconnect :: "('st StratumContext \<Rightarrow> 'w \<Rightarrow> 'w) option"
  BinaryFirstByte :: "(byte \<Rightarrow> bool) option"
  StateGenerator :: "(int \<Rightarrow> 'st) option"
  Port :: string

record ('st, 'w) StratumListener =
  config :: "('st, 'w) StratumListenerConfig"
  shuttingDown :: bool
  disconnectChannel :: "nat list"
  Disconnects :: int

definition NewListener :: "'st \<Rightarrow> ('st, 'w) StratumListenerConfig \<Rightarrow> ('st, 'w) StratumListener" where
  "NewListener noState cfg =
     \<lparr>config = (if StateGenerator cfg = None then cfg\<lparr>StateGenerator := Some (\<lambda>_. noState)\<rparr> else cfg),
      shuttingDown = False, disconnectChannel = [], Disconnects = 0\<rparr>"

definition channelCapacity :: nat where
  "channelCapacity = 1024"

text \<open>The part of \<^verbatim>\<open>addr\<close> before the first colon.\<close>

definition remote_host :: "string \<Rightarrow> string" where
  "remote_host addr = takeWhile (\<lambda>c. c \<noteq> CHR '':'') addr"

text \<open>Which goroutine a new connection gets.\<close>

datatype route = NoRoute | BinaryRoute socket | LineRoute socket

definition newContext :: "'st \<Rightarrow> string \<Rightarrow> write_result list \<Rightarrow> bool \<Rightarrow> 'st StratumContext" where
  "newContext st addr script room = \<lparr>RemoteAddr = remote_host addr, WalletAddr = [], WorkerName = [],
     RemoteApp = [], Id = 0, disconnecting = False, sv2Enabled = False, sv2ChannelID = 0, State = st,
     Extranonce = [], onDisconnect = Some room, sent = [], net = script, connClosed = False,
     asyncDisconnect = False, queued = 0\<rparr>"

definition newClient ::
    "int \<Rightarrow> nat \<Rightarrow> string \<Rightarrow> write_result list \<Rightarrow> socket \<Rightarrow> ('st, 'w) StratumListener \<Rightarrow> 'st \<Rightarrow> 'w
     \<Rightarrow> 'st StratumContext \<times> 'w \<times> route" where
  "newClient now ref addr script connection s noState w =
    (let st = (case StateGenerator (config s) of None \<Rightarrow> noState | Some gen \<Rightarrow> gen now);
         room = length (disconnectChannel s) < channelCapacity;
         clientContext = newContext st addr script room;
         (clientContext, w) = (case ListenerOnConnect (config s) of
             None \<Rightarrow> (clientContext, w) | Some f \<Rightarrow> f ref clientContext w)
     in case BinaryFirstByte (config s) of
          None \<Rightarrow> (clientContext, w, LineRoute connection)
        | Some CanHandleFirstByte \<Rightarrow>
            (case sniffConnectionPrefix connection of
               Inl err \<Rightarrow> (Disconnect clientContext, w, NoRoute)
             | Inr (firstByte, prefixedConn) \<Rightarrow>
                 (clientContext, w, if CanHandleFirstByte firstByte then BinaryRoute (as_socket prefixedConn)
                   else LineRoute (as_socket prefixedConn))))"

text \<open>One round of \<^verbatim>\<open>disconnectListener\<close>: the first event of the channel is taken, if there is one.\<close>

definition disconnectListener ::
    "(nat \<Rightarrow> 'st StratumContext) \<Rightarrow> ('st, 'w) StratumListener \<Rightarrow> 'w \<Rightarrow> ('st, 'w) StratumListener \<times> 'w" where
  "disconnectListener conns s w = (case disconnectChannel s of
     [] \<Rightarrow> (s, w)
   | client # rest \<Rightarrow>
       (let s = s\<lparr>disconnectChannel := rest, Disconnects := Disconnects s + 1\<rparr>
        in (s, case ListenerOnDisconnect (config s) of None \<Rightarrow> w | Some f \<Rightarrow> f (conns client) w)))"

end
