(* ===== verification/StratumListenerLemmas.thy ===== *)
theory StratumListenerLemmas
  imports StratumListener
begin

text \<open>
  The listener: how a socket delivers its bytes does not matter to the line protocol (a refinement
  onto the plain sequence of bytes), reading the first byte for the choice of the protocol loses
  nothing, a timeout in the middle of a line does lose what came before it, and the loop ends with
  a closed connection for every client, if its handlers do not panic (locale \<open>line_handlers\<close>).
\<close>

subsection \<open>The stream behind a reader\<close>

datatype item = Byte byte | Pause | Fault

fun items_of :: "sock_event \<Rightarrow> item list" where
  "items_of (Data bs) = map Byte bs"
| "items_of Timeout = [Pause]"
| "items_of Broken = [Fault]"

definition stream_items :: "bufReader \<Rightarrow> item list" where
  "stream_items rd = map Byte (buffered rd) @ concat (map items_of (source rd))"

fun take_line :: "byte \<Rightarrow> byte list \<Rightarrow> item list \<Rightarrow> (byte list \<times> go_error option) \<times> item list" where
  "take_line delim acc [] = ((acc, Some ErrEOF), [])"
| "take_line delim acc (Byte b # s) =
     (if b = delim then ((acc @ [b], None), s) else take_line delim (acc @ [b]) s)"
| "take_line delim acc (Pause # s) = ((acc, Some ErrDeadlineExceeded), s)"
| "take_line delim acc (Fault # s) = ((acc, Some (ErrOther ''read'')), Fault # s)"

lemma take_line_bytes:
  "take_line delim acc (map Byte bs @ s) = (if delim \<in> set bs
     then ((acc @ takeWhile (\<lambda>b. b \<noteq> delim) bs @ [delim], None), map Byte (tl (dropWhile (\<lambda>b. b \<noteq> delim) bs)) @ s)
     else take_line delim (acc @ bs) s)"
  by (induction bs arbitrary: acc) auto

lemma gather_items:
  "gather delim acc s = (res, rd) \<Longrightarrow> take_line delim acc (concat (map items_of s)) = (res, stream_items rd)"
  by (induction delim acc s rule: gather.induct)
    (auto simp: take_line_bytes stream_items_def split: if_splits)

lemma ReadBytes_items: "ReadBytes delim rd = (res, rd') \<Longrightarrow> take_line delim [] (stream_items rd) = (res, stream_items rd')"
  using gather_items [of delim "[]" "Data (buffered rd) # source rd" res rd']
  by (simp add: ReadBytes_def stream_items_def)

subsection \<open>The line protocol on the plain stream\<close>

definition items_round ::
    "(string \<Rightarrow> JsonRpcEvent option) \<Rightarrow> ('st, 'w) HandlerMap \<Rightarrow> bool \<Rightarrow> item list \<Rightarrow> 'st StratumContext \<Rightarrow> 'w
     \<Rightarrow> item list \<times> (go_error option \<times> 'st StratumContext \<times> 'w) option" where
  "items_round unmarshal handlers cancelled s ctx w =
    (if connClosed ctx
     then (s, Some (Some (if cancelled then ErrCanceled else ErrOther ''use of closed network connection''), ctx, w))
     else case take_line newline [] s of ((line, e), s') \<Rightarrow>
       (s', if e = Some ErrDeadlineExceeded then Some (None, ctx, w)
            else if cancelled then Some (Some ErrCanceled, ctx, w)
            else case e of
              Some err \<Rightarrow> Some (Some err, ctx, w)
            | None \<Rightarrow> if maxEventLineBytes < length line
                then Some (Some (ErrOther ''incoming stratum message exceeds max length''), ctx, w)
                else handle_line unmarshal handlers (line_text line) ctx w))"

lemma take_line_shorter:
  "take_line delim acc s = ((line, e), s') \<Longrightarrow> e = None \<or> e = Some ErrDeadlineExceeded \<Longrightarrow> length s' < length s"
  by (induction delim acc s rule: take_line.induct) (auto split: if_splits)

lemma items_round_shorter:
  "items_round unmarshal handlers cancelled s ctx w = (s', Some (None, ctx', w')) \<Longrightarrow> length s' < length s"
  by (auto simp: items_round_def split: if_splits prod.splits option.splits dest: take_line_shorter)

function serve_items ::
    "(string \<Rightarrow> JsonRpcEvent option) \<Rightarrow> (nat \<Rightarrow> ('st, 'w) HandlerMap) \<Rightarrow> (nat \<Rightarrow> bool) \<Rightarrow> nat \<Rightarrow> item list
     \<Rightarrow> 'st StratumContext \<Rightarrow> 'w \<Rightarrow> (go_error \<times> 'st StratumContext \<times> 'w) option" where
  "serve_items unmarshal handlers cancelled k s ctx w =
    (case items_round unmarshal (handlers k) (cancelled k) s ctx w of
       (s', None) \<Rightarrow> None
     | (s', Some (Some err, ctx', w')) \<Rightarrow> Some (err, Disconnect ctx', w')
     | (s', Some (None, ctx', w')) \<Rightarrow> serve_items unmarshal handlers cancelled (k + 1) s' ctx' w')"
  by pat_completeness auto
termination
  by (relation "measure (\<lambda>(unmarshal, handlers, cancelled, k, s, ctx, w). length s)")
    (auto dest: items_round_shorter [OF sym])

declare serve_items.simps [simp del]

lemma client_round_items:
  "items_round unmarshal handlers cancelled (stream_items rd) ctx w =
     (case client_round unmarshal handlers cancelled rd ctx w of (rd', res) \<Rightarrow> (stream_items rd', res))"
proof (cases "connClosed ctx")
  case True
  then show ?thesis by (simp add: items_round_def client_round_def readFromConnection_def)
next
  case False
  obtain line e rd' where r: "ReadBytes newline rd = ((line, e), rd')" by (metis surj_pair)
  show ?thesis
    using False by (simp add: items_round_def client_round_def readFromConnection_def r ReadBytes_items [OF r]
        split: option.split)
qed

lemma spawn_refines_holds:
  "spawnClientListener unmarshal handlers cancelled k rd ctx w
   = serve_items unmarshal handlers cancelled k (stream_items rd) ctx w"
proof (induction unmarshal handlers cancelled k rd ctx w rule: spawnClientListener.induct)
  case (1 unmarshal handlers cancelled k rd ctx w)
  obtain rd' res where r: "client_round unmarshal (handlers k) (cancelled k) rd ctx w = (rd', res)" by fastforce
  note i = client_round_items [of unmarshal "handlers k" "cancelled k" rd ctx w, unfolded r prod.case]
  show ?case
  proof (cases res)
    case None
    then show ?thesis by (subst spawnClientListener.simps, subst serve_items.simps) (simp add: r i)
  next
    case (Some p)
    obtain e ctx' w' where p: "p = (e, ctx', w')" by (cases p)
    show ?thesis
      using "1.IH" [of rd' res p e "(ctx', w')" ctx' w'] r Some p
      by (subst spawnClientListener.simps, subst serve_items.simps) (simp add: i split: option.split)
  qed
qed

text \<open>
  C8: the line protocol sees only the sequence of bytes, pauses and errors: how the bytes are cut
  into packets, and what the reader has already buffered, makes no difference to any handler call,
  answer or result.
\<close>

theorem spawn_refines:
  "spawnClientListener unmarshal handlers cancelled k rd ctx w
   = serve_items unmarshal handlers cancelled k (stream_items rd) ctx w"
  by (rule spawn_refines_holds)

subsection \<open>Reading the first byte\<close>

text \<open>A prefixed connection is read like the socket it stands for.\<close>

lemma prefixedRead_socket:
  assumes "0 < n" and "prefixedRead n pc = (res, pc')"
  shows "sock_read n (as_socket pc) = (res, as_socket pc')"
  using assms by (cases pc) (auto simp: prefixedRead_def as_socket_def split: prod.splits if_splits)

lemma sniff_first:
  assumes "sniffConnectionPrefix s = Inr (b, pc)"
  shows "concat (map items_of (as_socket pc)) = concat (map items_of s)
    \<and> stream (as_socket pc) = stream s \<and> (\<exists>rest. pending (stream s) = b # rest)"
  using assms
proof (induction s)
  case Nil
  then show ?case by (simp add: sniffConnectionPrefix_def)
next
  case (Cons e s)
  show ?case
  proof (cases e)
    case (Data bs)
    show ?thesis
    proof (cases bs)
      case Nil
      then have "sniffConnectionPrefix s = Inr (b, pc)" using Cons.prems Data by (simp add: sniffConnectionPrefix_def)
      from Cons.IH [OF this] show ?thesis using Data Nil by simp
    next
      case (Cons x xs)
      then show ?thesis using Cons.prems Data
        by (auto simp: sniffConnectionPrefix_def as_socket_def split: if_splits)
    qed
  qed (use Cons.prems in \<open>simp_all add: sniffConnectionPrefix_def\<close>)
qed

text \<open>
  Looking at the first byte to choose the protocol is invisible afterwards: a line client is
  served exactly as on the untouched connection, and the frame reader sees the same stream, which
  starts with that byte.
\<close>

theorem sniff_transparent:
  assumes "sniffConnectionPrefix s = Inr (b, pc)"
  shows "spawnClientListener unmarshal handlers cancelled k \<lparr>buffered = [], source = as_socket pc\<rparr> ctx w
      = spawnClientListener unmarshal handlers cancelled k \<lparr>buffered = [], source = s\<rparr> ctx w
    \<and> stream (as_socket pc) = stream s \<and> (\<exists>rest. pending (stream s) = b # rest)"
  using sniff_first [OF assms] by (simp add: spawn_refines_holds stream_items_def)

theorem sniff_transparent_witness:
  "sniffConnectionPrefix [Data [123, 125], Timeout, Data [10]]
     = Inr (123, \<lparr>cprefix = [123], innerConn = [Data [125], Timeout, Data [10]]\<rparr>)
   \<and> stream [Data [123], Data [125], Timeout, Data [10]] = stream [Data [123, 125], Timeout, Data [10]]"
proof -
  have s: "sniffConnectionPrefix [Data [123, 125], Timeout, Data [10]]
     = Inr (123, \<lparr>cprefix = [123], innerConn = [Data [125], Timeout, Data [10]]\<rparr>)"
    by (simp add: sniffConnectionPrefix_def)
  from sniff_transparent [OF s] s show ?thesis by (simp add: as_socket_def)
qed

subsection \<open>Pauses\<close>

text \<open>
  When the five seconds of a read pass in the middle of a line, the part that has arrived is
  thrown away: the client is served as if those bytes had never been sent, and the rest of the line
  is taken for a line of its own.
\<close>

theorem timeout_drops_partial:
  assumes "newline \<notin> set part" and "\<not> connClosed ctx"
  shows "spawnClientListener unmarshal handlers cancelled k \<lparr>buffered = [], source = Data part # Timeout # s\<rparr> ctx w
    = spawnClientListener unmarshal handlers cancelled (k + 1) \<lparr>buffered = [], source = s\<rparr> ctx w"
proof -
  have "client_round unmarshal (handlers k) (cancelled k) \<lparr>buffered = [], source = Data part # Timeout # s\<rparr> ctx w
      = (\<lparr>buffered = [], source = s\<rparr>, Some (None, ctx, w))"
    using assms by (simp add: client_round_def readFromConnection_def ReadBytes_def)
  then show ?thesis by (subst spawnClientListener.simps) simp
qed

theorem timeout_drops_partial_witness:
  "spawnClientListener (\<lambda>_. None) (\<lambda>_. Map.empty) (\<lambda>_. False) 0
       \<lparr>buffered = [], source = [Data [123], Timeout, Data [125, 10]]\<rparr> sample_client ()
   = Some (ErrOther ''error unmarshalling event'', Disconnect sample_client, ())"
proof -
  have drop: "spawnClientListener (\<lambda>_. None) (\<lambda>_. Map.empty) (\<lambda>_. False) 0
       \<lparr>buffered = [], source = [Data [123], Timeout, Data [125, 10]]\<rparr> sample_client ()
    = spawnClientListener (\<lambda>_. None) (\<lambda>_. Map.empty) (\<lambda>_. False) (0 + 1)
       \<lparr>buffered = [], source = [Data [125, 10]]\<rparr> sample_client ()"
    by (rule timeout_drops_partial) (simp_all add: newline_def sample_client_def)
  have lt: "line_text [125, 10] = ''}''" by code_simp
  have "client_round (\<lambda>_. None) Map.empty False \<lparr>buffered = [], source = [Data [125, 10]]\<rparr> sample_client ()
    = (\<lparr>buffered = [], source = []\<rparr>, Some (Some (ErrOther ''error unmarshalling event''), sample_client, ()))"
    by (simp add: client_round_def readFromConnection_def ReadBytes_def newline_def maxEventLineBytes_def
        lt handle_line_def sample_client_def)
  then have "spawnClientListener (\<lambda>_. None) (\<lambda>_. Map.empty) (\<lambda>_. False) (0 + 1)
       \<lparr>buffered = [], source = [Data [125, 10]]\<rparr> sample_client ()
    = Some (ErrOther ''error unmarshalling event'', Disconnect sample_client, ())"
    by (subst spawnClientListener.simps) simp
  with drop show ?thesis by simp
qed

subsection \<open>Every client is served to the end\<close>

text \<open>Handlers that do not panic and keep an invariant of the connection and of what they share.\<close>

locale line_handlers =
  fixes handlers :: "nat \<Rightarrow> ('st, 'w) HandlerMap" and inv :: "'st StratumContext \<Rightarrow> 'w \<Rightarrow> bool"
  assumes handler_runs: "handlers k m = Some h \<Longrightarrow> inv ctx w \<Longrightarrow>
      \<exists>e ctx' w'. h event ctx w = Some (e, ctx', w') \<and> inv ctx' w'"
    and inv_disconnect: "inv ctx w \<Longrightarrow> inv (Disconnect ctx) w"

context line_handlers begin

lemma round_runs:
  assumes "inv ctx w"
  shows "\<exists>rd' e ctx' w'. client_round unmarshal (handlers k) c rd ctx w = (rd', Some (e, ctx', w')) \<and> inv ctx' w'"
proof -
  have "\<exists>e ctx' w'. handle_line unmarshal (handlers k) line ctx w = Some (e, ctx', w') \<and> inv ctx' w'" for line
    using assms handler_runs [OF _ assms]
    by (auto simp: handle_line_def HandleEvent_def split: option.split)
  with assms show ?thesis
    by (auto simp: client_round_def split: prod.split sum.split)
qed

lemma serves_to_end:
  assumes "inv ctx w"
  shows "\<exists>err ctx' w'. spawnClientListener unmarshal handlers cancelled k rd ctx w = Some (err, ctx', w')
    \<and> inv ctx' w' \<and> disconnecting ctx'"
  using assms
proof (induction "reader_left rd" arbitrary: k rd ctx w rule: less_induct)
  case less
  obtain rd' e ctx' w' where r: "client_round unmarshal (handlers k) (cancelled k) rd ctx w = (rd', Some (e, ctx', w'))"
    "inv ctx' w'" using round_runs [OF less.prems] by blast
  show ?case
  proof (cases e)
    case None
    then show ?thesis
      using r less.hyps [OF client_round_left r(2)] by (subst spawnClientListener.simps) simp
  next
    case (Some err)
    have "disconnecting (Disconnect ctx')" by (simp add: Disconnect_def Let_def split: option.split bool.split)
    then show ?thesis
      using r Some inv_disconnect by (subst spawnClientListener.simps) simp
  qed
qed

end

end
