(* ===== verification/BridgeServer.thy ===== *)
theory BridgeServer
  imports ClientListener StratumListener
begin

text \<open>
  \<^verbatim>\<open>src/cryptixstratum/stratum_server.go\<close>, \<^verbatim>\<open>cryptixapi.go\<close> and \<^verbatim>\<open>cmd/cryptixbridge/main.go\<close>: how the
  configuration is completed and checked, which parts are started with which arguments, the
  handlers of the bridge, and the loop that waits for new blocks. Reading the YAML file and the
  command line is the parameter \<open>load\<close>, the node's answers are lists or functions. Logging, the
  HTTP servers and the log file are left out.
\<close>

subsection \<open>Configuration\<close>

record BridgeConfig =
  StratumPort :: string
  StratumV2Enabled :: bool
  StratumV2Port :: string
  RPCServer :: string
  PromPort :: string
  PrintStats :: bool
  UseLogFile :: bool
  HealthCheckPort :: string
  SoloMining :: bool
  BlockWaitTime :: int
  MinShareDiff :: f64
  VarDiff :: bool
  SharesPerMin :: u64
  VarDiffStats :: bool
  VarDiffRetarget :: int
  ExtranonceSize :: u64
  StratumV2Fallback :: bool

definition minBlockWaitTime :: int where
  "minBlockWaitTime = 500000000"

text \<open>\<^verbatim>\<open>main\<close>: the values before the file is read, and the two defaults that are filled in after the
  file and the flags were read.\<close>

definition initialConfig :: BridgeConfig where
  "initialConfig = \<lparr>StratumPort = [], StratumV2Enabled = False, StratumV2Port = '':5556'', RPCServer = [],
     PromPort = [], PrintStats = False, UseLogFile = False, HealthCheckPort = [], SoloMining = False,
     BlockWaitTime = 0, MinShareDiff = 0, VarDiff = False, SharesPerMin = 0, VarDiffStats = False,
     VarDiffRetarget = 10000000000, ExtranonceSize = 0, StratumV2Fallback = False\<rparr>"

definition fillDefaults :: "BridgeConfig \<Rightarrow> BridgeConfig" where
  "fillDefaults cfg =
    (let cfg = (if f64_eq (MinShareDiff cfg) 0 then cfg\<lparr>MinShareDiff := f64_of_int 4\<rparr> else cfg)
     in if BlockWaitTime cfg = 0 then cfg\<lparr>BlockWaitTime := 5000000000\<rparr> else cfg)"

definition mainConfig :: "(BridgeConfig \<Rightarrow> BridgeConfig) \<Rightarrow> BridgeConfig" where
  "mainConfig load = fillDefaults (load initialConfig)"

subsection \<open>What is started\<close>

definition normalizeBlockWait :: "int \<Rightarrow> int" where
  "normalizeBlockWait d = (if d < minBlockWaitTime then minBlockWaitTime else d)"

definition normalizeMinDiff :: "f64 \<Rightarrow> f64" where
  "normalizeMinDiff d = (if d < to_f64 (1 / 10000) then to_f64 (1 / 10000) else d)"

definition normalizeExtranonceSize :: "u64 \<Rightarrow> u64" where
  "normalizeExtranonceSize n = (if 3 < n then 3 else n)"

text \<open>A bridge that is running: the state that is shared, the ports of its listeners, the Stratum V2
  handler if there is one, and the threads.\<close>

record bridge =
  blockWait :: int
  bridgeShares :: shareHandler
  bridgeClients :: clientListener
  bridgeSv2 :: "sv2Handler option"
  ports :: "string list"
  promServer :: "string option"
  healthServer :: "string option"
  vardiffThread :: "(u64 \<times> bool \<times> int) option"
  statsThread :: bool

definition v2PortOf :: "BridgeConfig \<Rightarrow> string" where
  "v2PortOf cfg = (if StratumV2Port cfg = [] then '':5556'' else StratumV2Port cfg)"

text \<open>\<^verbatim>\<open>ListenAndServe\<close> up to the start of the listeners; \<open>connectErr\<close> is the error of the connection to
  the node, if there was one.\<close>

definition ListenAndServe :: "go_error option \<Rightarrow> BridgeConfig \<Rightarrow> go_error + bridge" where
  "ListenAndServe connectErr cfg = (case connectErr of
     Some err \<Rightarrow> Inl err
   | None \<Rightarrow>
      (let minDiff = normalizeMinDiff (MinShareDiff cfg);
           extranonceSize = normalizeExtranonceSize (ExtranonceSize cfg);
           clientHandler = newClientListener minDiff (uint extranonceSize)
       in if StratumV2Enabled cfg \<and> v2PortOf cfg = StratumPort cfg
          then Inl (ErrOther ''stratum_v2_port must be different from stratum_port'')
          else Inr \<lparr>blockWait = normalizeBlockWait (BlockWaitTime cfg), bridgeShares = newShareHandler,
            bridgeClients = clientHandler,
            bridgeSv2 = (if StratumV2Enabled cfg then Some (newSV2Handler minDiff (\<not> StratumV2Fallback cfg)) else None),
            ports = StratumPort cfg # (if StratumV2Enabled cfg then [v2PortOf cfg] else []),
            promServer = (if PromPort cfg \<noteq> [] then Some (PromPort cfg) else None),
            healthServer = (if HealthCheckPort cfg \<noteq> [] then Some (HealthCheckPort cfg) else None),
            vardiffThread = (if VarDiff cfg \<or> SoloMining cfg
              then Some (normalizeShareRate (SharesPerMin cfg), VarDiffStats cfg,
                normalizeRetargetInterval (VarDiffRetarget cfg)) else None),
            statsThread = PrintStats cfg\<rparr>))"

text \<open>The end of \<^verbatim>\<open>ListenAndServe\<close>: \<open>results\<close> are the results of the listeners as they arrive.\<close>

fun awaitListeners :: "go_error option list \<Rightarrow> go_error" where
  "awaitListeners [] = ErrCanceled"
| "awaitListeners (r # results) = (case r of
     None \<Rightarrow> awaitListeners results
   | Some err \<Rightarrow> if err = ErrCanceled then awaitListeners results else err)"

subsection \<open>The handlers of the bridge\<close>

text \<open>The default handlers do not touch what is shared; \<^verbatim>\<open>mining.submit\<close> is replaced, and its error is
  logged and dropped.\<close>

definition lift_handler ::
    "(JsonRpcEvent \<Rightarrow> 'st StratumContext \<Rightarrow> go_error option \<times> 'st StratumContext) \<Rightarrow> ('st, 'w) EventHandler" where
  "lift_handler h event ctx w = (case h event ctx of (e, ctx') \<Rightarrow> Some (e, ctx', w))"

definition submitHandler :: "int \<times> ('tx, 'db) node \<Rightarrow> ('tx MiningState, shareHandler) EventHandler" where
  "submitHandler world event ctx sh = (case HandleSubmit (fst world) (snd world) event ctx sh of
     None \<Rightarrow> None
   | Some (err, ctx', sh') \<Rightarrow> Some (None, ctx', sh'))"

definition bridgeHandlers ::
    "(string \<Rightarrow> bool \<Rightarrow> bool) \<Rightarrow> (nat \<Rightarrow> int \<times> ('tx, 'db) node) \<Rightarrow> nat \<Rightarrow> ('tx MiningState, shareHandler) HandlerMap" where
  "bridgeHandlers decode world k =
     (\<lambda>m. map_option lift_handler (DefaultHandlers decode m))(StratumMethodSubmit \<mapsto> submitHandler (world k))"

text \<open>What both listeners are configured with. They share the client listener and the share handler;
  only the Stratum V2 one has a binary handler.\<close>

definition sharedHandlers ::
    "(string \<Rightarrow> bool \<Rightarrow> bool) \<Rightarrow> (nat \<Rightarrow> int \<times> ('tx, 'db) node) \<Rightarrow> nat
     \<Rightarrow> ('tx MiningState, clientListener \<times> shareHandler) HandlerMap" where
  "sharedHandlers decode world k m = map_option (\<lambda>h event ctx (c, sh). case h event ctx sh of
       None \<Rightarrow> None
     | Some (e, ctx', sh') \<Rightarrow> Some (e, ctx', (c, sh'))) (bridgeHandlers decode world k m)"

definition listenerConfig ::
    "(string \<Rightarrow> bool \<Rightarrow> bool) \<Rightarrow> (nat \<Rightarrow> int \<times> ('tx, 'db) node) \<Rightarrow> sv2Handler option \<Rightarrow> string
     \<Rightarrow> ('tx MiningState, clientListener \<times> shareHandler) StratumListenerConfig" where
  "listenerConfig decode world sv2 port = \<lparr>Handlers = sharedHandlers decode world,
     ListenerOnConnect = Some (\<lambda>ref ctx (c, sh). case OnConnect ref ctx c of (ctx', c') \<Rightarrow> (ctx', (c', sh))),
     ListenerOnDisconnect = Some (\<lambda>ctx (c, sh). OnDisconnect ctx c sh),
     BinaryFirstByte = map_option CanHandleFirstByte sv2,
     StateGenerator = Some MiningStateGenerator, Port = port\<rparr>"

subsection \<open>Waiting for blocks\<close>

text \<open>\<^verbatim>\<open>waitForSync\<close>: \<open>answers\<close> are the answers of \<^verbatim>\<open>GetInfo\<close>, one for each call. No result means that
  the loop is still waiting after all of them.\<close>

fun waitForSync :: "(string + bool) list \<Rightarrow> (go_error option \<times> (string + bool) list) option" where
  "waitForSync [] = None"
| "waitForSync (Inl err # answers) = Some (Some (ErrOther ''error fetching server info from cryptix''), answers)"
| "waitForSync (Inr isSynced # answers) = (if isSynced then Some (None, answers) else waitForSync answers)"

text \<open>The channel holds one notification; another one is dropped while it is full. One round of the
  loop after the synchronisation check takes one of three events.\<close>

record blockLoop =
  blockReady :: bool
  callbacks :: nat
  stopped :: bool

datatype loop_event = ContextDone | BlockReady | TickerFired

definition notifyBlock :: "blockLoop \<Rightarrow> blockLoop" where
  "notifyBlock l = (if blockReady l then l else l\<lparr>blockReady := True\<rparr>)"

definition loopRound :: "loop_event \<Rightarrow> blockLoop \<Rightarrow> blockLoop" where
  "loopRound ev l = (case ev of
     ContextDone \<Rightarrow> l\<lparr>stopped := True\<rparr>
   | BlockReady \<Rightarrow> l\<lparr>blockReady := False, callbacks := callbacks l + 1\<rparr>
   | TickerFired \<Rightarrow> l\<lparr>callbacks := callbacks l + 1\<rparr>)"

text \<open>What the loop and the node may do: a round takes only an event that is there.\<close>

inductive loop_step :: "blockLoop \<Rightarrow> blockLoop \<Rightarrow> bool" where
  notification: "loop_step l (notifyBlock l)"
| round: "\<not> stopped l \<Longrightarrow> ev = BlockReady \<longrightarrow> blockReady l \<Longrightarrow> loop_step l (loopRound ev l)"

inductive_cases loop_stepE: "loop_step l l'"

text \<open>\<^verbatim>\<open>startStatsThread\<close> of the API: one tick. The hash of the first tip is taken without a check, so an
  empty list is a panic.\<close>

record dagInfo =
  TipHashes :: "string list"
  BlockCount :: u64
  Difficulty :: f64

definition apiStatsTick ::
    "(string + dagInfo) \<Rightarrow> (string \<Rightarrow> int \<Rightarrow> string + u64) \<Rightarrow> prom_op list option" where
  "apiStatsTick dag estimate = (case dag of
     Inl err \<Rightarrow> Some []
   | Inr info \<Rightarrow> (case TipHashes info of
       [] \<Rightarrow> None
     | tip # _ \<Rightarrow> (case estimate tip 1000 of
         Inl err \<Rightarrow> Some []
       | Inr rate \<Rightarrow> Some (RecordNetworkStats rate (BlockCount info) (Difficulty info)))))"

end
