(* ===== verification/BridgeServerLemmas.thy ===== *)
theory BridgeServerLemmas
  imports BridgeServer StratumListenerLemmas SubmitV1 ClientListenerLemmas
begin

text \<open>
  The bridge as it is put together: its configuration satisfies what the components assume, its
  handlers satisfy the contract of the line protocol (interpretation of \<open>line_handlers\<close>), so every
  Stratum V1 client is served to the end, and no notification of a new block is lost.
\<close>

subsection \<open>The handlers\<close>

definition client_inv :: "'tx client \<Rightarrow> shareHandler \<Rightarrow> bool" where
  "client_inv ctx sh \<longleftrightarrow> mining_ok (State ctx) \<and> books_ok sh \<and> windows_ok sh \<and> histories_ok sh"

lemma HandleSubscribe_state: "HandleSubscribe event ctx = (e, ctx') \<Longrightarrow> State ctx' = State ctx"
  by (auto simp: HandleSubscribe_def dest!: rep.out_client dest: same_clientD(9) split: prod.splits option.splits list.splits go_any.splits)

lemma HandleAuthorize_state:
  assumes "HandleAuthorize decode event ctx = (e, ctx')"
  shows "State ctx' = State ctx"
proof -
  have "State (SendExtranonce c) = State c" for c :: "'a StratumContext"
    using snd.out_client [of _ c] by (cases "Send (NewEvent [] ''set_extranonce'' [AStr (Extranonce c)]) c")
      (auto simp: SendExtranonce_def dest!: same_clientD(9))
  then show ?thesis
    using assms by (auto simp: HandleAuthorize_def Let_def dest!: rep.out_client dest: same_clientD(9)
        split: list.splits go_any.splits sum.splits prod.splits option.splits if_splits)
qed

interpretation bridge: line_handlers "bridgeHandlers decode world" client_inv
proof
  fix k m and h :: "('a MiningState, shareHandler) EventHandler" and ctx :: "'a client" and sh event
  assume h: "bridgeHandlers decode world k m = Some h" and inv: "client_inv ctx sh"
  show "\<exists>e ctx' w'. h event ctx sh = Some (e, ctx', w') \<and> client_inv ctx' w'"
  proof (cases "m = StratumMethodSubmit")
    case True
    then have "h = submitHandler (world k)" using h by (simp add: bridgeHandlers_def)
    moreover obtain e ctx' sh' n where s: "HandleSubmit (fst (world k)) (snd (world k)) event ctx sh = Some (e, ctx', sh')"
      "books_ok sh' \<and> windows_ok sh' \<and> histories_ok sh'" "answered ctx (eventId event) (n = (1 :: int)) e ctx'"
      using HandleSubmit_holds [of sh ctx "fst (world k)" "snd (world k)" event] inv by (auto simp: client_inv_def)
    moreover from s(3) have "State ctx' = State ctx" by (auto simp: answered_def dest: same_clientD(9))
    ultimately show ?thesis using inv by (simp add: submitHandler_def client_inv_def)
  next
    case False
    then have "h = lift_handler HandleSubscribe \<or> h = lift_handler (HandleAuthorize decode)"
      using h by (auto simp: bridgeHandlers_def DefaultHandlers_def split: if_splits)
    then show ?thesis
      using inv HandleSubscribe_state [of event ctx] HandleAuthorize_state [of decode event ctx]
      by (auto simp: lift_handler_def client_inv_def split: prod.split)
  qed
next
  show "client_inv ctx w \<Longrightarrow> client_inv (Disconnect ctx) w" for ctx :: "'a client" and w
    by (auto simp: client_inv_def Disconnect_def Let_def split: option.split bool.split)
qed

text \<open>
  C7: every Stratum V1 client is served to the end: for every stream of bytes, every behaviour of
  the node and of the network the loop ends with an error, without a panic; the connection is
  closed then and the books of the share handler are in order.
\<close>

theorem line_client_returns:
  assumes "client_inv ctx sh"
  shows "\<exists>err ctx' sh'. spawnClientListener unmarshal (bridgeHandlers decode world) cancelled k rd ctx sh
      = Some (err, ctx', sh') \<and> client_inv ctx' sh' \<and> disconnecting ctx'"
  using assms by (rule bridge.serves_to_end)

theorem line_client_returns_witness:
  "\<exists>err ctx' sh'. spawnClientListener (\<lambda>_. Some (NewEvent [] ''mining.submit'' [])) (bridgeHandlers (\<lambda>_ _. False) (\<lambda>_. (0, sample_node)))
      (\<lambda>_. False) 0 \<lparr>buffered = [], source = [Data [123, 125, 10], Timeout]\<rparr> sample_miner newShareHandler
      = Some (err, ctx', sh') \<and> disconnecting ctx'"
proof -
  have "client_inv sample_miner newShareHandler"
    using sample_shares_ok by (simp add: client_inv_def shares_ok_def mining_ok_def sample_miner_def sample_mining_def
        diff_ok_def one_f64_def)
  then show ?thesis using line_client_returns by blast
qed

subsection \<open>The configuration\<close>

lemma normalizeMinDiff_ok:
  assumes "d \<noteq> NaN"
  shows "diff_ok (normalizeMinDiff d)" and "to_f64 (1 / 10000) \<le> normalizeMinDiff d"
proof -
  let ?m = "to_f64 (1 / 10000)"
  have "f64_ok (Fin (1 / 2 ^ 14))" using to_f64_dyadic [of 1 14] to_f64_ok [of "1 / 2 ^ 14"] by simp
  then have pos: "f64_le (Fin (1 / 2 ^ 14)) ?m" by (intro to_f64_ge) simp_all
  have "diff_ok x" if "f64_le (Fin (1 / 2 ^ 14)) x" for x using that by (cases x) (auto simp: diff_ok_def)
  moreover have "f64_le ?m d" if "\<not> d < ?m"
    using that assms by (cases d; cases ?m) (auto simp: f64_less_iff)
  moreover have "f64_le ?m ?m" by (simp add: f64_le_refl)
  ultimately show "diff_ok (normalizeMinDiff d)" "?m \<le> normalizeMinDiff d"
    using pos by (auto simp: normalizeMinDiff_def f64_le_iff dest: f64_le_trans)
qed

text \<open>
  C30: a bridge that starts has a waiting time of at least half a second, a difficulty of at least
  \<^verbatim>\<open>0.0001\<close> that every operation accepts, an extranonce of at most three bytes, a retarget interval of at
  least a second and distinct ports, and all its parts are given the same difficulty. The only
  exception is a configured difficulty that is not a number, which is passed on.
\<close>

theorem startup_configuration:
  assumes "ListenAndServe connectErr cfg = Inr b" and "MinShareDiff cfg \<noteq> NaN"
  shows "minBlockWaitTime \<le> blockWait b \<and> distinct (ports b) \<and> length (ports b) \<le> 2
    \<and> diff_ok (minShareDiff (bridgeClients b)) \<and> to_f64 (1 / 10000) \<le> minShareDiff (bridgeClients b)
    \<and> (\<forall>h. bridgeSv2 b = Some h \<longrightarrow> sv2MinShareDiff h = minShareDiff (bridgeClients b) \<and> length (ports b) = 2)
    \<and> extranonceSize (bridgeClients b) \<in> {0..3}
    \<and> (\<forall>rate stats i. vardiffThread b = Some (rate, stats, i) \<longrightarrow> rate \<noteq> 0 \<and> 1000000000 \<le> i)
    \<and> shares_ok (bridgeShares b)"
proof -
  have sz: "uint (normalizeExtranonceSize n) \<in> {0..3}" for n
  proof (cases "3 < n")
    case False
    then have "uint n \<le> 3" by (simp add: word_less_def)
    then show ?thesis using False by (simp add: normalizeExtranonceSize_def)
  qed (simp add: normalizeExtranonceSize_def)
  have "normalizeShareRate n \<noteq> 0" "1000000000 \<le> normalizeRetargetInterval i" for n i
    by (simp_all add: normalizeShareRate_def normalizeRetargetInterval_def Let_def)
  note norm = this sz normalizeMinDiff_ok [OF assms(2)]
  let ?d = "normalizeMinDiff (MinShareDiff cfg)"
  have b: "blockWait b = normalizeBlockWait (BlockWaitTime cfg)" "bridgeShares b = newShareHandler"
    "bridgeClients b = newClientListener ?d (uint (normalizeExtranonceSize (ExtranonceSize cfg)))"
    "bridgeSv2 b = (if StratumV2Enabled cfg then Some (newSV2Handler ?d (\<not> StratumV2Fallback cfg)) else None)"
    "ports b = StratumPort cfg # (if StratumV2Enabled cfg then [v2PortOf cfg] else [])"
    "vardiffThread b = (if VarDiff cfg \<or> SoloMining cfg then Some (normalizeShareRate (SharesPerMin cfg),
      VarDiffStats cfg, normalizeRetargetInterval (VarDiffRetarget cfg)) else None)"
    and p: "StratumV2Enabled cfg \<longrightarrow> v2PortOf cfg \<noteq> StratumPort cfg"
    using assms(1) by (auto simp: ListenAndServe_def Let_def split: option.splits if_splits)
  have "minBlockWaitTime \<le> blockWait b" by (simp add: b normalizeBlockWait_def)
  moreover have "distinct (ports b)" "length (ports b) \<le> 2" using p by (auto simp: b)
  moreover have c: "minShareDiff (bridgeClients b) = ?d"
    "extranonceSize (bridgeClients b) = uint (normalizeExtranonceSize (ExtranonceSize cfg))"
    by (simp_all add: b newClientListener_def)
  moreover have "\<forall>h. bridgeSv2 b = Some h \<longrightarrow> sv2MinShareDiff h = ?d \<and> length (ports b) = 2"
    by (simp add: b newSV2Handler_def)
  moreover have "\<forall>rate stats i. vardiffThread b = Some (rate, stats, i) \<longrightarrow> rate \<noteq> 0 \<and> 1000000000 \<le> i"
    using norm(1,2) by (simp add: b)
  moreover have "shares_ok (bridgeShares b)" using sample_shares_ok by (simp add: b)
  ultimately show ?thesis using norm by simp
qed

theorem startup_configuration_witness:
  "\<exists>b. ListenAndServe None (mainConfig (\<lambda>cfg. cfg\<lparr>StratumPort := '':5555'', StratumV2Enabled := True, ExtranonceSize := 9\<rparr>))
       = Inr b \<and> ports b = ['':5555'', '':5556''] \<and> extranonceSize (bridgeClients b) \<le> 3"
proof -
  let ?cfg = "mainConfig (\<lambda>cfg. cfg\<lparr>StratumPort := '':5555'', StratumV2Enabled := True, ExtranonceSize := 9\<rparr>)"
  have cfg: "StratumPort ?cfg = '':5555''" "StratumV2Enabled ?cfg" "StratumV2Port ?cfg = '':5556''" "MinShareDiff ?cfg = Fin 4"
    using f64_of_int_exact [of 4]
    by (simp_all add: mainConfig_def initialConfig_def fillDefaults_def f64_eq_def zero_f64_def Let_def)
  then obtain b where b: "ListenAndServe None ?cfg = Inr b" "ports b = ['':5555'', '':5556'']"
    by (simp add: ListenAndServe_def v2PortOf_def Let_def)
  have "MinShareDiff ?cfg \<noteq> NaN" by (simp add: cfg)
  from startup_configuration [OF b(1) this] b show ?thesis by auto
qed

text \<open>A difficulty that is not a number passes the check, and the first job of the first client then
  panics.\<close>

lemma nan_difficulty_panics:
  assumes "ListenAndServe None (cfg\<lparr>MinShareDiff := NaN\<rparr>) = Inr b" and "\<not> initialized (State cl)"
    and "GetBlockTemplate api cl = Inr tmpl" and "SerializeBlockHeader (blake2b api) tmpl = Inr header"
  shows "newJob now api solo (minShareDiff (bridgeClients b)) cl sh = None"
proof -
  have "minShareDiff (bridgeClients b) = NaN"
    using assms(1) by (auto simp: ListenAndServe_def Let_def newClientListener_def normalizeMinDiff_def less_f64_def
        split: if_splits)
  then show ?thesis
    using assms(2-4)
    by (simp add: newJob_def adjustDiff_def initClient_def InitializeIfNeeded_def SetNetworkTarget_def
        setDiffValue_def DiffToTarget_def Let_def)
qed

subsection \<open>Notifications\<close>

inductive loop_steps :: "blockLoop \<Rightarrow> blockLoop \<Rightarrow> bool" where
  loop_start: "loop_steps l l"
| loop_more: "loop_steps l l' \<Longrightarrow> loop_step l' l'' \<Longrightarrow> loop_steps l l''"

text \<open>
  No notification of the node is lost, although the channel has room for one only: whatever
  happens after a notification, the listener has been called since, or the notification is still
  waiting and the loop can take it unless it was stopped.
\<close>

theorem notification_kept:
  assumes "loop_steps (notifyBlock l) l'"
  shows "callbacks l < callbacks l' \<or> blockReady l' \<and> callbacks l' = callbacks l
    \<and> (stopped l' \<or> loop_step l' (loopRound BlockReady l') \<and> callbacks (loopRound BlockReady l') = callbacks l + 1)"
proof -
  have "callbacks l < callbacks l' \<or> blockReady l' \<and> callbacks l' = callbacks l"
    using assms
  proof (induction "notifyBlock l" l')
    case loop_start
    then show ?case by (simp add: notifyBlock_def)
  next
    case (loop_more l' l'')
    from loop_more(3) show ?case using loop_more(2)
      by cases (auto simp: notifyBlock_def loopRound_def split: loop_event.splits)
  qed
  moreover have "loop_step l' (loopRound BlockReady l')" if "blockReady l'" "\<not> stopped l'"
    by (rule loop_step.round) (simp_all add: that)
  moreover have "callbacks (loopRound BlockReady l') = callbacks l' + 1" by (simp add: loopRound_def)
  ultimately show ?thesis by auto
qed

theorem notification_kept_witness:
  "\<exists>l'. loop_steps (notifyBlock \<lparr>blockReady = False, callbacks = 3, stopped = False\<rparr>) l' \<and> callbacks l' = 4"
proof -
  let ?l = "\<lparr>blockReady = False, callbacks = 3, stopped = False\<rparr>"
  have "loop_step (notifyBlock ?l) (loopRound BlockReady (notifyBlock ?l))"
    by (rule loop_step.round) (simp_all add: notifyBlock_def)
  then have s: "loop_steps (notifyBlock ?l) (loopRound BlockReady (notifyBlock ?l))"
    by (rule loop_more [OF loop_start])
  from notification_kept [OF s] have "callbacks (loopRound BlockReady (notifyBlock ?l)) = 4"
    by (simp add: notifyBlock_def loopRound_def)
  with s show ?thesis by blast
qed

end
