(* ===== verification/Bridge.thy ===== *)
theory Bridge
  imports BridgeServerLemmas
begin

text \<open>
  The bridge while it runs, as a transition system: connections arrive at the two listeners, their
  lines and frames are handled, jobs are sent, connections close in the foreground or in the
  background, the disconnect channels are emptied, and difficulties are adjusted, in any order.
  Each handler call or goroutine is one step. The state has the listener's map of clients, the share
  handler, the Stratum V2 handler, the connections (a store indexed by reference) and the two
  disconnect channels, each with room for 1024 events. A frame or a line may come from any
  connection at any time, which allows more than the two read loops do. A step that would panic
  does not exist; that no operation panics is a theorem of its own (\<open>bridge_progress\<close>). The only condition on what
  the operations compute is on a pass of the difficulty thread: it must not leave a difficulty that is
  not a number. The same theorem shows that this excludes no pass as long as the difficulties are finite; the
  product of an infinite one, after an overflow, and a rate of zero is not a number.
\<close>

subsection \<open>The system\<close>

record 'tx system =
  sysClients :: clientListener
  sysShares :: shareHandler
  sysSv2 :: sv2Handler
  sysConns :: "nat \<Rightarrow> 'tx client"
  used :: nat
  onV2 :: "nat \<Rightarrow> bool"
  setupDone :: "nat \<Rightarrow> bool"
  chan :: "bool \<Rightarrow> nat list"

text \<open>A connection as an operation finds it, and the system after the operation.\<close>

definition view :: "nat \<Rightarrow> 'tx system \<Rightarrow> 'tx client" where
  "view r s = (sysConns s r)\<lparr>onDisconnect := Some (length (chan s (onV2 s r)) < channelCapacity)\<rparr>"

definition put :: "nat \<Rightarrow> 'tx client \<Rightarrow> 'tx system \<Rightarrow> 'tx system" where
  "put r cl s = s\<lparr>sysConns := (sysConns s)(r := cl),
     chan := (chan s)(onV2 s r := chan s (onV2 s r) @ replicate (queued cl - queued (sysConns s r)) r)\<rparr>"

definition listener_of ::
    "(string \<Rightarrow> bool \<Rightarrow> bool) \<Rightarrow> (nat \<Rightarrow> int \<times> ('tx, 'db) node) \<Rightarrow> bool \<Rightarrow> 'tx system
     \<Rightarrow> ('tx MiningState, clientListener \<times> shareHandler) StratumListener" where
  "listener_of decode world v s = (NewListener (MiningStateGenerator 0)
     (listenerConfig decode world (if v then Some (sysSv2 s) else None) []))\<lparr>disconnectChannel := chan s v\<rparr>"

text \<open>\<open>connect\<close>: \<^verbatim>\<open>newClient\<close> for a connection to the listener \<open>v\<close> (true for Stratum V2). \<open>got_line\<close> and
  \<open>got_frame\<close>: one round of a read loop, with the deferred \<^verbatim>\<open>Disconnect\<close> if it ends. \<open>job\<close>: the goroutine of
  one client after a notification. \<open>hang\<close>: any loop ends without another handler call. \<open>background\<close>: the
  goroutine that an asynchronous \<^verbatim>\<open>Disconnect\<close> waits in. \<open>removed\<close>: one round of \<^verbatim>\<open>disconnectListener\<close>.
  \<open>late\<close>: the statistics goroutine of \<^verbatim>\<open>OnConnect\<close>. \<open>retargeting\<close>: one pass of the difficulty thread.\<close>

inductive sys_step :: "(string \<Rightarrow> bool \<Rightarrow> bool) \<Rightarrow> ('tx, 'db) node itself \<Rightarrow> 'tx system \<Rightarrow> 'tx system \<Rightarrow> bool"
  for decode :: "string \<Rightarrow> bool \<Rightarrow> bool" and db :: "('tx, 'db) node itself" where
  connect: "newClient now (used s) addr script sock (listener_of decode (world :: nat \<Rightarrow> int \<times> ('tx, 'db) node) v s)
      (MiningStateGenerator 0) (sysClients s, sysShares s) = (ctx, (c, sh), rt) \<Longrightarrow>
    sys_step decode db s (s\<lparr>sysClients := c, sysShares := sh, sysConns := (sysConns s)(used s := ctx),
      used := used s + 1, onV2 := (onV2 s)(used s := v), setupDone := (setupDone s)(used s := False),
      chan := (chan s)(v := chan s v @ replicate (queued ctx) (used s))\<rparr>)"
| got_line: "r < used s \<Longrightarrow>
    handle_line unmarshal (bridgeHandlers decode (world :: nat \<Rightarrow> int \<times> ('tx, 'db) node) k) text1 (view r s) (sysShares s)
      = Some (e, cl, sh) \<Longrightarrow>
    sys_step decode db s (put r (if e = None then cl else Disconnect cl) (s\<lparr>sysShares := sh\<rparr>))"
| got_frame: "r < used s \<Longrightarrow>
    sv2_step decode now (nd :: ('tx, 'db) node) frame
      \<lparr>sv2h = sysSv2 s, shares = sysShares s, conn = view r s, setupComplete = setupDone s r\<rparr> = Some (e, st) \<Longrightarrow>
    sys_step decode db s (put r (if e = None then conn st else Disconnect (conn st))
      (s\<lparr>sysShares := shares st, sysSv2 := sv2h st, setupDone := (setupDone s)(r := setupComplete st)\<rparr>))"
| job: "clients (sysClients s) i = Some r \<Longrightarrow> eligible (sysConns s r) \<Longrightarrow> hashes_32 (blake2b api) \<Longrightarrow>
    newJob now api solo (minShareDiff (sysClients s)) (view r s) (sysShares s) = Some (cl, sh) \<Longrightarrow>
    sys_step decode db s (put r cl (s\<lparr>sysShares := sh\<rparr>))"
| hang: "r < used s \<Longrightarrow> sys_step decode db s (put r (Disconnect (view r s)) s)"
| background: "r < used s \<Longrightarrow> sys_step decode db s (put r (runAsync (view r s)) s)"
| removed: "chan s v \<noteq> [] \<Longrightarrow>
    disconnectListener (sysConns s) (listener_of decode (world :: nat \<Rightarrow> int \<times> ('tx, 'db) node) v s)
      (sysClients s, sysShares s) = (l, (c, sh)) \<Longrightarrow>
    sys_step decode db s (s\<lparr>sysClients := c, sysShares := sh, chan := (chan s)(v := disconnectChannel l)\<rparr>)"
| late: "r < used s \<Longrightarrow> sys_step decode db s (s\<lparr>sysShares := lateStats now (sysConns s r) (sysShares s)\<rparr>)"
| retargeting: "distinct ks \<Longrightarrow> set ks = dom (stats (sysShares s)) \<Longrightarrow> retargetAll now (normalizeShareRate rate) ks (sysShares s) = Some sh \<Longrightarrow>
    diffs_ok sh \<Longrightarrow> sys_step decode db s (s\<lparr>sysShares := sh\<rparr>)"

inductive_cases sys_stepE: "sys_step decode db s s'"

inductive sys_steps :: "(string \<Rightarrow> bool \<Rightarrow> bool) \<Rightarrow> ('tx, 'db) node itself \<Rightarrow> 'tx system \<Rightarrow> 'tx system \<Rightarrow> bool"
  for decode :: "string \<Rightarrow> bool \<Rightarrow> bool" and db :: "('tx, 'db) node itself" where
  sys_start: "sys_steps decode db s s"
| sys_more: "sys_steps decode db s s' \<Longrightarrow> sys_step decode db s' s'' \<Longrightarrow> sys_steps decode db s s''"

text \<open>A bridge that was just started.\<close>

definition started :: "bridge \<Rightarrow> 'tx client \<Rightarrow> 'tx system" where
  "started b nobody = \<lparr>sysClients = bridgeClients b, sysShares = bridgeShares b,
     sysSv2 = (case bridgeSv2 b of Some h \<Rightarrow> h | None \<Rightarrow> newSV2Handler (minShareDiff (bridgeClients b)) True),
     sysConns = (\<lambda>_. nobody), used = 0, onV2 = (\<lambda>_. False), setupDone = (\<lambda>_. False), chan = (\<lambda>_. [])\<rparr>"

end
