(* ===== verification/Evolution.thy ===== *)
theory Evolution
  imports BridgeServerLemmas
begin

text \<open>
  What the handlers, a job and a frame may do to the connection they serve, and that no handler
  leaves a difficulty that is not a number: the facts about single operations on which the
  invariant of the running bridge rests.
\<close>

subsection \<open>What an operation may do to a connection\<close>

text \<open>The number stays; a connection is closed at most once, and then an event is offered to its
  channel; an open Stratum V2 channel never gets the number 0.\<close>

definition bad_channel :: "'st StratumContext \<Rightarrow> bool" where
  "bad_channel cl \<longleftrightarrow> IsSV2 cl \<and> SV2ChannelID cl = 0"

definition evolves :: "'st StratumContext \<Rightarrow> 'st StratumContext \<Rightarrow> bool" where
  "evolves cl cl' \<longleftrightarrow> Id cl' = Id cl \<and> onDisconnect cl' = onDisconnect cl \<and> (bad_channel cl' \<longrightarrow> bad_channel cl)
     \<and> (if disconnecting cl' = disconnecting cl then queued cl' = queued cl \<and> connClosed cl' = connClosed cl
        else disconnecting cl' \<and> connClosed cl' \<and> queued cl' = queued cl + of_bool (onDisconnect cl = Some True))"

lemma evolves_refl [simp]: "evolves cl cl"
  by (simp add: evolves_def)

lemma evolves_trans [trans]: "evolves a b \<Longrightarrow> evolves b c \<Longrightarrow> evolves a c"
  by (auto simp: evolves_def split: if_splits)

lemma evolves_same: "same_client a b \<Longrightarrow> evolves a b"
  by (simp add: evolves_def handler bad_channel_def IsSV2_def SV2ChannelID_def)

lemma evolves_fields [simp]:
  "evolves cl (cl\<lparr>State := ms\<rparr>)" "evolves cl (cl\<lparr>WalletAddr := a\<rparr>)" "evolves cl (cl\<lparr>WorkerName := n\<rparr>)"
  "evolves cl (cl\<lparr>RemoteApp := r\<rparr>)" "ch \<noteq> 0 \<Longrightarrow> evolves cl (EnableSV2 ch cl)" "evolves cl (cl\<lparr>asyncDisconnect := b\<rparr>)"
  "evolves cl (cl\<lparr>WalletAddr := a, WorkerName := n\<rparr>)"
  by (simp_all add: evolves_def EnableSV2_def bad_channel_def IsSV2_def SV2ChannelID_def)

lemma evolves_Disconnect [simp]: "evolves cl (Disconnect cl)"
  by (auto simp: evolves_def Disconnect_def Let_def bad_channel_def IsSV2_def SV2ChannelID_def
      split: option.split bool.split)

lemma evolves_runAsync: "evolves cl (runAsync cl)"
  unfolding runAsync_def by (auto intro: evolves_trans [OF evolves_fields(6) evolves_Disconnect])

lemma evolves_into: "evolves (f cl) c \<Longrightarrow> evolves cl (f cl) \<Longrightarrow> evolves cl c"
  by (rule evolves_trans)

subsection \<open>Stratum V1\<close>

lemma SendExtranonce_same: "same_client c (SendExtranonce c)"
  using snd.out_client [of "NewEvent [] ''set_extranonce'' [AStr (Extranonce c)]" c]
  by (cases "Send (NewEvent [] ''set_extranonce'' [AStr (Extranonce c)]) c") (simp add: SendExtranonce_def)

lemma HandleSubscribe_evolves:
  assumes "HandleSubscribe event ctx = (e, ctx')"
  shows "evolves ctx ctx'"
proof -
  obtain r c where r: "Reply (NewResponse event (AList [ABool True, AStr ''CryptixStratum/1.0.0'']) None) ctx = (r, c)"
    by fastforce
  have "evolves ctx c" using evolves_same [OF rep.out_client [OF r]] .
  moreover have "evolves c ctx'"
    using assms by (auto simp: HandleSubscribe_def r split: option.splits list.splits go_any.splits)
  ultimately show ?thesis by (rule evolves_trans)
qed

lemma HandleAuthorize_evolves:
  assumes "HandleAuthorize decode event ctx = (e, ctx')"
  shows "evolves ctx ctx'"
proof (cases "\<exists>identity ps address worker. Params event = AStr identity # ps
    \<and> ParseAuthorizeIdentity decode identity = Inr (address, worker)")
  case True
  then obtain identity ps address worker where p: "Params event = AStr identity # ps"
    "ParseAuthorizeIdentity decode identity = Inr (address, worker)" by blast
  let ?c = "ctx\<lparr>WalletAddr := address, WorkerName := worker\<rparr>"
  obtain r c where r: "Reply (NewResponse event (ABool True) None) ?c = (r, c)" by fastforce
  have "evolves ctx c" using evolves_same [OF rep.out_client [OF r]] evolves_fields(7) by (rule evolves_trans [rotated])
  moreover have "evolves c ctx'"
    using assms evolves_same [OF SendExtranonce_same, of c]
    by (auto simp: HandleAuthorize_def p Let_def r split: option.splits if_splits)
  ultimately show ?thesis by (rule evolves_trans)
next
  case False
  then have "ctx' = ctx"
    using assms by (auto simp: HandleAuthorize_def split: list.splits go_any.splits sum.splits)
  then show ?thesis by simp
qed

lemma HandleSubmit_evolves:
  assumes "HandleSubmit now nd event ctx sh = Some (e, ctx', sh')"
  shows "evolves ctx ctx'"
proof -
  have "replySubmitStatusV1 i st ctx = (x, c) \<Longrightarrow> evolves ctx c" for i st x and c :: "'a client"
    using reply_answered [of i st ctx x c] evolves_same by (auto simp: answered_def)
  then show ?thesis
    using assms by (auto simp: HandleSubmit_def Let_def split: prod.splits sum.splits if_splits option.splits)
qed

lemma handle_line_evolves:
  assumes "handle_line unmarshal (bridgeHandlers decode world k) line ctx sh = Some (e, ctx', sh')"
  shows "evolves ctx ctx'"
  using assms HandleSubscribe_evolves HandleAuthorize_evolves HandleSubmit_evolves
  by (fastforce simp: handle_line_def HandleEvent_def bridgeHandlers_def DefaultHandlers_def lift_handler_def
      submitHandler_def split: if_splits option.splits prod.splits)

subsection \<open>Stratum V2 and jobs\<close>

lemma write_or_return_evolves:
  assumes "write_or_return ext mt p st k = Some (e, st')"
    and "\<And>ctx. k (st\<lparr>conn := ctx\<rparr>) = Some (e, st') \<Longrightarrow> evolves ctx (conn st')"
  shows "evolves (conn st) (conn st')"
proof -
  obtain r ctx where w: "writeSV2Frame ext mt p (conn st) = (r, ctx)" by fastforce
  have "evolves (conn st) ctx" using evolves_same [OF writeSV2Frame_client [OF w]] .
  moreover have "evolves ctx (conn st')"
    using assms by (cases r) (auto simp: write_or_return_def w return_def)
  ultimately show ?thesis by (rule evolves_trans)
qed

lemma write_ignoring_evolves: "evolves (conn st) (conn (write_ignoring ext mt p st))"
  using writeSV2Frame_client [of ext mt p "conn st"]
  by (cases "writeSV2Frame ext mt p (conn st)") (simp add: write_ignoring_def evolves_same)

lemma go_on_evolves: "go_on st = Some (e, st') \<Longrightarrow> st' = st"
  by (simp add: go_on_def)

lemma return_evolves: "return err st = Some (e, st') \<Longrightarrow> st' = st"
  by (simp add: return_def)

lemma sv2_setup_evolves: "sv2_setup payload st = Some (e, st') \<Longrightarrow> evolves (conn st) (conn st')"
proof (cases "parseSV2SetupConnectionPayload payload")
  case (Inl err)
  assume "sv2_setup payload st = Some (e, st')"
  then show ?thesis using write_ignoring_evolves by (auto simp: sv2_setup_def Inl return_def)
next
  case (Inr app)
  assume a: "sv2_setup payload st = Some (e, st')"
  let ?st = "if app \<noteq> [] then st\<lparr>conn := (conn st)\<lparr>RemoteApp := app\<rparr>\<rparr> else st"
  have "write_or_return sv2ExtStandard sv2MsgSetupConnectionSuccess (encodeSV2SetupConnectionSuccessPayload 2 0) ?st
      (\<lambda>st. go_on (st\<lparr>setupComplete := True\<rparr>)) = Some (e, st')"
    using a by (simp add: sv2_setup_def Inr Let_def)
  then have "evolves (conn ?st) (conn st')" by (rule write_or_return_evolves) (auto dest: go_on_evolves)
  then show ?thesis using evolves_into [of "\<lambda>c. c\<lparr>RemoteApp := app\<rparr>"] by (auto split: if_splits)
qed

lemma channel_diff_evolves: "channel_diff d ctx = Some (diff, ctx') \<Longrightarrow> evolves ctx ctx'"
  by (auto simp: channel_diff_def Let_def split: if_splits option.splits)

lemma sv2_open_channel_evolves:
  assumes "sv2_open_channel now rid wallet worker st = Some (e, st')"
  shows "evolves (conn st) (conn st')"
proof -
  let ?ctx = "(conn st)\<lparr>WalletAddr := wallet, WorkerName := worker\<rparr>"
  obtain ch h where ch: "nextChannel (sv2h st) = (ch, h)" by fastforce
  have nz: "ch \<noteq> 0" using nextChannel_nonzero [of "sv2h st"] ch by simp
  let ?c1 = "EnableSV2 ch ?ctx"
  obtain b ms where ms: "InitializeIfNeeded (RemoteApp ?c1) (sv2MinShareDiff h) (State ?c1) = Some (b, ms)"
    using assms by (auto simp: sv2_open_channel_def ch Let_def split: option.splits)
  let ?c2 = "?c1\<lparr>State := ms\<rparr>"
  obtain prev sh where sh: "setClientVardiff now ?c2 (sv2MinShareDiff h) (shares st) = (prev, sh)" by fastforce
  obtain diff c3 where cd: "channel_diff (sv2MinShareDiff h) ?c2 = Some (diff, c3)"
    using assms by (auto simp: sv2_open_channel_def ch Let_def ms sh split: option.splits)
  obtain target where t: "diffToSV2TargetLE diff = Some target"
    using assms by (auto simp: sv2_open_channel_def ch Let_def ms sh cd split: option.splits)
  let ?st = "st\<lparr>sv2h := h, shares := sh, conn := c3\<rparr>"
  have "write_or_return sv2ExtStandard sv2MsgOpenMiningChannelSuccess
      (encodeSV2OpenChannelSuccessPayload rid ch target []) ?st
      (\<lambda>st. go_on (st\<lparr>shares := snd (getCreateStats now (conn st) (shares st))\<rparr>)) = Some (e, st')"
    using assms by (simp add: sv2_open_channel_def ch Let_def ms sh cd t)
  then have "evolves (conn ?st) (conn st')" by (rule write_or_return_evolves) (auto dest: go_on_evolves)
  moreover have "evolves (conn st) ?c2"
    by (rule evolves_trans [OF evolves_trans [OF evolves_fields(7) evolves_fields(5) [OF nz]] evolves_fields(1)])
  then have "evolves (conn st) c3" using channel_diff_evolves [OF cd] by (rule evolves_trans)
  ultimately show ?thesis by (auto intro: evolves_trans)
qed

lemma sv2_open_evolves:
  assumes "sv2_open decode now payload st = Some (e, st')"
  shows "evolves (conn st) (conn st')"
proof -
  have w: "evolves (conn s) (conn st')" if "write_or_return ext mt p s (return err) = Some (e, st')" for ext mt p s err
    by (rule write_or_return_evolves [OF that]) (auto dest: return_evolves)
  show ?thesis
    using assms w [of _ _ _ st] write_ignoring_evolves [of st] sv2_open_channel_evolves
      w [of _ _ _ "st\<lparr>shares := sh\<rparr>" for sh]
    by (fastforce simp: sv2_open_def dest: return_evolves split: sum.splits prod.splits if_splits)
qed

lemma sv2_submit_evolves:
  assumes "sv2_submit now nd payload st = Some (e, st')"
  shows "evolves (conn st) (conn st')"
proof -
  have w: "evolves (conn s) (conn st')" if "write_or_return ext mt p s go_on = Some (e, st')" for ext mt p s
    by (rule write_or_return_evolves [OF that]) (auto dest: go_on_evolves)
  show ?thesis
  proof (cases "parseSV2SubmitSharePayload payload")
    case (Inl err)
    then show ?thesis using assms write_ignoring_evolves by (auto simp: sv2_submit_def return_def)
  next
    case (Inr p)
    obtain ch sq job nonce ntime where p: "p = (ch, sq, job, nonce, ntime)" by (cases p)
    show ?thesis
    proof (cases "IsSV2 (conn st) \<and> ch = SV2ChannelID (conn st)")
      case False
      then show ?thesis using assms w by (auto simp: sv2_submit_def Inr p)
    next
      case True
      then obtain status err sh where h: "HandleSubmitSV2 now nd (conn st) job (packNonce ntime nonce) (shares st)
          = Some ((status, err), sh)"
        using assms by (auto simp: sv2_submit_def Inr p split: option.splits)
      have "evolves (conn (st\<lparr>shares := sh\<rparr>)) (conn st')"
        using assms True w [of _ _ _ "st\<lparr>shares := sh\<rparr>"] by (auto simp: sv2_submit_def Inr p h Let_def split: if_splits)
      then show ?thesis by simp
    qed
  qed
qed

lemma sv2_step_evolves: "sv2_step decode now nd frame st = Some (e, st') \<Longrightarrow> evolves (conn st) (conn st')"
  by (auto simp: sv2_step_def sv2_setup_evolves sv2_open_evolves sv2_submit_evolves dest: go_on_evolves split: if_splits)

lemma sendClientDiff_evolves: "sendClientDiff d cl sh = (cl', sh') \<Longrightarrow> evolves cl cl'"
  using sendClientDiff_frame(1) evolves_same by blast

lemma sv2SendFailed_evolves: "sv2SendFailed err code cl sh = (cl', sh') \<Longrightarrow> evolves cl cl'"
  by (auto simp: sv2SendFailed_def split: if_splits)

lemma initClient_evolves:
  assumes "initClient now solo minDiff cl sh = Some (cl', sh')"
  shows "evolves cl cl'"
proof -
  obtain new ms where i: "InitializeIfNeeded (RemoteApp cl) minDiff (State cl) = Some (new, ms)"
    using assms by (auto simp: initClient_def split: option.splits)
  show ?thesis
    using assms by (auto simp: initClient_def i Let_def split: if_splits
        dest!: sendClientDiff_evolves intro: evolves_trans [OF evolves_fields(1)])
qed

lemma changeDiff_evolves:
  assumes "changeDiff now d cl sh = Some (on, cl', sh')"
  shows "evolves cl cl'"
proof -
  obtain old ms where i: "SetStratumDiff d (State cl) = Some (old, ms)"
    using assms by (auto simp: changeDiff_def split: option.splits)
  let ?cl = "cl\<lparr>State := ms\<rparr>"
  have "evolves ?cl cl'"
  proof (cases "IsSV2 ?cl")
    case True
    then obtain r c where w: "sendSV2Target d ?cl = Some (r, c)"
      using assms by (auto simp: changeDiff_def i Let_def split: option.splits)
    then have "evolves ?cl c"
      by (auto simp: sendSV2Target_def split: option.splits dest: writeSV2Frame_client evolves_same)
    moreover have "evolves c cl'"
      using assms True w by (cases r) (auto simp: changeDiff_def i Let_def dest: sv2SendFailed_evolves)
    ultimately show ?thesis by (rule evolves_trans)
  next
    case False
    then show ?thesis
      using assms by (auto simp: changeDiff_def i Let_def split: prod.splits dest: sendClientDiff_evolves)
  qed
  with evolves_fields(1) show ?thesis by (rule evolves_trans)
qed

lemma sendJob_evolves:
  assumes "sendJob addr b header cl sh = Some (cl', sh')"
  shows "evolves cl cl'"
proof -
  obtain i ms where a: "AddJob b (State cl) = (i, ms)" by fastforce
  let ?cl = "cl\<lparr>State := ms\<rparr>"
  have "evolves ?cl cl'"
  proof (cases "IsSV2 ?cl")
    case True
    obtain r c where w: "sendSV2Job (word_of_int i) header (Version (Header b)) (Timestamp (Header b))
        (Bits (Header b)) ?cl = (r, c)" by fastforce
    have "evolves ?cl c" using evolves_same [OF sendSV2Job_client [OF w]] .
    moreover have "evolves c cl'"
      using assms True w by (cases r) (auto simp: sendJob_def a Let_def dest: sv2SendFailed_evolves)
    ultimately show ?thesis by (rule evolves_trans)
  next
    case False
    then obtain ps where ps: "jobParams (GetUseBigJob ms) i header (Timestamp (Header b)) = Some ps"
      using assms by (auto simp: sendJob_def a Let_def split: option.splits)
    obtain r c where w: "Send \<lparr>eventId = AInt i, jsonrpc = ''2.0'', Method = ''mining.notify'', Params = ps\<rparr> ?cl = (r, c)"
      by fastforce
    have "evolves ?cl c" using evolves_same [OF snd.out_client [OF w]] .
    moreover have "evolves c cl'"
      using assms False w by (cases r) (auto simp: sendJob_def a ps Let_def split: if_splits)
    ultimately show ?thesis by (rule evolves_trans)
  qed
  with evolves_fields(1) show ?thesis by (rule evolves_trans)
qed

lemma newJob_evolves:
  assumes "newJob now api solo minDiff cl sh = Some (cl', sh')"
  shows "evolves cl cl'"
proof (cases "GetBlockTemplate api cl")
  case (Inl err)
  then show ?thesis using assms by (auto simp: newJob_def templateFailed_def Let_def split: if_splits)
next
  case (Inr b)
  obtain netDiff ms where n: "SetNetworkTarget (ucast (Bits (Header b))) (State cl) = (netDiff, ms)" by fastforce
  let ?cl = "cl\<lparr>State := ms\<rparr>"
  have "evolves ?cl cl'"
  proof (cases "SerializeBlockHeader (blake2b api) b")
    case (Inl err)
    then show ?thesis using assms Inr n by (auto simp: newJob_def Let_def)
  next
    case header: (Inr header)
    obtain on cl1 sh1 where a: "adjustDiff now solo minDiff netDiff ?cl (snd (getCreateStats now cl sh)) = Some (on, cl1, sh1)"
      using assms Inr n header by (auto simp: newJob_def Let_def split: option.splits)
    have "evolves ?cl cl1"
      using a by (auto simp: adjustDiff_def split: option.splits prod.splits if_splits
          dest!: initClient_evolves changeDiff_evolves intro: evolves_trans)
    moreover have "evolves cl1 cl'"
      using assms Inr n header a by (cases on) (auto simp: newJob_def Let_def dest: sendJob_evolves)
    ultimately show ?thesis by (rule evolves_trans)
  qed
  with evolves_fields(1) show ?thesis by (rule evolves_trans)
qed

subsection \<open>The share handler in every step\<close>

lemma zero_diff [simp]: "(0 :: f64) \<noteq> NaN"
  by (simp add: zero_f64_def)

lemma processSubmit_diffs:
  assumes "diffs_ok sh" and "processSubmit now nd ctx si sh = Some ((st, e), sh')"
  shows "diffs_ok sh'"
proof -
  obtain r sh1 where g: "getCreateStats now ctx sh = (r, sh1)" by fastforce
  obtain c sh2 where k: "checkStales ctx si sh1 = (c, sh2)" by fastforce
  have "diffs_ok sh1" by (rule getCreateStats_diffs [OF assms(1) _ g]) simp
  then have "diffs_ok sh2" using checkStales_frame(2) [OF k] by (simp add: worker_diffs_def)
  moreover obtain ops sh3 where "sh' = record_prom ops sh3"
    "if e = None then booked now r st sh2 sh3 else sh3 = sh2 \<and> st = SubmitStatusBad"
    using processSubmit_form [OF assms(2) g k] by blast
  ultimately show ?thesis
    by (auto simp: booked_def addStale_def addInvalid_def addBlock_def creditShare_def intro!: worker_diffs_upd
        split: if_splits SubmitStatus.splits)
qed

lemma staleSubmit_diffs: "diffs_ok sh \<Longrightarrow> diffs_ok (staleSubmit now ctx sh)"
proof -
  assume d: "diffs_ok sh"
  obtain r sh1 where g: "getCreateStats now ctx sh = (r, sh1)" by fastforce
  have "diffs_ok sh1" by (rule getCreateStats_diffs [OF d _ g]) simp
  then show ?thesis by (auto simp: staleSubmit_def g addStale_def intro!: worker_diffs_upd)
qed

lemma HandleSubmit_diffs:
  "diffs_ok sh \<Longrightarrow> HandleSubmit now nd event ctx sh = Some (e, ctx', sh') \<Longrightarrow> diffs_ok sh'"
  by (auto simp: HandleSubmit_def Let_def staleSubmit_diffs dest: processSubmit_diffs [rotated]
      split: prod.splits sum.splits if_splits option.splits)

lemma HandleSubmitSV2_diffs:
  "diffs_ok sh \<Longrightarrow> HandleSubmitSV2 now nd ctx i nonce sh = Some ((st, e), sh') \<Longrightarrow> diffs_ok sh'"
  by (auto simp: HandleSubmitSV2_def staleSubmit_diffs dest: processSubmit_diffs [rotated] split: option.splits)

lemma line_inv:
  assumes "shares_ok sh" and "mining_ok (State ctx)"
    and "handle_line unmarshal (bridgeHandlers decode world k) l ctx sh = Some (e, ctx', sh')"
  shows "shares_ok sh' \<and> mining_ok (State ctx')"
proof -
  have inv: "client_inv ctx sh" using assms(1,2) by (simp add: client_inv_def shares_ok_def)
  consider "ctx' = ctx" "sh' = sh" | event h where "bridgeHandlers decode world k (Method event) = Some h"
    "h event ctx sh = Some (e, ctx', sh')"
    using assms(3) by (auto simp: handle_line_def HandleEvent_def split: if_splits option.splits)
  then show ?thesis
  proof cases
    case 2
    obtain e2 c2 s2 where h: "h event ctx sh = Some (e2, c2, s2)" "client_inv c2 s2"
      using bridge.handler_runs [OF 2(1) inv] by blast
    have "diffs_ok sh'"
      using 2 assms(1) HandleSubmit_diffs [of sh "fst (world k)" "snd (world k)" event ctx]
      by (auto simp: bridgeHandlers_def DefaultHandlers_def lift_handler_def submitHandler_def shares_ok_def
          split: if_splits prod.splits option.splits)
    with h 2 show ?thesis by (simp add: client_inv_def shares_ok_def)
  qed (use assms in simp)
qed

lemma write_ignoring_shares [simp]: "shares (write_ignoring ext mt p st) = shares st"
  by (simp add: write_ignoring_def)

text \<open>A property of the share handler that the four ways in which the Stratum V2 handler uses it keep,
  holds after every frame. \<open>D\<close> is what the configured difficulty must satisfy.\<close>

locale share_inv =
  fixes Q :: "shareHandler \<Rightarrow> bool" and D :: "f64 \<Rightarrow> bool"
  assumes Q_stats: "Q sh \<Longrightarrow> Q (snd (getCreateStats now (ctx :: 'tx client) sh))"
    and Q_vardiff: "Q sh \<Longrightarrow> D d \<Longrightarrow> Q (snd (setClientVardiff now (ctx :: 'tx client) d sh))"
    and Q_submit: "Q sh \<Longrightarrow> HandleSubmitSV2 now (nd :: ('tx, 'db) node) ctx i nonce sh = Some ((status, err), sh') \<Longrightarrow> Q sh'"
    and Q_error: "Q sh \<Longrightarrow> Q (record_prom (RecordWorkerError a c) sh)"

context share_inv begin

lemma write_keeps:
  assumes "write_or_return ext mt p st k = Some (e, st')"
    and "\<And>ctx. k (st\<lparr>conn := ctx\<rparr>) = Some (e, st') \<Longrightarrow> Q (shares st')" and "Q (shares st)"
  shows "Q (shares st')"
proof -
  obtain r ctx where w: "writeSV2Frame ext mt p (conn st) = (r, ctx)" by fastforce
  show ?thesis using assms by (cases r) (auto simp: write_or_return_def w return_def)
qed

lemma open_channel_keeps:
  assumes "sv2_open_channel now rid wallet worker (st :: 'tx sv2_state) = Some (e, st')" and "Q (shares st)"
    and "D (sv2MinShareDiff (sv2h st))"
  shows "Q (shares st')"
proof -
  let ?ctx = "(conn st)\<lparr>WalletAddr := wallet, WorkerName := worker\<rparr>"
  obtain ch h where ch: "nextChannel (sv2h st) = (ch, h)" by fastforce
  then have h: "sv2MinShareDiff h = sv2MinShareDiff (sv2h st)" by (auto simp: nextChannel_def Let_def)
  obtain b ms where ms: "InitializeIfNeeded (RemoteApp (EnableSV2 ch ?ctx)) (sv2MinShareDiff h) (State (EnableSV2 ch ?ctx)) = Some (b, ms)"
    using assms by (auto simp: sv2_open_channel_def ch Let_def split: option.splits)
  let ?c2 = "(EnableSV2 ch ?ctx)\<lparr>State := ms\<rparr>"
  obtain prev sh where sh: "setClientVardiff now ?c2 (sv2MinShareDiff h) (shares st) = (prev, sh)" by fastforce
  have d: "Q sh"
    using Q_vardiff [OF assms(2), of "sv2MinShareDiff h" now ?c2] assms(3) sh h by simp
  obtain diff c3 where cd: "channel_diff (sv2MinShareDiff h) ?c2 = Some (diff, c3)"
    using assms by (auto simp: sv2_open_channel_def ch Let_def ms sh split: option.splits)
  obtain target where t: "diffToSV2TargetLE diff = Some target"
    using assms by (auto simp: sv2_open_channel_def ch Let_def ms sh cd split: option.splits)
  let ?st = "st\<lparr>sv2h := h, shares := sh, conn := c3\<rparr>"
  have w: "write_or_return sv2ExtStandard sv2MsgOpenMiningChannelSuccess
      (encodeSV2OpenChannelSuccessPayload rid ch target []) ?st
      (\<lambda>st. go_on (st\<lparr>shares := snd (getCreateStats now (conn st) (shares st))\<rparr>)) = Some (e, st')"
    using assms by (simp add: sv2_open_channel_def ch Let_def ms sh cd t)
  have "Q (snd (getCreateStats now c sh))" for c :: "'tx client"
    by (rule Q_stats [OF d])
  then have "Q (shares st')"
    if g: "go_on (x\<lparr>shares := snd (getCreateStats now (conn x) (shares x))\<rparr>) = Some (e, st')" "shares x = sh" for x
    unfolding go_on_evolves [OF g(1)] by (simp add: g(2))
  note cont = this [of "?st\<lparr>conn := c\<rparr>" for c]
  show ?thesis
    by (rule write_keeps [OF w]) (rule cont, assumption, simp, use d in simp)
qed

lemma step_keeps:
  assumes "sv2_step decode now (nd :: ('tx, 'db) node) frame st = Some (e, st')" and "Q (shares st)"
    and "D (sv2MinShareDiff (sv2h st))"
  shows "Q (shares st')"
proof -
  have w: "Q (shares st')" if "write_or_return ext mt p s k = Some (e, st')" "Q (shares s)"
    "\<And>s e st'. k s = Some (e, st') \<Longrightarrow> shares st' = shares s" for ext mt p s k
    by (rule write_keeps [OF that(1) _ that(2)]) (use that(2,3) in simp)
  have go: "go_on s = Some (x, s') \<Longrightarrow> shares s' = shares s"
    and ret: "return err s = Some (x, s') \<Longrightarrow> shares s' = shares s"
    and set: "go_on (s\<lparr>setupComplete := b\<rparr>) = Some (x, s') \<Longrightarrow> shares s' = shares s"
    for s s' :: "'tx sv2_state" and x err b by (auto simp: go_on_def return_def)
  have "?thesis" if "sv2_setup payload st = Some (e, st')" for payload
    using that assms(2) w [OF _ _ set] by (auto simp: sv2_setup_def Let_def dest: ret split: sum.splits if_splits)
  moreover have "?thesis" if a: "sv2_open decode now payload st = Some (e, st')" for payload
  proof (cases "parseSV2OpenStandardChannelPayload payload")
    case (Inl err)
    then show ?thesis using a assms(2) by (auto simp: sv2_open_def dest: ret)
  next
    case (Inr p)
    obtain rid identity where p: "p = (rid, identity)" by (cases p)
    show ?thesis
    proof (cases "setupComplete st \<and> (\<exists>q. ParseAuthorizeIdentity decode identity = Inr q)")
      case True
      then show ?thesis using a assms(2,3) by (auto simp: sv2_open_def Inr p intro: open_channel_keeps)
    next
      case False
      let ?refused = "st\<lparr>shares := record_prom (RecordWorkerError (WalletAddr (conn st)) ErrInvalidAddressFmt) (shares st)\<rparr>"
      have "Q (shares ?refused)" using Q_error [OF assms(2)] by simp
      note refused = w [OF _ this ret]
      show ?thesis
      proof (cases "setupComplete st")
        case True
        with False show ?thesis using a by (auto simp: sv2_open_def Inr p intro: refused split: sum.splits)
      next
        case unset: False
        show ?thesis by (rule w [OF _ assms(2) ret]) (use a unset in \<open>auto simp: sv2_open_def Inr p\<close>)
      qed
    qed
  qed
  moreover have "?thesis" if a: "sv2_submit now nd payload st = Some (e, st')" for payload
  proof (cases "parseSV2SubmitSharePayload payload")
    case (Inl err)
    then show ?thesis using a assms(2) by (auto simp: sv2_submit_def dest: ret)
  next
    case (Inr p)
    obtain ch sq i nonce ntime where p: "p = (ch, sq, i, nonce, ntime)" by (cases p)
    show ?thesis
    proof (cases "IsSV2 (conn st) \<and> ch = SV2ChannelID (conn st)")
      case False
      then show ?thesis using a assms(2) w [OF _ _ go] by (auto simp: sv2_submit_def Inr p)
    next
      case True
      then obtain status err sh where h: "HandleSubmitSV2 now nd (conn st) i (packNonce ntime nonce) (shares st)
          = Some ((status, err), sh)"
        using a by (auto simp: sv2_submit_def Inr p split: option.splits)
      then have "Q (shares (st\<lparr>shares := sh\<rparr>))" using Q_submit [OF assms(2)] by simp
      then show ?thesis
        using a True w [OF _ _ go] by (auto simp: sv2_submit_def Inr p h Let_def split: if_splits)
    qed
  qed
  ultimately show ?thesis using assms(1,2) go by (auto simp: sv2_step_def split: if_splits)
qed

end

interpretation diffs: share_inv diffs_ok "\<lambda>d. d \<noteq> NaN"
proof
  show "diffs_ok sh \<Longrightarrow> diffs_ok (snd (getCreateStats now ctx sh))" for sh now and ctx :: "'a client"
    using getCreateStats_diffs [where sh = sh and now = now and ctx = ctx] by (cases "getCreateStats now ctx sh") simp
  show "diffs_ok sh \<Longrightarrow> d \<noteq> NaN \<Longrightarrow> diffs_ok (snd (setClientVardiff now ctx d sh))" for sh d now and ctx :: "'a client"
    using setClientVardiff_diffs [where sh = sh and d = d and now = now and ctx = ctx] f64_max_number [of d min_client_diff]
    by (cases "setClientVardiff now ctx d sh") (simp add: min_client_diff_def)
  show "diffs_ok sh \<Longrightarrow> HandleSubmitSV2 now nd ctx i nonce sh = Some ((status, err), sh') \<Longrightarrow> diffs_ok sh'"
    for sh now i nonce status err sh' and nd :: "('a, 'b) node" and ctx by (rule HandleSubmitSV2_diffs)
qed (simp add: worker_diffs_def)

lemmas sv2_step_diffs = diffs.step_keeps

lemma nextChannel_keeps: "sv2MinShareDiff (snd (nextChannel h)) = sv2MinShareDiff h"
  by (simp add: nextChannel_def Let_def)

end
