(* ===== verification/BridgeLemmas.thy ===== *)
theory BridgeLemmas
  imports Bridge Evolution
begin

text \<open>
  The invariant of the running bridge and its preservation, one lemma for each kind of step, and
  what follows for every reachable state.
\<close>

subsection \<open>The invariant\<close>

definition conns_ok :: "'tx system \<Rightarrow> bool" where
  "conns_ok s \<longleftrightarrow> (\<forall>r<used s. mining_ok (State (sysConns s r)) \<and> \<not> bad_channel (sysConns s r)
     \<and> connClosed (sysConns s r) = disconnecting (sysConns s r)
     \<and> queued (sysConns s r) \<le> of_bool (disconnecting (sysConns s r)))"

definition map_ok :: "'tx system \<Rightarrow> bool" where
  "map_ok s \<longleftrightarrow> (\<forall>i r. clients (sysClients s) i = Some r \<longrightarrow> r < used s \<and> Id (sysConns s r) = i)"

definition chans_ok :: "'tx system \<Rightarrow> bool" where
  "chans_ok s \<longleftrightarrow> (\<forall>v. length (chan s v) \<le> channelCapacity \<and> distinct (chan s v)
     \<and> (\<forall>r\<in>set (chan s v). r < used s \<and> onV2 s r = v \<and> disconnecting (sysConns s r) \<and> queued (sysConns s r) = 1))"

definition gone_ok :: "'tx system \<Rightarrow> bool" where
  "gone_ok s \<longleftrightarrow> (\<forall>r<used s. disconnecting (sysConns s r) \<longrightarrow> clients (sysClients s) (Id (sysConns s r)) = Some r \<longrightarrow>
     queued (sysConns s r) = 0 \<or> r \<in> set (chan s (onV2 s r)))"

definition parts_ok :: "'tx system \<Rightarrow> bool" where
  "parts_ok s \<longleftrightarrow> shares_ok (sysShares s) \<and> diff_ok (minShareDiff (sysClients s)) \<and> diff_ok (sv2MinShareDiff (sysSv2 s))"

definition sys_ok :: "'tx system \<Rightarrow> bool" where
  "sys_ok s \<longleftrightarrow> parts_ok s \<and> conns_ok s \<and> map_ok s \<and> chans_ok s \<and> gone_ok s"

lemma put_simps [simp]:
  "sysClients (put r cl s) = sysClients s" "sysShares (put r cl s) = sysShares s" "sysSv2 (put r cl s) = sysSv2 s"
  "used (put r cl s) = used s" "onV2 (put r cl s) = onV2 s" "sysConns (put r cl s) = (sysConns s)(r := cl)"
  by (simp_all add: put_def)

text \<open>An operation on one connection keeps the invariant.\<close>

lemma put_ok:
  assumes "sys_ok s" and "r < used s" and "evolves (view r s) cl" and "mining_ok (State cl)"
  shows "sys_ok (put r cl s)"
proof -
  let ?old = "sysConns s r" and ?room = "length (chan s (onV2 s r)) < channelCapacity"
  have inv: "parts_ok s" "conns_ok s" "map_ok s" "chans_ok s" "gone_ok s" using assms(1) by (simp_all add: sys_ok_def)
  have old: "\<not> bad_channel ?old" "connClosed ?old = disconnecting ?old" "queued ?old \<le> of_bool (disconnecting ?old)"
    using inv(2) assms(2) by (simp_all add: conns_ok_def)
  have v: "Id (view r s) = Id ?old" "disconnecting (view r s) = disconnecting ?old" "queued (view r s) = queued ?old"
    "connClosed (view r s) = connClosed ?old" "bad_channel (view r s) = bad_channel ?old"
    "onDisconnect (view r s) = Some ?room"
    by (simp_all add: view_def bad_channel_def IsSV2_def SV2ChannelID_def)
  have id: "Id cl = Id ?old" and bad: "\<not> bad_channel cl"
    and kept: "disconnecting cl = disconnecting ?old \<Longrightarrow> queued cl = queued ?old \<and> connClosed cl = connClosed ?old"
    and fresh: "disconnecting cl \<noteq> disconnecting ?old \<Longrightarrow> disconnecting cl \<and> connClosed cl \<and> queued cl = queued ?old + of_bool ?room"
    using assms(3) old(1) unfolding evolves_def v by (auto split: if_splits)
  have "conns_ok (put r cl s)"
    using inv(2) old bad assms(4) kept fresh
    by (cases "disconnecting cl = disconnecting ?old") (auto simp: conns_ok_def)
  moreover have "map_ok (put r cl s)" using inv(3) id by (auto simp: map_ok_def)
  moreover have "parts_ok (put r cl s)" using inv(1) by (simp add: parts_ok_def)
  moreover have "chans_ok (put r cl s) \<and> gone_ok (put r cl s)"
  proof (cases "disconnecting cl = disconnecting ?old")
    case True
    then have "chan (put r cl s) = chan s" using kept by (simp add: put_def)
    then show ?thesis using inv(4,5) kept True id by (auto simp: chans_ok_def gone_ok_def)
  next
    case False
    then have q: "queued cl - queued ?old = of_bool ?room" "queued cl = of_bool ?room" "disconnecting cl" "\<not> disconnecting ?old"
      using fresh old(3) by (auto split: if_splits)
    have notin: "r \<notin> set (chan s x)" for x using inv(4) q(4) by (auto simp: chans_ok_def)
    have c: "chan (put r cl s) = (chan s)(onV2 s r := chan s (onV2 s r) @ (if ?room then [r] else []))"
      using q(1) by (simp add: put_def)
    have "chans_ok (put r cl s)"
      using inv(4) notin q(2,3) assms(2) unfolding chans_ok_def c by (auto simp: Suc_le_eq)
    moreover have "gone_ok (put r cl s)"
      using inv(5) q(2) unfolding gone_ok_def c by (auto simp: id)
    ultimately show ?thesis ..
  qed
  ultimately show ?thesis by (simp add: sys_ok_def)
qed

subsection \<open>Every step keeps the invariant\<close>

lemma view_simps [simp]:
  "State (view r s) = State (sysConns s r)" "bad_channel (view r s) = bad_channel (sysConns s r)"
  by (simp_all add: view_def bad_channel_def IsSV2_def SV2ChannelID_def)

lemma sys_ok_conn: "sys_ok s \<Longrightarrow> r < used s \<Longrightarrow> mining_ok (State (sysConns s r)) \<and> \<not> bad_channel (sysConns s r)"
  by (simp add: sys_ok_def conns_ok_def)

text \<open>What the invariant says of connections, map and channels does not read the handlers.\<close>

definition same_links :: "'tx system \<Rightarrow> 'tx system \<Rightarrow> bool" where
  "same_links s s' \<longleftrightarrow> sysClients s' = sysClients s \<and> sysConns s' = sysConns s \<and> used s' = used s
     \<and> onV2 s' = onV2 s \<and> chan s' = chan s"

lemma same_links_ok:
  assumes "same_links s s'" and "sys_ok s" and "parts_ok s'"
  shows "sys_ok s'"
proof -
  have e: "sysClients s' = sysClients s" "sysConns s' = sysConns s" "used s' = used s" "onV2 s' = onV2 s" "chan s' = chan s"
    using assms(1) by (simp_all add: same_links_def)
  have "conns_ok s' = conns_ok s" by (simp only: conns_ok_def e)
  moreover have "map_ok s' = map_ok s" by (simp only: map_ok_def e)
  moreover have "chans_ok s' = chans_ok s" by (simp only: chans_ok_def e)
  moreover have "gone_ok s' = gone_ok s" by (simp only: gone_ok_def e)
  ultimately show ?thesis using assms(2,3) by (simp only: sys_ok_def)
qed

lemma sys_ok_shares:
  assumes "sys_ok s" and "shares_ok sh"
  shows "sys_ok (s\<lparr>sysShares := sh\<rparr>)"
  by (rule same_links_ok [OF _ assms(1)]) (use assms in \<open>simp_all add: same_links_def parts_ok_def sys_ok_def\<close>)

lemma sys_ok_sv2:
  assumes "sys_ok s" and "shares_ok sh" and "diff_ok (sv2MinShareDiff h)"
  shows "sys_ok (s\<lparr>sysShares := sh, sysSv2 := h, setupDone := f\<rparr>)"
  by (rule same_links_ok [OF _ assms(1)]) (use assms in \<open>simp_all add: same_links_def parts_ok_def sys_ok_def\<close>)

lemma view_update [simp]:
  "view r (s\<lparr>sysShares := sh\<rparr>) = view r s" "view r (s\<lparr>sysShares := sh, sysSv2 := h, setupDone := f\<rparr>) = view r s"
  by (simp_all add: view_def)

lemma mining_Disconnect [simp]: "State (Disconnect cl) = State cl"
  by (auto simp: Disconnect_def Let_def split: option.split bool.split)

lemma mining_runAsync [simp]: "State (runAsync cl) = State cl"
  by (simp add: runAsync_def)

lemma evolves_hang: "evolves a b \<Longrightarrow> evolves a (if e = None then b else Disconnect b)"
  by (cases e) (auto intro: evolves_trans [OF _ evolves_Disconnect])

lemma frame_step:
  assumes "sys_ok s" and "r < used s"
    and "sv2_step decode now nd frame \<lparr>sv2h = sysSv2 s, shares = sysShares s, conn = view r s, setupComplete = setupDone s r\<rparr>
      = Some (e, st)"
  shows "sys_ok (put r (if e = None then conn st else Disconnect (conn st))
      (s\<lparr>sysShares := shares st, sysSv2 := sv2h st, setupDone := (setupDone s)(r := setupComplete st)\<rparr>))"
proof -
  let ?st = "\<lparr>sv2h = sysSv2 s, shares = sysShares s, conn = view r s, setupComplete = setupDone s r\<rparr>"
  have p: "shares_ok (sysShares s)" "diff_ok (sv2MinShareDiff (sysSv2 s))" using assms(1) by (simp_all add: sys_ok_def parts_ok_def)
  have "\<not> bad_channel (view r s)" using sys_ok_conn [OF assms(1,2)] by simp
  then have "sv2_inv ?st"
    using p sys_ok_conn [OF assms(1,2)] by (simp add: sv2_inv_def shares_ok_def bad_channel_def)
  from sv2_step_fine [OF this, of decode now nd frame] assms(3) have i: "sv2_inv st" by (auto simp: fine_def)
  have "sv2MinShareDiff (sysSv2 s) \<noteq> NaN" using p(2) by (simp add: diff_ok_def)
  then have "diffs_ok (shares st)"
    using sv2_step_diffs [OF assms(3)] p(1) by (simp add: shares_ok_def)
  with i have ok: "sys_ok (s\<lparr>sysShares := shares st, sysSv2 := sv2h st, setupDone := (setupDone s)(r := setupComplete st)\<rparr>)"
    by (intro sys_ok_sv2 [OF assms(1)]) (simp_all add: shares_ok_def sv2_inv_def)
  have "evolves (view r s) (conn st)" using sv2_step_evolves [OF assms(3)] by simp
  then show ?thesis
    using i assms(2) by (intro put_ok [OF ok]) (simp_all add: evolves_hang sv2_inv_def)
qed

lemma newClient_listener:
  assumes "newClient now ref addr script sock (listener_of decode world v s) st0 (c, sh) = (ctx, (c', sh'), rt)"
  shows "sh' = sh \<and> (\<exists>ctx0. OnConnect ref (newContext (MiningStateGenerator now) addr script
      (length (chan s v) < channelCapacity)) c = (ctx0, c') \<and> (ctx = ctx0 \<or> ctx = Disconnect ctx0))"
  using assms
  by (auto simp: newClient_def listener_of_def NewListener_def listenerConfig_def Let_def
      split: prod.splits sum.splits option.splits if_splits)

lemma connect_step:
  assumes "sys_ok s"
    and "newClient now (used s) addr script sock (listener_of decode world v s) st0 (sysClients s, sysShares s) = (ctx, (c, sh), rt)"
  shows "sys_ok (s\<lparr>sysClients := c, sysShares := sh, sysConns := (sysConns s)(used s := ctx),
      used := used s + 1, onV2 := (onV2 s)(used s := v), setupDone := (setupDone s)(used s := False),
      chan := (chan s)(v := chan s v @ replicate (queued ctx) (used s))\<rparr>)"
proof -
  let ?room = "length (chan s v) < channelCapacity"
  let ?new = "newContext (MiningStateGenerator now) addr script ?room :: 'a client"
  let ?i = "clientCounter (sysClients s) + 1"
  obtain ctx0 where sh: "sh = sysShares s" and o: "OnConnect (used s) ?new (sysClients s) = (ctx0, c)"
    and ctx: "ctx = ctx0 \<or> ctx = Disconnect ctx0" using newClient_listener [OF assms(2)] by blast
  have c: "clients c = (clients (sysClients s))(?i \<mapsto> used s)" "minShareDiff c = minShareDiff (sysClients s)"
    and f0: "Id ctx0 = ?i" "\<not> disconnecting ctx0" "\<not> connClosed ctx0" "queued ctx0 = 0" "State ctx0 = MiningStateGenerator now"
      "\<not> bad_channel ctx0" "onDisconnect ctx0 = Some ?room"
    using o by (auto simp: OnConnect_def takeExtranonce_def newContext_def bad_channel_def IsSV2_def Let_def split: if_splits)
  have d: "evolves ctx0 ctx" using ctx by auto
  then have f: "Id ctx = ?i" "\<not> bad_channel ctx" "connClosed ctx = disconnecting ctx"
    "queued ctx = of_bool (disconnecting ctx \<and> ?room)"
    using f0 by (auto simp: evolves_def split: if_splits)
  have st: "mining_ok (State ctx)" using ctx f0(5) MiningStateGenerator_ok [of now] by auto
  have inv: "parts_ok s" "conns_ok s" "map_ok s" "chans_ok s" "gone_ok s" using assms(1) by (simp_all add: sys_ok_def)
  have fresh: "used s \<notin> set (chan s x)" for x using inv(4) by (auto simp: chans_ok_def)
  let ?s = "s\<lparr>sysClients := c, sysShares := sh, sysConns := (sysConns s)(used s := ctx),
      used := used s + 1, onV2 := (onV2 s)(used s := v), setupDone := (setupDone s)(used s := False),
      chan := (chan s)(v := chan s v @ replicate (queued ctx) (used s))\<rparr>"
  have "parts_ok ?s" using inv(1) by (simp add: parts_ok_def sh c)
  moreover have "conns_ok ?s" using inv(2) f st by (auto simp: conns_ok_def less_Suc_eq)
  moreover have "map_ok ?s" using inv(3) f(1) by (fastforce simp: map_ok_def c less_Suc_eq)
  moreover have "chans_ok ?s"
    using inv(4) f(4) fresh unfolding chans_ok_def by (auto simp: less_Suc_eq Suc_le_eq)
  moreover have "gone_ok ?s"
    using inv(5) f fresh unfolding gone_ok_def by (auto simp: c less_Suc_eq)
  ultimately show ?thesis by (simp add: sys_ok_def)
qed

lemma clear_shares:
  "shares_ok sh \<Longrightarrow> shares_ok (clearClientDupeHistory ctx sh)"
  by (auto simp: shares_ok_def clearClientDupeHistory_def windows_ok_def histories_ok_def hist_def worker_diffs_def history_ok_new)

lemma removed_step:
  assumes "sys_ok s" and "chan s v \<noteq> []"
    and "disconnectListener (sysConns s) (listener_of decode world v s) (sysClients s, sysShares s) = (l, (c, sh))"
  shows "sys_ok (s\<lparr>sysClients := c, sysShares := sh, chan := (chan s)(v := disconnectChannel l)\<rparr>)"
proof -
  obtain r rest where r: "chan s v = r # rest" using assms(2) by (cases "chan s v") auto
  let ?id = "Id (sysConns s r)"
  have l: "disconnectChannel l = rest" and c: "c = (sysClients s)\<lparr>clients := (clients (sysClients s))(?id := None)\<rparr>"
    and sh: "sh = record_prom (RecordDisconnect (sysConns s r)) (clearClientDupeHistory (sysConns s r) (sysShares s))"
    using assms(3) by (auto simp: disconnectListener_def listener_of_def NewListener_def listenerConfig_def
        OnDisconnect_def r Let_def split: if_splits)
  have inv: "parts_ok s" "conns_ok s" "map_ok s" "chans_ok s" "gone_ok s" using assms(1) by (simp_all add: sys_ok_def)
  let ?s = "s\<lparr>sysClients := c, sysShares := sh, chan := (chan s)(v := disconnectChannel l)\<rparr>"
  have "parts_ok ?s" using inv(1) clear_shares [of "sysShares s" "sysConns s r"] by (simp add: parts_ok_def sh c)
  moreover have "conns_ok ?s" using inv(2) by (simp add: conns_ok_def)
  moreover have "map_ok ?s" using inv(3) by (auto simp: map_ok_def c split: if_splits)
  moreover have "chans_ok ?s"
  proof -
    have "length rest \<le> channelCapacity" "distinct rest" "set rest \<subseteq> set (chan s v)"
      using inv(4) r by (auto simp: chans_ok_def dest: spec [of _ v])
    then show ?thesis using inv(4) by (auto simp: chans_ok_def l)
  qed
  moreover have "gone_ok ?s"
  proof -
    have "x \<in> set (chan s (onV2 s x)) \<Longrightarrow> x \<noteq> r \<Longrightarrow> x \<in> set (((chan s)(v := rest)) (onV2 s x))" for x
      using r by (cases "onV2 s x = v") auto
    then have "queued (sysConns s x) = 0 \<or> x \<in> set (((chan s)(v := rest)) (onV2 s x))"
      if a: "x < used s" "disconnecting (sysConns s x)" "clients (sysClients s) (Id (sysConns s x)) = Some x" "x \<noteq> r" for x
      using inv(5) a unfolding gone_ok_def by blast
    note kept = this
    show ?thesis unfolding gone_ok_def
    proof (intro allI impI)
      fix x
      assume a: "x < used ?s" "disconnecting (sysConns ?s x)" "clients (sysClients ?s) (Id (sysConns ?s x)) = Some x"
      then have "clients (sysClients s) (Id (sysConns s x)) = Some x" and "x \<noteq> r"
        by (auto simp: c split: if_splits)
      with a kept [of x] show "queued (sysConns ?s x) = 0 \<or> x \<in> set (chan ?s (onV2 ?s x))"
        by (simp add: l del: fun_upd_apply)
    qed
  qed
  ultimately show ?thesis by (simp add: sys_ok_def)
qed

text \<open>From finite difficulties a pass does not come to a value that is not a number: its time is positive, the
  normalised rate is at least one, and the number of shares fits into 64 bits.\<close>

lemma to_f64_within:
  assumes "\<bar>q\<bar> \<le> 2 ^ n" and "n \<in> {64, 100}"
  shows "\<exists>p. to_f64 q = Fin p \<and> \<bar>p\<bar> \<le> 2 ^ n"
proof -
  have "ilog2 (2 ^ 64) = 64" "ilog2 (2 ^ 100) = 100" by (rule ilog2_unique; simp)+
  then have "round_to f64_exp (2 ^ 64) = 2 ^ 64" "round_to f64_exp (2 ^ 100) = 2 ^ 100"
    by (intro dbl.round_on_grid [of _ "2 ^ 52"]; simp add: f64_exp_def)+
  then have ok: "f64_ok (Fin (2 ^ n))" "f64_ok (Fin (- (2 ^ n)))" using assms(2) by (auto simp: dbl.round_minus)
  have "- (2 ^ n) \<le> q" "q \<le> 2 ^ n" using assms(1) by linarith+
  then show ?thesis
    using to_f64_ge [OF _ ok(2), of q] to_f64_le [OF _ ok(1), of q] by (cases "to_f64 q") auto
qed

lemma f64_ok_one: "f64_ok (Fin 1)" "f64_ok (Fin (- 1))" "f64_ok (Fin 0)" "f64_ok (Fin (1 / 2 ^ 36))"
  using round_dyadic_exact [of 1 0] round_dyadic_exact [of "- 1" 0] round_dyadic_exact [of 0 0] round_dyadic_exact [of 1 36]
  by simp_all

lemma minutes_positive:
  assumes "\<not> minutes d \<le> 0"
  shows "minutes d = PInf \<or> (\<exists>q. minutes d = Fin q \<and> 1 / 2 ^ 36 \<le> q)"
proof -
  let ?q = "go_quot d 60000000000" and ?r = "go_rem d 60000000000"
  have r: "\<bar>?r\<bar> < 60000000000" by (simp add: go_rem_def abs_mult)
  have div: "f64_of_int ?r div f64_of_int 60000000000 = to_f64 (of_int ?r / 60000000000)"
    using r by (simp add: f64_of_int_exact f64_ops)
  have "(of_int ?r :: rat) \<le> of_int 60000000000" "of_int (- 60000000000) \<le> (of_int ?r :: rat)"
    using r by (simp_all only: of_int_le_iff)
  then have "- 1 \<le> (of_int ?r / 60000000000 :: rat)" "of_int ?r / 60000000000 \<le> (1 :: rat)" by simp_all
  then have "f64_le (Fin (- 1)) (to_f64 (of_int ?r / 60000000000))" "f64_le (to_f64 (of_int ?r / 60000000000)) (Fin 1)"
    using to_f64_ge to_f64_le f64_ok_one by blast+
  then obtain y where y: "to_f64 (of_int ?r / 60000000000) = Fin y" by (cases "to_f64 (of_int ?r / 60000000000)") auto
  have sum: "minutes d = f64_of_int ?q + Fin y" by (simp add: minutes_def div y)
  consider "?q \<le> 0" "?r \<le> 0" | "?q = 0" "0 < ?r" | "1 \<le> ?q" "0 \<le> ?r"
  proof (cases "0 < d")
    case True
    then have "?q = d div 60000000000" "?r = d mod 60000000000" by (simp_all add: go_quot_def go_rem_def)
    then show thesis using that True pos_imp_zdiv_nonneg_iff [of 60000000000 d] by fastforce
  next
    case False
    then have "sgn d \<le> 0" by (simp add: sgn_if)
    then show thesis using that(1) by (simp add: go_quot_def go_rem_def mult_nonpos_nonneg)
  qed
  then show ?thesis
  proof cases
    case 1
    have "f64_le (f64_of_int ?q) (Fin 0)" using 1 to_f64_le [OF _ f64_ok_one(3), of "of_int ?q"] by (simp add: f64_of_int_def)
    moreover have "y \<le> 0" using 1 to_f64_le [OF _ f64_ok_one(3), of "of_int ?r / 60000000000"] y
      by (simp add: divide_nonpos_pos)
    ultimately have "f64_le (minutes d) (Fin 0)"
      unfolding sum by (cases "f64_of_int ?q") (auto simp: f64_ops intro: to_f64_le f64_ok_one)
    then show ?thesis using assms by (simp add: f64_le_iff zero_f64_def)
  next
    case 2
    have "f64_ok (Fin y)" using to_f64_ok [of "of_int ?r / 60000000000"] y by (simp del: to_f64_ok)
    then have "minutes d = Fin y" using 2 by (simp add: sum f64_of_int_exact f64_ops to_f64_Fin)
    moreover have "1 / 2 ^ 36 \<le> y"
    proof -
      have "(1 :: rat) \<le> of_int ?r" using 2 by (simp only: of_int_1_le_iff)
      then have "1 / 2 ^ 36 \<le> (of_int ?r / 60000000000 :: rat)" by simp
      from to_f64_ge [OF this f64_ok_one(4)] show ?thesis by (simp add: y)
    qed
    ultimately show ?thesis by blast
  next
    case 3
    have "0 \<le> y" using 3 to_f64_ge [OF _ f64_ok_one(3), of "of_int ?r / 60000000000"] y by simp
    have "f64_le (Fin 1) (f64_of_int ?q)" using 3 to_f64_ge [OF _ f64_ok_one(1), of "of_int ?q"] by (simp add: f64_of_int_def)
    then have "f64_le (Fin 1) (minutes d)"
      unfolding sum using \<open>0 \<le> y\<close> by (cases "f64_of_int ?q") (auto simp: f64_ops intro: to_f64_ge f64_ok_one)
    then show ?thesis by (cases "minutes d") (auto intro: order_trans [of _ 1])
  qed
qed

lemma retarget_number:
  assumes "retarget now (normalizeShareRate rate) ws = Some ws'" and "VarDiffWindow ws \<le> 6"
    and "finite_f64 (MinDiff ws)" and "\<bar>VarDiffSharesFound ws\<bar> < 2 ^ 63"
  shows "MinDiff ws' \<noteq> NaN"
proof -
  let ?r = "normalizeShareRate rate"
  obtain d where d: "MinDiff ws = Fin d" using assms(3) by (rule finite_f64_E)
  have "\<exists>x. rate_ratio now ?r ws = Fin x" if "tracking now ws"
  proof -
    have m: "minutes (since now (VarDiffStartTime ws)) = PInf
        \<or> (\<exists>q. minutes (since now (VarDiffStartTime ws)) = Fin q \<and> 1 / 2 ^ 36 \<le> q)"
      using that by (intro minutes_positive) (simp add: tracking_def)
    have "\<bar>VarDiffSharesFound ws\<bar> \<le> 2 ^ 64" using assms(4) by simp
    then have "(of_int \<bar>VarDiffSharesFound ws\<bar> :: rat) \<le> of_int (2 ^ 64)" by (simp only: of_int_le_iff)
    then have "\<bar>of_int (VarDiffSharesFound ws) :: rat\<bar> \<le> 2 ^ 64" by simp
    then obtain a where a: "f64_of_int (VarDiffSharesFound ws) = Fin a" "\<bar>a\<bar> \<le> 2 ^ 64"
      using to_f64_within [of _ 64] by (auto simp: f64_of_int_def)
    obtain b where b: "f64_of_int (VarDiffSharesFound ws) div minutes (since now (VarDiffStartTime ws)) = Fin b" "\<bar>b\<bar> \<le> 2 ^ 100"
    proof (cases "minutes (since now (VarDiffStartTime ws)) = PInf")
      case True
      then show thesis using that [of 0] a(1) by (simp add: f64_ops)
    next
      case False
      then obtain q where q: "minutes (since now (VarDiffStartTime ws)) = Fin q" "1 / 2 ^ 36 \<le> q" using m by blast
      then have "\<bar>a\<bar> \<le> 2 ^ 100 * q" "0 < q" using a(2) by (simp_all add: field_simps)
      then have "\<bar>a / q\<bar> \<le> 2 ^ 100" by (simp add: pos_divide_le_eq)
      then show thesis using to_f64_within [of "a / q" 100] that a(1) q(1) \<open>0 < q\<close> by (auto simp: f64_ops)
    qed
    have "1 \<le> uint ?r" by (auto simp: normalizeShareRate_def word_neq_0_conv word_less_def)
    then have one: "(1 :: rat) \<le> of_int (uint ?r)" by (simp only: of_int_1_le_iff)
    have "(of_int (uint ?r) :: rat) \<le> of_int (2 ^ 64)" using uint_lt2p [of ?r] by (simp only: of_int_le_iff) simp
    then have "\<bar>of_int (uint ?r) :: rat\<bar> \<le> 2 ^ 64" using one by simp
    then obtain r where r: "f64_of_int (uint ?r) = Fin r" using to_f64_within [of _ 64] by (auto simp: f64_of_int_def)
    then have "1 \<le> r" using to_f64_ge [OF one f64_ok_one(1)] by (simp add: f64_of_int_def)
    then have "\<bar>b / r\<bar> \<le> \<bar>b\<bar>" by (simp add: pos_divide_le_eq mult_le_cancel_left1)
    then have "\<bar>b / r\<bar> \<le> 2 ^ 100" using b(2) by simp
    then have "\<exists>x. to_f64 (b / r) = Fin x" using to_f64_within [of _ 100] by blast
    then show ?thesis using \<open>1 \<le> r\<close> unfolding rate_ratio_def b(1) r by (auto simp: f64_ops)
  qed
  moreover obtain ws2 where "retarget now ?r ws = Some ws2" "\<not> tracking now ws \<longrightarrow> ws2 = ws"
    "tracking now ws \<longrightarrow> MinDiff ws2 \<in> {MinDiff ws, MinDiff ws * rate_ratio now ?r ws,
       MinDiff ws * f64_max (rate_ratio now ?r ws) (to_f64 (1 / 10))}"
    using retarget_table [OF assms(2), of now ?r] by (metis insert_iff)
  moreover obtain t where "to_f64 (1 / 10) = Fin t" using to_f64_within [of "1 / 10" 64] by auto
  ultimately show ?thesis
    using assms(1) d by (cases "tracking now ws") (auto simp: f64_ops f64_max_def to_f64_not_NaN split: if_splits)
qed

lemma retargetAll_number:
  assumes "shares_ok sh" and "distinct ks" and "worker_diffs finite_f64 sh" and "\<forall>r. \<bar>VarDiffSharesFound (heap sh r)\<bar> < 2 ^ 63"
  shows "\<exists>sh'. retargetAll now (normalizeShareRate rate) ks sh = Some sh' \<and> diffs_ok sh'"
proof -
  have w: "windows_ok sh" "inj_on (stats sh) (dom (stats sh))" using assms(1) by (simp_all add: shares_ok_def books_ok_def)
  have "MinDiff (heap (retargeted now (normalizeShareRate rate) (set ks) sh) r) \<noteq> NaN" for r
  proof -
    have r: "VarDiffWindow (heap sh r) \<le> 6" "finite_f64 (MinDiff (heap sh r))" "\<bar>VarDiffSharesFound (heap sh r)\<bar> < 2 ^ 63"
      using w(1) assms(3,4) by (simp_all add: windows_ok_def worker_diffs_def)
    obtain ws where "retarget now (normalizeShareRate rate) (heap sh r) = Some ws" using retarget_table [OF r(1)] by blast
    then show ?thesis using retarget_number [OF _ r] r(2) by (auto simp: retargeted_def)
  qed
  then show ?thesis using retargetAll_eq [OF assms(2) w(2,1)] by (simp add: worker_diffs_def)
qed

lemma retarget_step:
  assumes "shares_ok sh" and "distinct ks" and "retargetAll now rate ks sh = Some sh'" and "diffs_ok sh'"
  shows "shares_ok sh'"
proof -
  have b: "books_ok sh" "windows_ok sh" "histories_ok sh" using assms(1) by (simp_all add: shares_ok_def)
  then have "sh' = retargeted now rate (set ks) sh"
    using retargetAll_eq [OF assms(2), of sh now rate] assms(3) by (simp add: books_ok_def)
  then show ?thesis
    using b assms(4) retargeted_books [OF b(2)] by (simp add: shares_ok_def) (simp add: histories_ok_def hist_def retargeted_def)
qed

lemma sys_step_ok:
  assumes "sys_step decode db s s'" and "sys_ok s"
  shows "sys_ok s'"
  using assms(1)
proof cases
  case (connect now addr script sock world v ctx c sh rt)
  show ?thesis unfolding connect(1) by (rule connect_step [OF assms(2) connect(2)])
next
  case (got_line r unmarshal world k text1 e cl sh)
  have i: "shares_ok sh \<and> mining_ok (State cl)"
    using line_inv [OF _ _ got_line(3)] sys_ok_conn [OF assms(2) got_line(2)] assms(2) by (simp add: sys_ok_def parts_ok_def)
  have ev: "evolves (view r s) (if e = None then cl else Disconnect cl)"
    using evolves_hang [OF handle_line_evolves [OF got_line(3)]] .
  show ?thesis unfolding got_line(1)
    by (rule put_ok [OF sys_ok_shares [OF assms(2)]]) (use i got_line(2) ev in simp_all)
next
  case (got_frame r now nd frame e st)
  show ?thesis unfolding got_frame(1) by (rule frame_step [OF assms(2) got_frame(2,3)])
next
  case (job i r api now solo cl sh)
  have r: "r < used s" using assms(2) job(2) by (auto simp: sys_ok_def map_ok_def)
  have i: "mining_ok (State cl) \<and> shares_ok sh"
    using newJob_runs [of "view r s" "sysShares s" "minShareDiff (sysClients s)" api now solo] job(4,5)
      sys_ok_conn [OF assms(2) r] assms(2) by (auto simp: sys_ok_def parts_ok_def)
  show ?thesis unfolding job(1)
    by (rule put_ok [OF sys_ok_shares [OF assms(2)]]) (use i r newJob_evolves [OF job(5)] in simp_all)
next
  case (hang r)
  then show ?thesis using put_ok [OF assms(2) hang(2) evolves_Disconnect] sys_ok_conn [OF assms(2) hang(2)] by simp
next
  case (background r)
  then show ?thesis using put_ok [OF assms(2) background(2) evolves_runAsync] sys_ok_conn [OF assms(2) background(2)] by simp
next
  case (removed v world l c sh)
  show ?thesis unfolding removed(1) by (rule removed_step [OF assms(2) removed(2,3)])
next
  case (late r now)
  have "shares_ok (lateStats now (sysConns s r) (sysShares s))"
    using getCreateStats_shares [of "sysShares s" now "sysConns s r"] assms(2) by (simp add: lateStats_def sys_ok_def parts_ok_def)
  then show ?thesis unfolding late(1) by (rule sys_ok_shares [OF assms(2)])
next
  case (retargeting ks now rate sh)
  have "shares_ok (sysShares s)" using assms(2) by (simp add: sys_ok_def parts_ok_def)
  from retarget_step [OF this retargeting(2,4,5)] show ?thesis
    unfolding retargeting(1) by (rule sys_ok_shares [OF assms(2)])
qed

lemma sys_steps_ok: "sys_steps decode db s s' \<Longrightarrow> sys_ok s \<Longrightarrow> sys_ok s'"
  by (induction rule: sys_steps.induct) (auto intro: sys_step_ok)

subsection \<open>What holds of every bridge that was started\<close>

lemma started_ok:
  assumes "ListenAndServe e cfg = Inr b" and "MinShareDiff cfg \<noteq> NaN"
  shows "sys_ok (started b nobody)"
proof -
  let ?d = "normalizeMinDiff (MinShareDiff cfg)"
  have b: "bridgeShares b = newShareHandler" "minShareDiff (bridgeClients b) = ?d" "clients (bridgeClients b) = Map.empty"
    "bridgeSv2 b = (if StratumV2Enabled cfg then Some (newSV2Handler ?d (\<not> StratumV2Fallback cfg)) else None)"
    using assms(1) by (auto simp: ListenAndServe_def newClientListener_def Let_def split: option.splits if_splits)
  have "parts_ok (started b nobody)"
    using normalizeMinDiff_ok(1) [OF assms(2)] sample_shares_ok by (simp add: parts_ok_def started_def b newSV2Handler_def)
  then show ?thesis
    by (simp add: sys_ok_def conns_ok_def map_ok_def chans_ok_def gone_ok_def started_def b)
qed

lemma reachable_ok:
  assumes "ListenAndServe e cfg = Inr b" and "MinShareDiff cfg \<noteq> NaN" and "sys_steps decode db (started b nobody) s"
  shows "sys_ok s"
  using sys_steps_ok [OF assms(3) started_ok [OF assms(1,2)]] .

lemma bridge_safety_holds:
  assumes "ListenAndServe e cfg = Inr b" and "MinShareDiff cfg \<noteq> NaN" and "sys_steps decode db (started b nobody) s"
  shows "(clients (sysClients s) i = Some r \<longrightarrow> r < used s \<and> Id (sysConns s r) = i)
    \<and> (clients (sysClients s) i = Some r \<and> disconnecting (sysConns s r) \<longrightarrow>
         queued (sysConns s r) = 0 \<or> r \<in> set (chan s (onV2 s r)))
    \<and> (r < used s \<longrightarrow> connClosed (sysConns s r) = disconnecting (sysConns s r) \<and> queued (sysConns s r) \<le> 1)
    \<and> length (chan s v) \<le> channelCapacity \<and> distinct (chan s v) \<and> books_ok (sysShares s)"
proof -
  have inv: "parts_ok s" "conns_ok s" "map_ok s" "chans_ok s" "gone_ok s"
    using reachable_ok [OF assms] by (simp_all add: sys_ok_def)
  have m: "clients (sysClients s) i = Some r \<Longrightarrow> r < used s \<and> Id (sysConns s r) = i"
    using inv(3) by (simp add: map_ok_def)
  moreover have "clients (sysClients s) i = Some r \<Longrightarrow> disconnecting (sysConns s r) \<Longrightarrow>
      queued (sysConns s r) = 0 \<or> r \<in> set (chan s (onV2 s r))"
    using inv(5) m unfolding gone_ok_def by blast
  moreover have "r < used s \<Longrightarrow> connClosed (sysConns s r) = disconnecting (sysConns s r) \<and> queued (sysConns s r) \<le> 1"
    using inv(2) by (fastforce simp: conns_ok_def)
  moreover have "length (chan s v) \<le> channelCapacity" "distinct (chan s v)" using inv(4) by (simp_all add: chans_ok_def)
  moreover have "books_ok (sysShares s)" using inv(1) by (simp add: parts_ok_def shares_ok_def)
  ultimately show ?thesis by blast
qed

text \<open>No operation that the running bridge may be asked for panics.\<close>

lemma bridge_progress_holds:
  assumes "ListenAndServe e cfg = Inr b" and "MinShareDiff cfg \<noteq> NaN" and "sys_steps decode db (started b nobody) s"
    and "r < used s"
  shows "handle_line unmarshal (bridgeHandlers decode world k) text1 (view r s) (sysShares s) \<noteq> None
    \<and> sv2_step decode now nd frame
        \<lparr>sv2h = sysSv2 s, shares = sysShares s, conn = view r s, setupComplete = setupDone s r\<rparr> \<noteq> None
    \<and> (hashes_32 (blake2b api) \<longrightarrow> newJob now api solo (minShareDiff (sysClients s)) (view r s) (sysShares s) \<noteq> None)
    \<and> (distinct ks \<longrightarrow> retargetAll now rate ks (sysShares s) \<noteq> None)
    \<and> (distinct ks \<and> worker_diffs finite_f64 (sysShares s) \<and> (\<forall>r. \<bar>VarDiffSharesFound (heap (sysShares s) r)\<bar> < 2 ^ 63) \<longrightarrow>
        (\<exists>sh'. retargetAll now (normalizeShareRate rate) ks (sysShares s) = Some sh' \<and> diffs_ok sh'))"
proof -
  have ok: "sys_ok s" by (rule reachable_ok [OF assms(1-3)])
  then have p: "shares_ok (sysShares s)" "diff_ok (minShareDiff (sysClients s))" "diff_ok (sv2MinShareDiff (sysSv2 s))"
    by (simp_all add: sys_ok_def parts_ok_def)
  have c: "mining_ok (State (view r s))" "\<not> bad_channel (view r s)" using sys_ok_conn [OF ok assms(4)] by simp_all
  have "client_inv (view r s) (sysShares s)" using p(1) c(1) by (simp add: client_inv_def shares_ok_def)
  from bridge.round_runs [OF this] have "handle_line unmarshal (bridgeHandlers decode world k) text1 (view r s) (sysShares s) \<noteq> None"
    using bridge.handler_runs [OF _ \<open>client_inv (view r s) (sysShares s)\<close>]
    by (fastforce simp: handle_line_def HandleEvent_def split: option.split)
  moreover have "sv2_inv \<lparr>sv2h = sysSv2 s, shares = sysShares s, conn = view r s, setupComplete = setupDone s r\<rparr>"
    using p c by (simp add: sv2_inv_def shares_ok_def bad_channel_def)
  then have "sv2_step decode now nd frame
      \<lparr>sv2h = sysSv2 s, shares = sysShares s, conn = view r s, setupComplete = setupDone s r\<rparr> \<noteq> None"
    using sv2_step_fine [of _ decode now nd frame] by (fastforce simp: fine_def)
  moreover have "hashes_32 (blake2b api) \<Longrightarrow> newJob now api solo (minShareDiff (sysClients s)) (view r s) (sysShares s) \<noteq> None"
    using newJob_runs [OF c(1) p(1,2), of api now solo] by auto
  moreover have "distinct ks \<Longrightarrow> retargetAll now rate ks (sysShares s) \<noteq> None"
    using retargetAll_eq [of ks "sysShares s" now rate] p(1) by (simp add: shares_ok_def books_ok_def)
  ultimately show ?thesis using retargetAll_number [OF p(1), of ks now rate] by blast
qed

subsection \<open>Closed connections are forgotten\<close>

lemma removed_once:
  assumes "chan s v = r # rest"
  shows "\<exists>c sh. sys_step decode (db :: ('tx, 'db) node itself) s (s\<lparr>sysClients := c, sysShares := sh, chan := (chan s)(v := rest)\<rparr>)"
proof -
  let ?l = "listener_of decode (undefined :: nat \<Rightarrow> int \<times> ('tx, 'db) node) v s"
  obtain l c sh where d: "disconnectListener (sysConns s) ?l (sysClients s, sysShares s) = (l, (c, sh))"
    by (metis surj_pair)
  then have "disconnectChannel l = rest"
    by (auto simp: disconnectListener_def listener_of_def NewListener_def Let_def assms split: if_splits)
  with sys_step.removed [OF _ d] assms show ?thesis by auto
qed

lemma sys_steps_front: "sys_steps decode db s' s'' \<Longrightarrow> sys_step decode db s s' \<Longrightarrow> sys_steps decode db s s''"
  by (induction rule: sys_steps.induct) (auto intro: sys_steps.intros)

lemma drain:
  "\<exists>s'. sys_steps decode (db :: ('tx, 'db) node itself) s s' \<and> chan s' = (\<lambda>_. []) \<and> sysConns s' = sysConns s
     \<and> used s' = used s \<and> onV2 s' = onV2 s"
proof (induction "length (chan s True) + length (chan s False)" arbitrary: s rule: less_induct)
  case less
  show ?case
  proof (cases "\<exists>v r rest. chan s v = r # rest")
    case False
    then have "chan s v = []" for v by (cases "chan s v") auto
    then have "chan s = (\<lambda>_. [])" by blast
    then show ?thesis using sys_steps.sys_start by blast
  next
    case True
    then obtain v r rest where c: "chan s v = r # rest" by blast
    from removed_once [OF this, of decode db] obtain x sh where
      s: "sys_step decode db s (s\<lparr>sysClients := x, sysShares := sh, chan := (chan s)(v := rest)\<rparr>)" by blast
    let ?s = "s\<lparr>sysClients := x, sysShares := sh, chan := (chan s)(v := rest)\<rparr>"
    have "length (chan ?s True) + length (chan ?s False) < length (chan s True) + length (chan s False)"
      using c by (cases v) simp_all
    from less [OF this] obtain s' where "sys_steps decode db ?s s'" "chan s' = (\<lambda>_. [])" "sysConns s' = sysConns s"
      "used s' = used s" "onV2 s' = onV2 s" by auto
    with sys_steps_front [OF _ s] show ?thesis by blast
  qed
qed

lemma bridge_drains_holds:
  assumes "ListenAndServe e cfg = Inr b" and "MinShareDiff cfg \<noteq> NaN" and "sys_steps decode db (started b nobody) s"
  shows "\<exists>s'. sys_steps decode db s s' \<and> sysConns s' = sysConns s
    \<and> (\<forall>i r. clients (sysClients s') i = Some r \<longrightarrow> Connected (sysConns s r) \<or> queued (sysConns s r) = 0)"
proof -
  obtain s' where s': "sys_steps decode db s s'" "chan s' = (\<lambda>_. [])" "sysConns s' = sysConns s"
    using drain [of decode db s] by blast
  have "sys_ok s'" using sys_steps_ok [OF s'(1) reachable_ok [OF assms]] .
  then have "map_ok s'" "gone_ok s'" by (simp_all add: sys_ok_def)
  then have "clients (sysClients s') i = Some r \<Longrightarrow> disconnecting (sysConns s r) \<Longrightarrow> queued (sysConns s r) = 0" for i r
    using s'(2,3) by (fastforce simp: map_ok_def gone_ok_def)
  with s'(1,3) show ?thesis by (auto simp: Connected_def intro!: exI [of _ s'])
qed

subsection \<open>A bridge with one client, which hangs up\<close>

definition sample_config :: BridgeConfig where
  "sample_config = mainConfig (\<lambda>cfg. cfg\<lparr>StratumPort := '':5555''\<rparr>)"

lemma sample_config_fields: "MinShareDiff sample_config \<noteq> NaN" "\<not> StratumV2Enabled sample_config"
  using f64_of_int_exact [of 4]
  by (simp_all add: sample_config_def mainConfig_def initialConfig_def fillDefaults_def f64_eq_def zero_f64_def Let_def)

lemma sample_hangs_up:
  "\<exists>b s. ListenAndServe None sample_config = Inr b
    \<and> sys_steps (\<lambda>_ _. False) (db :: (unit, 'db) node itself) (started b nobody) s
    \<and> clients (sysClients s) 1 = Some 0 \<and> disconnecting (sysConns s 0) \<and> chan s False = [0] \<and> used s = 1
    \<and> RemoteAddr (view 0 s) = ''h'' \<and> WalletAddr (view 0 s) = [] \<and> WorkerName (view 0 s) = [] \<and> RemoteApp (view 0 s) = []
    \<and> promLog (sysShares s) = []"
proof -
  obtain b where b: "ListenAndServe None sample_config = Inr b"
    using sample_config_fields(2) by (simp add: ListenAndServe_def Let_def)
  then have c: "clientCounter (bridgeClients b) = 0" "promLog (bridgeShares b) = []"
    by (auto simp: ListenAndServe_def newClientListener_def newShareHandler_def Let_def split: if_splits)
  let ?s = "started b nobody"
  obtain ctx c2 sh rt where n: "newClient 0 (used ?s) ''h'' [] [] (listener_of (\<lambda>_ _. False)
      (undefined :: nat \<Rightarrow> int \<times> (unit, 'db) node) False ?s) (MiningStateGenerator 0) (sysClients ?s, sysShares ?s) = (ctx, (c2, sh), rt)"
    by (metis surj_pair)
  obtain s1 where s1: "sys_steps (\<lambda>_ _. False) db ?s s1" "sysConns s1 0 = ctx" "used s1 = 1" "sysClients s1 = c2"
    "\<not> onV2 s1 0" "chan s1 False = replicate (queued ctx) 0" "sysShares s1 = sh"
    using sys_steps.sys_more [OF sys_steps.sys_start sys_step.connect [OF n]] by (fastforce simp: started_def)
  have host: "remote_host ''h'' = ''h''" by code_simp
  have f: "\<not> disconnecting ctx" "queued ctx = 0" "clients c2 1 = Some 0" "onDisconnect ctx = Some True"
    "RemoteAddr ctx = ''h''" "WalletAddr ctx = []" "WorkerName ctx = []" "RemoteApp ctx = []" "promLog sh = []"
    using n c host by (auto simp: newClient_def listener_of_def NewListener_def listenerConfig_def newContext_def OnConnect_def
        takeExtranonce_def started_def channelCapacity_def Let_def split: prod.splits if_splits)
  have h: "sys_step (\<lambda>_ _. False) db s1 (put 0 (Disconnect (view 0 s1)) s1)"
    by (rule sys_step.hang) (simp add: s1)
  let ?s2 = "put 0 (Disconnect (view 0 s1)) s1"
  have "disconnecting (sysConns ?s2 0)" "chan ?s2 False = [0]"
    using s1 f by (simp_all add: Disconnect_def view_def put_def Let_def channelCapacity_def)
  moreover have "RemoteAddr (view 0 ?s2) = ''h''" "WalletAddr (view 0 ?s2) = []" "WorkerName (view 0 ?s2) = []"
      "RemoteApp (view 0 ?s2) = []" "promLog (sysShares ?s2) = []"
    using s1 f by (simp_all add: Disconnect_def view_def put_def Let_def channelCapacity_def)
  ultimately show ?thesis
    using b s1 f sys_steps.sys_more [OF s1(1) h] by (intro exI [of _ b] exI [of _ ?s2]) simp
qed

end
