(* ===== verification/BridgeProps.thy ===== *)
theory BridgeProps
  imports BridgeLemmas
begin

text \<open>
  What is promised of the whole bridge, for every interleaving of its operations from the start of
  the process on: safety of the client map and of the disconnect channels, absence of panics, and
  that closed connections can always be forgotten.
\<close>

text \<open>
  C1: in every state that a started bridge can reach a client is in the map under its own number;
  a connection is marked as disconnected exactly when its socket is closed, and announces that at
  most once; if it is still in the map then, its event is waiting in the channel of its listener or
  was dropped because the channel was full; the channels hold at most 1024 events, each once; and
  the books of the share handler are in order.
\<close>

theorem bridge_safety:
  assumes "ListenAndServe e cfg = Inr b" and "MinShareDiff cfg \<noteq> NaN" and "sys_steps decode db (started b nobody) s"
  shows "(clients (sysClients s) i = Some r \<longrightarrow> r < used s \<and> Id (sysConns s r) = i)
    \<and> (clients (sysClients s) i = Some r \<and> disconnecting (sysConns s r) \<longrightarrow>
         queued (sysConns s r) = 0 \<or> r \<in> set (chan s (onV2 s r)))
    \<and> (r < used s \<longrightarrow> connClosed (sysConns s r) = disconnecting (sysConns s r) \<and> queued (sysConns s r) \<le> 1)
    \<and> length (chan s v) \<le> channelCapacity \<and> distinct (chan s v) \<and> books_ok (sysShares s)"
  using assms by (rule bridge_safety_holds)

theorem bridge_safety_witness:
  "\<exists>b s. ListenAndServe None sample_config = Inr b
    \<and> sys_steps (\<lambda>_ _. False) TYPE((unit, unit) node) (started b fresh_miner) s
    \<and> clients (sysClients s) 1 = Some 0 \<and> connClosed (sysConns s 0) \<and> Id (sysConns s 0) = 1 \<and> chan s False = [0]"
proof -
  obtain b s where s: "ListenAndServe None sample_config = Inr b"
    "sys_steps (\<lambda>_ _. False) TYPE((unit, unit) node) (started b fresh_miner) s"
    "clients (sysClients s) 1 = Some 0" "disconnecting (sysConns s 0)" "chan s False = [0]" "used s = 1"
    using sample_hangs_up [of "TYPE((unit, unit) node)" fresh_miner] by blast
  with bridge_safety [OF s(1) sample_config_fields(1) s(2), of 1 0 False] show ?thesis by auto
qed

text \<open>
  C32: from every state that a started bridge can reach, the disconnect listeners alone can bring it
  to one in which the map only holds clients that are connected, or whose event was dropped because
  the channel was full.
\<close>

theorem bridge_drains:
  assumes "ListenAndServe e cfg = Inr b" and "MinShareDiff cfg \<noteq> NaN" and "sys_steps decode db (started b nobody) s"
  shows "\<exists>s'. sys_steps decode db s s' \<and> sysConns s' = sysConns s
    \<and> (\<forall>i r. clients (sysClients s') i = Some r \<longrightarrow> Connected (sysConns s r) \<or> queued (sysConns s r) = 0)"
  using assms by (rule bridge_drains_holds)

theorem bridge_drains_witness:
  "\<exists>b s s'. ListenAndServe None sample_config = Inr b
    \<and> sys_steps (\<lambda>_ _. False) TYPE((unit, unit) node) (started b fresh_miner) s
    \<and> disconnecting (sysConns s 0) \<and> sys_steps (\<lambda>_ _. False) TYPE((unit, unit) node) s s'
    \<and> (clients (sysClients s') 1 = Some 0 \<longrightarrow> queued (sysConns s 0) = 0)"
proof -
  obtain b s where s: "ListenAndServe None sample_config = Inr b"
    "sys_steps (\<lambda>_ _. False) TYPE((unit, unit) node) (started b fresh_miner) s" "disconnecting (sysConns s 0)"
    using sample_hangs_up [of "TYPE((unit, unit) node)" fresh_miner] by blast
  with bridge_drains [OF s(1) sample_config_fields(1) s(2)] show ?thesis
    unfolding Connected_def by blast
qed

end
