(* ===== verification/Utf8.thy ===== *)
theory Utf8
  imports GoStrings
begin

text \<open>
  \<^verbatim>\<open>unicode/utf8\<close>: strings are sequences of bytes in Go, and not every sequence encodes text. A rune at
  the front of a string takes \<open>rune_len\<close> bytes; 0 stands for an invalid byte. \<^verbatim>\<open>encoding/json\<close> turns each
  invalid byte into U+FFFD, Prometheus refuses labels that are not valid.
\<close>

definition char_nat :: "char \<Rightarrow> nat" where
  "char_nat c = of_char c"

definition is_cont :: "char \<Rightarrow> bool" where
  "is_cont c \<longleftrightarrow> 128 \<le> char_nat c \<and> char_nat c < 192"

text \<open>How many bytes follow a first byte, and the range of the second byte.\<close>

definition followers :: "nat \<Rightarrow> nat option" where
  "followers n = (if n < 128 then Some 0 else if 194 \<le> n \<and> n < 224 then Some 1
     else if 224 \<le> n \<and> n < 240 then Some 2 else if 240 \<le> n \<and> n < 245 then Some 3 else None)"

definition second_ok :: "nat \<Rightarrow> nat \<Rightarrow> bool" where
  "second_ok n m \<longleftrightarrow> (if n = 224 then 160 \<le> m else if n = 237 then m < 160
     else if n = 240 then 144 \<le> m else if n = 244 then m < 144 else True)"

definition rune_len :: "string \<Rightarrow> nat" where
  "rune_len s = (case s of [] \<Rightarrow> 0
     | c # rest \<Rightarrow> (case followers (char_nat c) of None \<Rightarrow> 0
       | Some k \<Rightarrow> if length (take k rest) = k \<and> list_all is_cont (take k rest)
             \<and> (k = 0 \<or> second_ok (char_nat c) (char_nat (hd rest)))
           then Suc k else 0))"

lemma rune_len_le: "rune_len s \<le> length s"
  by (auto simp: rune_len_def split: list.split option.split)

lemma rune_len_Nil [simp]: "rune_len [] = 0"
  by (simp add: rune_len_def)

lemma drop_rune_shorter: "rune_len s \<noteq> 0 \<Longrightarrow> length (drop (rune_len s) s) < length s"
  by (cases s) auto

function utf8_valid :: "string \<Rightarrow> bool" where
  "utf8_valid s = (if rune_len s = 0 then s = [] else utf8_valid (drop (rune_len s) s))"
  by pat_completeness auto
termination
  by (relation "measure length") (use drop_rune_shorter in auto)

declare utf8_valid.simps [simp del]

lemma valid_step: "utf8_valid s \<Longrightarrow> s \<noteq> [] \<Longrightarrow> rune_len s \<noteq> 0 \<and> utf8_valid (drop (rune_len s) s)"
  by (subst (asm) utf8_valid.simps) (auto split: if_splits)

text \<open>\<^verbatim>\<open>strings.ToValidUTF8\<close> as the decoder of JSON does it, one replacement for each bad byte.\<close>

definition replacement :: string where
  "replacement = byte_string [239, 191, 189]"

function to_valid :: "string \<Rightarrow> string" where
  "to_valid s = (if s = [] then []
     else if rune_len s = 0 then replacement @ to_valid (drop 1 s)
     else take (rune_len s) s @ to_valid (drop (rune_len s) s))"
  by pat_completeness auto
termination
  by (relation "measure length") (use drop_rune_shorter in auto)

declare to_valid.simps [simp del]

subsection \<open>Facts about valid strings\<close>

definition ascii :: "char \<Rightarrow> bool" where
  "ascii c \<longleftrightarrow> char_nat c < 128"

lemma valid_Nil [simp]: "utf8_valid []"
  by (subst utf8_valid.simps) simp

lemma rune_len_ascii [simp]: "ascii c \<Longrightarrow> rune_len (c # s) = 1"
  by (simp add: rune_len_def followers_def ascii_def)

lemma valid_ascii [simp]: "ascii c \<Longrightarrow> utf8_valid (c # s) = utf8_valid s"
  by (subst utf8_valid.simps) simp

lemma valid_rune: "rune_len s = length s \<Longrightarrow> utf8_valid s"
  by (subst utf8_valid.simps) auto

lemma valid_starts: "utf8_valid s \<Longrightarrow> s = [] \<or> rune_len s \<noteq> 0"
  by (subst (asm) utf8_valid.simps) auto

lemma valid_all_ascii: "list_all ascii s \<Longrightarrow> utf8_valid s"
  by (induction s) auto

text \<open>A rune is determined by its own bytes, and the bytes after the first are no first bytes.\<close>

lemma rune_len_append: "rune_len a \<noteq> 0 \<Longrightarrow> rune_len (a @ b) = rune_len a"
  by (cases a) (auto simp: rune_len_def hd_append split: option.splits if_splits)

lemma rune_len_take: "rune_len s \<le> n \<Longrightarrow> rune_len s \<noteq> 0 \<Longrightarrow> rune_len (take n s) = rune_len s"
  by (cases s; cases n) (auto simp: rune_len_def take_Cons' min_def hd_take split: option.splits if_splits)

lemma rune_inside:
  assumes "0 < i" and "i < rune_len s"
  shows "is_cont (s ! i)"
proof -
  obtain c rest k where s: "s = c # rest" "followers (char_nat c) = Some k" "rune_len s = Suc k"
    "length (take k rest) = k" "list_all is_cont (take k rest)"
    using assms by (cases s) (auto simp: rune_len_def split: option.splits if_splits)
  then have "i - 1 < length (take k rest)" using assms by simp
  then have "is_cont (take k rest ! (i - 1))" using s(5) by (simp add: list_all_length del: length_take nth_take)
  then show ?thesis using s assms by simp
qed

lemma cont_no_rune: "is_cont c \<Longrightarrow> rune_len (c # s) = 0"
  by (simp add: rune_len_def followers_def is_cont_def)

lemma ascii_no_cont: "ascii c \<Longrightarrow> \<not> is_cont c"
  by (simp add: ascii_def is_cont_def)

lemma valid_append: "utf8_valid a \<Longrightarrow> utf8_valid (a @ b) = utf8_valid b"
proof (induction a rule: utf8_valid.induct)
  case (1 a)
  show ?case
  proof (cases "a = []")
    case False
    then have r: "rune_len a \<noteq> 0" "utf8_valid (drop (rune_len a) a)"
      using 1(2) valid_step by auto
    then have "utf8_valid (drop (rune_len a) a @ b) = utf8_valid b" using 1 False by blast
    then show ?thesis
      using r False rune_len_le [of a] by (subst utf8_valid.simps) (simp add: rune_len_append)
  qed simp
qed

text \<open>A valid string can only be cut at the start of a rune.\<close>

lemma valid_cut:
  assumes "utf8_valid (a @ b)" and "b = [] \<or> \<not> is_cont (hd b)"
  shows "utf8_valid a \<and> utf8_valid b"
  using assms(1)
proof (induction a rule: length_induct)
  case (1 a)
  show ?case
  proof (cases "a = []")
    case True
    then show ?thesis using 1 by simp
  next
    case False
    let ?k = "rune_len (a @ b)"
    have k: "?k \<noteq> 0" "utf8_valid (drop ?k (a @ b))" using 1(2) False valid_step [of "a @ b"] by auto
    have le: "?k \<le> length a"
    proof (rule ccontr)
      assume "\<not> ?k \<le> length a"
      then have "is_cont ((a @ b) ! length a)" using False by (intro rune_inside) auto
      moreover have "b \<noteq> []" using \<open>\<not> ?k \<le> length a\<close> rune_len_le [of "a @ b"] by auto
      ultimately show False using assms(2) by (simp add: nth_append hd_conv_nth)
    qed
    then have r: "rune_len a = ?k" using rune_len_take [of "a @ b" "length a"] k(1) by simp
    have "utf8_valid (drop ?k a @ b)" using k(2) le by simp
    moreover have "length (drop ?k a) < length a" using k(1) False by simp
    ultimately have "utf8_valid (drop ?k a) \<and> utf8_valid b" using 1(1) by blast
    then show ?thesis using r k(1) by (subst utf8_valid.simps) simp
  qed
qed

lemma valid_cut_valid: "utf8_valid (a @ b) \<Longrightarrow> utf8_valid b \<Longrightarrow> utf8_valid a"
proof -
  assume v: "utf8_valid (a @ b)" "utf8_valid b"
  have "b = [] \<or> \<not> is_cont (hd b)"
    using valid_starts [OF v(2)] cont_no_rune [of "hd b" "tl b"] by (cases b) auto
  then show ?thesis using valid_cut v(1) by blast
qed

lemma valid_cut_ascii: "utf8_valid (a @ c # b) \<Longrightarrow> ascii c \<Longrightarrow> utf8_valid a \<and> utf8_valid b"
  using valid_cut [of a "c # b"] ascii_no_cont by auto

lemma valid_drop: "utf8_valid (a @ b) \<Longrightarrow> utf8_valid a \<Longrightarrow> utf8_valid b"
  by (simp add: valid_append)

lemma to_valid_valid: "utf8_valid (to_valid s)"
proof (induction s rule: to_valid.induct)
  case (1 s)
  have rep: "utf8_valid replacement"
    by (rule valid_rune) (simp add: replacement_def byte_string_def rune_len_def followers_def char_nat_def is_cont_def second_ok_def)
  have "utf8_valid (take (rune_len s) s)" if "rune_len s \<noteq> 0"
    using that rune_len_take [of s "rune_len s"] rune_len_le [of s] by (intro valid_rune) simp
  then show ?case
    using 1 rep by (subst to_valid.simps) (auto simp: valid_append)
qed

lemma to_valid_id: "utf8_valid s \<Longrightarrow> to_valid s = s"
proof (induction s rule: utf8_valid.induct)
  case (1 s)
  then show ?case using utf8_valid.simps [of s] by (subst to_valid.simps) auto
qed

subsection \<open>Trimming and splitting\<close>

lemma space_encodings_valid: "p \<in> set space_encodings \<Longrightarrow> utf8_valid p"
  by (rule valid_rune)
    (auto simp: space_encodings_def byte_string_def rune_len_def followers_def char_nat_def is_cont_def second_ok_def)

lemma strip_front_valid:
  "(\<And>p. p \<in> set ps \<Longrightarrow> utf8_valid p) \<Longrightarrow> utf8_valid s \<Longrightarrow> utf8_valid (strip_front ps s)"
proof (induction ps s rule: strip_front.induct)
  case (1 ps s)
  show ?case
  proof (cases "find (\<lambda>p. p \<noteq> [] \<and> prefix p s) ps")
    case None
    then show ?thesis using 1 by (subst strip_front.simps) simp
  next
    case (Some p)
    then have p: "p \<in> set ps" "prefix p s" by (auto simp: find_Some_iff)
    then have "utf8_valid (drop (length p) s)" using 1(2,3) by (auto simp: prefix_def valid_append)
    then show ?thesis using 1 Some by (subst strip_front.simps) simp
  qed
qed

lemma strip_back_valid:
  "(\<And>p. p \<in> set ps \<Longrightarrow> utf8_valid (rev p)) \<Longrightarrow> utf8_valid (rev s) \<Longrightarrow> utf8_valid (rev (strip_front ps s))"
proof (induction ps s rule: strip_front.induct)
  case (1 ps s)
  show ?case
  proof (cases "find (\<lambda>p. p \<noteq> [] \<and> prefix p s) ps")
    case None
    then show ?thesis using 1 by (subst strip_front.simps) simp
  next
    case (Some p)
    then have p: "p \<in> set ps" "prefix p s" by (auto simp: find_Some_iff)
    then have "utf8_valid (rev (drop (length p) s))"
      using 1(2,3) valid_cut_valid [of "rev (drop (length p) s)" "rev p"] by (auto simp: prefix_def)
    then show ?thesis using 1 Some by (subst strip_front.simps) simp
  qed
qed

lemma trim_space_valid: "utf8_valid s \<Longrightarrow> utf8_valid (trim_space s)"
  unfolding trim_space_def
  by (rule strip_back_valid) (auto simp: space_encodings_valid strip_front_valid)

lemma takeWhile_valid:
  assumes "utf8_valid s" and "\<And>c. \<not> P c \<Longrightarrow> ascii c"
  shows "utf8_valid (takeWhile P s)"
proof (cases "dropWhile P s")
  case Nil
  then have "takeWhile P s = s" using takeWhile_dropWhile_id [of P s] by simp
  then show ?thesis using assms(1) by (simp only:)
next
  case (Cons c b)
  then have "\<not> P c" using hd_dropWhile [of P s] by auto
  moreover have "s = takeWhile P s @ c # b" using takeWhile_dropWhile_id [of P s] Cons by simp
  ultimately show ?thesis using valid_cut_ascii [of "takeWhile P s" c b] assms by simp
qed

lemma split2_valid:
  assumes "split2 sep s = (a, b)" and "utf8_valid s" and "ascii sep"
  shows "utf8_valid a \<and> (\<forall>t. b = Some t \<longrightarrow> utf8_valid t)"
proof -
  have "s = a @ (case b of None \<Rightarrow> [] | Some t \<Rightarrow> sep # t)"
    using assms(1) by (induction sep s arbitrary: a b rule: split2.induct) (auto split: if_splits prod.splits)
  then show ?thesis using assms(2,3) valid_cut_ascii [of a sep] by (auto split: option.splits)
qed

end
