(* ===== verification/Metrics.thy ===== *)
theory Metrics
  imports BridgeProps Utf8
begin

text \<open>
  \<^verbatim>\<open>src/cryptixstratum/prom.go\<close>, the declarations of the metrics, and how they are used. \<^verbatim>\<open>With\<close> of the
  Prometheus library panics when the label names differ from the declared ones or when a value is not
  valid UTF-8, and the registration panics when a name is used twice. The first cannot happen, and
  the second not on a Stratum V1 connection. It can on a Stratum V2 connection, whose strings are used
  as they arrive.
\<close>

subsection \<open>Declarations\<close>

datatype metric_kind = CounterVec | GaugeVec | PlainGauge

record metric =
  metricKind :: metric_kind
  metricName :: string
  metricHelp :: string
  metricLabels :: "string list"

definition workerLabels :: "string list" where
  "workerLabels = [''worker'', ''miner'', ''wallet'', ''ip'']"

text \<open>The variables of the Go file and the metrics they hold, in the order of the file.\<close>

definition metrics :: "(string \<times> metric) list" where
  "metrics = [
    (''shareCounter'', \<lparr>metricKind = CounterVec, metricName = ''py_valid_share_counter'',
      metricHelp = ''Number of shares found by worker over time'', metricLabels = workerLabels\<rparr>),
    (''shareDiffCounter'', \<lparr>metricKind = CounterVec, metricName = ''py_valid_share_diff_counter'',
      metricHelp = ''Total difficulty of shares found by worker over time'', metricLabels = workerLabels\<rparr>),
    (''invalidCounter'', \<lparr>metricKind = CounterVec, metricName = ''py_invalid_share_counter'',
      metricHelp = ''Number of stale shares found by worker over time'', metricLabels = workerLabels @ [''type'']\<rparr>),
    (''blockCounter'', \<lparr>metricKind = CounterVec, metricName = ''py_blocpy_mined'',
      metricHelp = ''Number of blocks mined over time'', metricLabels = workerLabels\<rparr>),
    (''lastBlockNonceGauge'', \<lparr>metricKind = GaugeVec, metricName = ''py_last_mined_block_nonce'',
      metricHelp = ''Most recent nonce submitted for an accepted block by worker'', metricLabels = workerLabels\<rparr>),
    (''lastBlockBlueScoreGauge'', \<lparr>metricKind = GaugeVec, metricName = ''py_last_mined_block_bluescore'',
      metricHelp = ''Most recent blue score for an accepted block by worker'', metricLabels = workerLabels\<rparr>),
    (''disconnectCounter'', \<lparr>metricKind = CounterVec, metricName = ''py_worker_disconnect_counter'',
      metricHelp = ''Number of disconnects by worker'', metricLabels = workerLabels\<rparr>),
    (''jobCounter'', \<lparr>metricKind = CounterVec, metricName = ''py_worker_job_counter'',
      metricHelp = ''Number of jobs sent to the miner by worker over time'', metricLabels = workerLabels\<rparr>),
    (''balanceGauge'', \<lparr>metricKind = GaugeVec, metricName = ''py_balance_by_wallet_gauge'',
      metricHelp = ''Gauge representing the wallet balance for connected workers'', metricLabels = [''wallet'']\<rparr>),
    (''errorByWallet'', \<lparr>metricKind = CounterVec, metricName = ''py_worker_errors'',
      metricHelp = ''Gauge representing errors by worker'', metricLabels = [''wallet'', ''error'']\<rparr>),
    (''estimatedNetworkHashrate'', \<lparr>metricKind = PlainGauge, metricName = ''py_estimated_network_hashrate_gauge'',
      metricHelp = ''Gauge representing the estimated network hashrate'', metricLabels = []\<rparr>),
    (''networkDifficulty'', \<lparr>metricKind = PlainGauge, metricName = ''py_network_difficulty_gauge'',
      metricHelp = ''Gauge representing the network difficulty'', metricLabels = []\<rparr>),
    (''networkBlockCount'', \<lparr>metricKind = PlainGauge, metricName = ''py_network_block_count'',
      metricHelp = ''Gauge representing the network block count'', metricLabels = []\<rparr>)]"

definition label_fit :: "string list \<Rightarrow> labels \<Rightarrow> bool" where
  "label_fit names ls \<longleftrightarrow> length ls = length names \<and> set (map fst ls) = set names"

fun op_labels :: "prom_op \<Rightarrow> labels" where
  "op_labels (Inc m ls) = ls"
| "op_labels (AddTo m ls v) = ls"
| "op_labels (SetGauge m ls v) = ls"

text \<open>An update of a declared metric of the right kind, with its labels.\<close>

fun op_fits :: "prom_op \<Rightarrow> bool" where
  "op_fits (Inc m ls) = (case map_of metrics m of None \<Rightarrow> False
     | Some d \<Rightarrow> metricKind d = CounterVec \<and> label_fit (metricLabels d) ls)"
| "op_fits (AddTo m ls v) = (case map_of metrics m of None \<Rightarrow> False
     | Some d \<Rightarrow> metricKind d = CounterVec \<and> label_fit (metricLabels d) ls)"
| "op_fits (SetGauge m ls v) = (case map_of metrics m of None \<Rightarrow> False
     | Some d \<Rightarrow> metricKind d \<noteq> CounterVec \<and> label_fit (metricLabels d) ls)"

text \<open>\<open>P\<close> is what the values of labels must satisfy.\<close>

definition legal :: "(string \<Rightarrow> bool) \<Rightarrow> prom_op \<Rightarrow> bool" where
  "legal P p \<longleftrightarrow> op_fits p \<and> (\<forall>v\<in>snd ` set (op_labels p). P v)"

definition log_good :: "(string \<Rightarrow> bool) \<Rightarrow> shareHandler \<Rightarrow> bool" where
  "log_good P sh \<longleftrightarrow> list_all (legal P) (promLog sh)"

definition ctx_good :: "(string \<Rightarrow> bool) \<Rightarrow> 'st StratumContext \<Rightarrow> bool" where
  "ctx_good P ctx \<longleftrightarrow> P (RemoteAddr ctx) \<and> P (WalletAddr ctx) \<and> P (WorkerName ctx) \<and> P (RemoteApp ctx)"

lemma log_good_simps [simp]:
  "log_good P (record_prom ops sh) \<longleftrightarrow> log_good P sh \<and> list_all (legal P) ops"
  "log_good P (upd_stats r f sh) = log_good P sh" "log_good P (upd_overall f sh) = log_good P sh"
  "log_good P (sh\<lparr>soloDiff := x\<rparr>) = log_good P sh" "log_good P (sh\<lparr>stats := m\<rparr>) = log_good P sh"
  "log_good P (sh\<lparr>heap := h, stats := m, nextRef := n\<rparr>) = log_good P sh"
  "log_good P (sh\<lparr>dupeShares := d\<rparr>) = log_good P sh" "log_good P (sh\<lparr>tipBlueScore := t\<rparr>) = log_good P sh"
  "log_good P newShareHandler"
  by (simp_all add: log_good_def record_prom_def upd_stats_def upd_overall_def newShareHandler_def)

lemma ctx_good_simps [simp]:
  "ctx_good P (c\<lparr>State := ms\<rparr>) = ctx_good P c" "ctx_good P (EnableSV2 ch c) = ctx_good P c"
  "ctx_good P (Disconnect c) = ctx_good P c"
  "P w \<Longrightarrow> ctx_good P c \<Longrightarrow> ctx_good P (c\<lparr>WalletAddr := w\<rparr>)"
  by (auto simp: ctx_good_def EnableSV2_def Disconnect_def Let_def split: option.split bool.split)

lemma ctx_good_same: "same_client a b \<Longrightarrow> ctx_good P b = ctx_good P a"
  by (simp add: ctx_good_def handler)

lemma retargetAll_log: "retargetAll now rate ks sh = Some sh' \<Longrightarrow> log_good P sh' = log_good P sh"
  by (induction ks arbitrary: sh) (auto split: option.splits)

text \<open>The names of metrics are looked up once.\<close>

lemma declared:
  "map_of metrics ''shareCounter'' = Some (snd (metrics ! 0))"
  "map_of metrics ''shareDiffCounter'' = Some (snd (metrics ! 1))"
  "map_of metrics ''invalidCounter'' = Some (snd (metrics ! 2))"
  "map_of metrics ''blockCounter'' = Some (snd (metrics ! 3))"
  "map_of metrics ''lastBlockNonceGauge'' = Some (snd (metrics ! 4))"
  "map_of metrics ''lastBlockBlueScoreGauge'' = Some (snd (metrics ! 5))"
  "map_of metrics ''disconnectCounter'' = Some (snd (metrics ! 6))"
  "map_of metrics ''jobCounter'' = Some (snd (metrics ! 7))"
  "map_of metrics ''balanceGauge'' = Some (snd (metrics ! 8))"
  "map_of metrics ''errorByWallet'' = Some (snd (metrics ! 9))"
  "map_of metrics ''estimatedNetworkHashrate'' = Some (snd (metrics ! 10))"
  "map_of metrics ''networkDifficulty'' = Some (snd (metrics ! 11))"
  "map_of metrics ''networkBlockCount'' = Some (snd (metrics ! 12))"
  by (simp_all add: metrics_def)

lemma label_sets:
  "label_fit workerLabels (commonLabels w)" "label_fit (workerLabels @ [''type'']) (with_type t (commonLabels w))"
  "label_fit [''wallet''] [(''wallet'', a)]" "label_fit [''wallet'', ''error''] [(''wallet'', a), (''error'', e)]"
  "label_fit [] []"
  by (auto simp: label_fit_def workerLabels_def commonLabels_def with_type_def Let_def)

lemma kinds:
  "i \<in> {0, 1, 3, 6, 7} \<Longrightarrow> metricKind (snd (metrics ! i)) = CounterVec \<and> metricLabels (snd (metrics ! i)) = workerLabels"
  "metricKind (snd (metrics ! 2)) = CounterVec \<and> metricLabels (snd (metrics ! 2)) = workerLabels @ [''type'']"
  "metricKind (snd (metrics ! 9)) = CounterVec \<and> metricLabels (snd (metrics ! 9)) = [''wallet'', ''error'']"
  "i \<in> {4, 5} \<Longrightarrow> metricKind (snd (metrics ! i)) \<noteq> CounterVec \<and> metricLabels (snd (metrics ! i)) = workerLabels"
  "metricKind (snd (metrics ! 8)) \<noteq> CounterVec \<and> metricLabels (snd (metrics ! 8)) = [''wallet'']"
  "i \<in> {10, 11, 12} \<Longrightarrow> metricKind (snd (metrics ! i)) \<noteq> CounterVec \<and> metricLabels (snd (metrics ! i)) = []"
  by (auto simp: metrics_def)

lemma fits:
  "op_fits (Inc ''shareCounter'' (commonLabels w))" "op_fits (AddTo ''shareCounter'' (commonLabels w) v)"
  "op_fits (AddTo ''shareDiffCounter'' (commonLabels w) v)"
  "op_fits (Inc ''invalidCounter'' (with_type t (commonLabels w)))"
  "op_fits (AddTo ''invalidCounter'' (with_type t (commonLabels w)) v)"
  "op_fits (Inc ''blockCounter'' (commonLabels w))" "op_fits (AddTo ''blockCounter'' (commonLabels w) v)"
  "op_fits (Inc ''disconnectCounter'' (commonLabels w))" "op_fits (AddTo ''disconnectCounter'' (commonLabels w) v)"
  "op_fits (Inc ''jobCounter'' (commonLabels w))" "op_fits (AddTo ''jobCounter'' (commonLabels w) v)"
  "op_fits (Inc ''errorByWallet'' [(''wallet'', a), (''error'', e)])"
  "op_fits (SetGauge ''lastBlockNonceGauge'' (commonLabels w) v)"
  "op_fits (SetGauge ''lastBlockBlueScoreGauge'' (commonLabels w) v)"
  "op_fits (SetGauge ''balanceGauge'' [(''wallet'', a)] v)"
  "op_fits (SetGauge ''estimatedNetworkHashrate'' [] v)" "op_fits (SetGauge ''networkDifficulty'' [] v)"
  "op_fits (SetGauge ''networkBlockCount'' [] v)"
  by (simp_all add: declared kinds label_sets)

end
