(* ===== verification/Labels.thy ===== *)
theory Labels
  imports Metrics
begin

subsection \<open>Label values\<close>

text \<open>What the values of labels may satisfy: it holds of ASCII text, and of the parts of an identity
  if it holds of the identity.\<close>

fun arg_good :: "(string \<Rightarrow> bool) \<Rightarrow> go_any \<Rightarrow> bool" where
  "arg_good P (AStr s) = P s"
| "arg_good P _ = True"

text \<open>The strings that a frame brings.\<close>

definition frame_strings :: "(string \<Rightarrow> bool) \<Rightarrow> sv2Frame \<Rightarrow> bool" where
  "frame_strings Q frame \<longleftrightarrow>
     (MessageType frame = sv2MsgSetupConnection \<longrightarrow>
        (case parseSV2SetupConnectionPayload (Payload frame) of Inl _ \<Rightarrow> True | Inr firmware \<Rightarrow> Q firmware))
   \<and> (MessageType frame = sv2MsgOpenStandardMiningChannel \<longrightarrow>
        (case parseSV2OpenStandardChannelPayload (Payload frame) of Inl _ \<Rightarrow> True | Inr (rid, identity) \<Rightarrow> Q identity))"

locale label_values =
  fixes P :: "string \<Rightarrow> bool"
  assumes P_ascii: "list_all ascii s \<Longrightarrow> P s"
    and P_identity: "P identity \<Longrightarrow> ParseAuthorizeIdentity decode identity = Inr (wallet, name) \<Longrightarrow> P wallet \<and> P name"

context label_values begin

lemma P_const [simp]: "P AnonymousWorkerName" "P ''stale''" "P ''duplicate''" "P ''invalid''" "P ''weak''"
  "P (short_code c)"
  by (rule P_ascii; cases c; simp add: AnonymousWorkerName_def ascii_def char_nat_def)+

lemma common_values:
  assumes "ctx_good P w"
  shows "\<forall>v\<in>snd ` set (commonLabels w). P v"
  using assms P_const(1) by (simp add: commonLabels_def ctx_good_def Let_def)

lemma records [simp]:
  assumes "ctx_good P w"
  shows "list_all (legal P) (RecordShareFound w d)" "list_all (legal P) (RecordStaleShare w)"
    "list_all (legal P) (RecordDupeShare w)" "list_all (legal P) (RecordInvalidShare w)"
    "list_all (legal P) (RecordWeakShare w)" "list_all (legal P) (RecordBlockFound w n b)"
    "list_all (legal P) (RecordDisconnect w)" "list_all (legal P) (RecordNewJob w)"
    "list_all (legal P) (RecordWorkerError (WalletAddr w) c)" "list_all (legal P) (InitWorkerCounters w)"
  using common_values [OF assms] assms P_const
  by (simp_all add: legal_def fits RecordShareFound_def RecordStaleShare_def RecordDupeShare_def RecordInvalidShare_def
      RecordWeakShare_def RecordBlockFound_def RecordDisconnect_def RecordNewJob_def RecordWorkerError_def
      InitWorkerCounters_def InitInvalidCounter_def with_type_def ctx_good_def Let_def del: op_fits.simps)
    (simp_all add: fits [unfolded with_type_def] ball_Un del: op_fits.simps)

subsection \<open>The share handler\<close>

lemma stats_good: "ctx_good P ctx \<Longrightarrow> log_good P sh \<Longrightarrow> getCreateStats now ctx sh = (r, sh') \<Longrightarrow> log_good P sh'"
  by (auto simp: getCreateStats_def Let_def split: option.splits if_splits)

lemma stats_good_snd [simp]: "ctx_good P ctx \<Longrightarrow> log_good P sh \<Longrightarrow> log_good P (snd (getCreateStats now ctx sh))"
  using stats_good [of ctx sh now] by (cases "getCreateStats now ctx sh") auto

lemma stales_good: "checkStales ctx si sh = (e, sh') \<Longrightarrow> log_good P sh' = log_good P sh"
  by (auto simp: checkStales_def trackDupeShare_def Let_def split: if_splits prod.splits bool.splits)

lemma block_good:
  "submitBlock now nd ctx b nonce sh = (res, sh') \<Longrightarrow> ctx_good P ctx \<Longrightarrow> log_good P sh \<Longrightarrow> log_good P sh'"
  by (auto simp: submitBlock_def Let_def dest: stats_good split: option.splits if_splits prod.splits)

lemma submit_good:
  assumes "processSubmit now nd ctx si sh = Some (res, sh')" and "ctx_good P ctx" and "log_good P sh"
  shows "log_good P sh'"
proof -
  obtain r sh1 where g: "getCreateStats now ctx sh = (r, sh1)" by fastforce
  obtain c sh2 where k: "checkStales ctx si sh1 = (c, sh2)" by fastforce
  have "log_good P sh2" using stales_good [OF k] stats_good [OF assms(2,3) g] by simp
  moreover have "acceptShare now ctx r d s = (res, sh') \<Longrightarrow> log_good P s \<Longrightarrow> log_good P sh'" for d s
    using assms(2) by (auto simp: acceptShare_def Let_def)
  ultimately show ?thesis
    using assms(1,2) by (auto simp: processSubmit_def g k Let_def dest: block_good [OF _ assms(2)] split: option.splits if_splits sum.splits prod.splits)
qed

lemma stale_good [simp]: "ctx_good P ctx \<Longrightarrow> log_good P sh \<Longrightarrow> log_good P (staleSubmit now ctx sh)"
  by (auto simp: staleSubmit_def dest: stats_good split: prod.split)

lemma validate_good: "ctx_good P ctx \<Longrightarrow> list_all (legal P) (fst (validateSubmit ctx event))"
  by (auto simp: validateSubmit_def Let_def split: go_any.split option.split)

lemma HandleSubmit_good:
  assumes "HandleSubmit now nd event ctx sh = Some (e, ctx', sh')" and "ctx_good P ctx" and "log_good P sh"
  shows "ctx_good P ctx' \<and> log_good P sh'"
proof -
  have reply: "replySubmitStatusV1 i st ctx = (x, c) \<Longrightarrow> ctx_good P c" for i st x c
    using reply_answered [of i st ctx x c] assms(2) by (auto simp: answered_def ctx_good_same)
  obtain ops r where v: "validateSubmit ctx event = (ops, r)" by fastforce
  then have "list_all (legal P) ops" using validate_good [OF assms(2), of event] by simp
  then show ?thesis
    using assms reply by (auto simp: HandleSubmit_def v Let_def dest: submit_good split: sum.splits if_splits prod.splits option.splits)
qed

lemma HandleSubmitSV2_good:
  "HandleSubmitSV2 now nd ctx i nonce sh = Some (res, sh') \<Longrightarrow> ctx_good P ctx \<Longrightarrow> log_good P sh \<Longrightarrow> log_good P sh'"
  by (cases res) (auto simp: HandleSubmitSV2_def dest: submit_good split: option.splits)

subsection \<open>Frames\<close>

lemma frame_good: "writeSV2Frame ext mt p c = (e, c') \<Longrightarrow> ctx_good P c \<Longrightarrow> ctx_good P c'"
  by (auto simp: writeSV2Frame_def dest!: raw.out_client dest: ctx_good_same split: sum.splits)

lemma write_or_return_good:
  assumes "write_or_return ext mt p st k = Some (e, st')" and "ctx_good P (conn st)" and "log_good P (shares st)"
    and "\<And>st1. k st1 = Some (e, st') \<Longrightarrow> ctx_good P (conn st1) \<Longrightarrow> log_good P (shares st1)
      \<Longrightarrow> ctx_good P (conn st') \<and> log_good P (shares st')"
  shows "ctx_good P (conn st') \<and> log_good P (shares st')"
proof -
  obtain r c where w: "writeSV2Frame ext mt p (conn st) = (r, c)" by fastforce
  have c: "ctx_good P c" by (rule frame_good [OF w assms(2)])
  show ?thesis
    using assms(1,3) c assms(4) [of "st\<lparr>conn := c\<rparr>"] by (cases r) (auto simp: write_or_return_def w return_def)
qed

lemma vardiff_good [simp]:
  assumes "ctx_good P c" and "log_good P sh"
  shows "log_good P (startClientVardiff now c sh)" "log_good P (snd (setClientVardiff now c d sh))"
    "log_good P (snd (getClientVardiff now c sh))"
  using assms by (auto simp: startClientVardiff_def setClientVardiff_def getClientVardiff_def Let_def dest: stats_good split: prod.split)

lemma write_last_good:
  assumes "write_or_return ext mt p st k = Some (e, st')" and "ctx_good P (conn st)" and "log_good P (shares st)"
    and "k = go_on \<or> (\<exists>err. k = return err)"
  shows "ctx_good P (conn st') \<and> log_good P (shares st')"
  by (rule write_or_return_good [OF assms(1-3)]) (use assms(4) in \<open>auto simp: go_on_def return_def\<close>)

lemma ignoring_good: "ctx_good P (conn st) \<Longrightarrow> ctx_good P (conn (write_ignoring ext mt p st)) \<and> shares (write_ignoring ext mt p st) = shares st"
  by (auto simp: write_ignoring_def) (metis frame_good prod.collapse)

lemma setup_good:
  assumes "sv2_setup payload st = Some (e, st')" and "ctx_good P (conn st)" and "log_good P (shares st)"
    and "\<And>fw. parseSV2SetupConnectionPayload payload = Inr fw \<Longrightarrow> P fw"
  shows "ctx_good P (conn st') \<and> log_good P (shares st')"
proof (cases "parseSV2SetupConnectionPayload payload")
  case (Inl err)
  then show ?thesis using assms(1-3) ignoring_good [of st] by (auto simp: sv2_setup_def return_def)
next
  case (Inr fw)
  let ?st = "if fw \<noteq> [] then st\<lparr>conn := (conn st)\<lparr>RemoteApp := fw\<rparr>\<rparr> else st"
  have st: "ctx_good P (conn ?st)" "log_good P (shares ?st)" using assms(2-4) Inr by (auto simp: ctx_good_def)
  have "write_or_return sv2ExtStandard sv2MsgSetupConnectionSuccess (encodeSV2SetupConnectionSuccessPayload 2 0) ?st
      (\<lambda>st. go_on (st\<lparr>setupComplete := True\<rparr>)) = Some (e, st')" using assms(1) by (simp add: sv2_setup_def Inr Let_def)
  then show ?thesis by (rule write_or_return_good [OF _ st]) (auto simp: go_on_def)
qed

lemma open_channel_good:
  assumes "sv2_open_channel now rid wallet worker st = Some (e, st')" and "ctx_good P (conn st)" and "log_good P (shares st)"
    and "P wallet" and "P worker"
  shows "ctx_good P (conn st') \<and> log_good P (shares st')"
proof -
  let ?ctx = "(conn st)\<lparr>WalletAddr := wallet, WorkerName := worker\<rparr>"
  obtain ch h where ch: "nextChannel (sv2h st) = (ch, h)" by fastforce
  let ?e = "EnableSV2 ch ?ctx"
  have e: "ctx_good P ?e" using assms(2,4,5) by (simp add: ctx_good_def EnableSV2_def)
  obtain b ms where ms: "InitializeIfNeeded (RemoteApp ?e) (sv2MinShareDiff h) (State ?e) = Some (b, ms)"
    using assms(1) by (auto simp: sv2_open_channel_def ch Let_def split: option.splits)
  let ?c = "?e\<lparr>State := ms\<rparr>"
  have c: "ctx_good P ?c" using e by simp
  obtain prev sh where sh: "setClientVardiff now ?c (sv2MinShareDiff h) (shares st) = (prev, sh)" by fastforce
  have sh_good: "log_good P sh" using vardiff_good(2) [OF c assms(3), of now "sv2MinShareDiff h"] sh by simp
  obtain diff c2 where d: "channel_diff (sv2MinShareDiff h) ?c = Some (diff, c2)"
    using assms(1) ms sh by (auto simp: sv2_open_channel_def ch Let_def split: option.splits)
  have c2: "ctx_good P c2" using d c by (auto simp: channel_diff_def Let_def split: if_splits option.splits)
  obtain target where "diffToSV2TargetLE diff = Some target"
    using assms(1) ms sh d by (auto simp: sv2_open_channel_def ch Let_def split: option.splits)
  then have "write_or_return sv2ExtStandard sv2MsgOpenMiningChannelSuccess (encodeSV2OpenChannelSuccessPayload rid ch target [])
      (st\<lparr>sv2h := h, shares := sh, conn := c2\<rparr>) (\<lambda>st. go_on (st\<lparr>shares := snd (getCreateStats now (conn st) (shares st))\<rparr>))
      = Some (e, st')"
    using assms(1) ms sh d by (simp add: sv2_open_channel_def ch Let_def)
  then show ?thesis by (rule write_or_return_good) (use c2 sh_good in \<open>auto simp: go_on_def\<close>)
qed

lemma open_good:
  assumes "sv2_open decode now payload st = Some (e, st')" and "ctx_good P (conn st)" and "log_good P (shares st)"
    and "\<And>rid identity. parseSV2OpenStandardChannelPayload payload = Inr (rid, identity) \<Longrightarrow> P identity"
  shows "ctx_good P (conn st') \<and> log_good P (shares st')"
proof (cases "parseSV2OpenStandardChannelPayload payload")
  case (Inl err)
  then show ?thesis using assms(1-3) ignoring_good [of st] by (auto simp: sv2_open_def return_def)
next
  case (Inr p)
  obtain rid identity where p: "p = (rid, identity)" by (cases p)
  have i: "P identity" using assms(4) Inr p by simp
  show ?thesis
  proof (cases "setupComplete st")
    case False
    then show ?thesis using assms(1) by (intro write_last_good [OF _ assms(2,3)]) (auto simp: sv2_open_def Inr p)
  next
    case True
    show ?thesis
    proof (cases "ParseAuthorizeIdentity decode identity")
      case (Inl err)
      let ?st = "st\<lparr>shares := record_prom (RecordWorkerError (WalletAddr (conn st)) ErrInvalidAddressFmt) (shares st)\<rparr>"
      have st: "ctx_good P (conn ?st)" "log_good P (shares ?st)" using assms(2,3) by simp_all
      show ?thesis using assms(1) True Inl Inr by (intro write_last_good [OF _ st]) (auto simp: sv2_open_def p)
    next
      case (Inr w)
      obtain wallet worker where w: "w = (wallet, worker)" by (cases w)
      have "P wallet" "P worker" using P_identity [OF i] Inr w by blast+
      then show ?thesis
        using assms(1-3) True Inr \<open>parseSV2OpenStandardChannelPayload payload = Inr p\<close> open_channel_good
        by (simp add: sv2_open_def p w)
    qed
  qed
qed

lemma sv2_submit_good:
  assumes "sv2_submit now nd payload st = Some (e, st')" and "ctx_good P (conn st)" and "log_good P (shares st)"
  shows "ctx_good P (conn st') \<and> log_good P (shares st')"
proof (cases "parseSV2SubmitSharePayload payload")
  case (Inl err)
  then show ?thesis using assms(1-3) ignoring_good [of st] by (auto simp: sv2_submit_def return_def)
next
  case (Inr p)
  obtain ch sq job nonce ntime where p: "p = (ch, sq, job, nonce, ntime)" by (cases p)
  show ?thesis
  proof (cases "\<not> IsSV2 (conn st) \<or> ch \<noteq> SV2ChannelID (conn st)")
    case True
    then show ?thesis using assms(1) by (intro write_last_good [OF _ assms(2,3)]) (auto simp: sv2_submit_def Inr p)
  next
    case False
    obtain status err sh where h: "HandleSubmitSV2 now nd (conn st) job (packNonce ntime nonce) (shares st) = Some ((status, err), sh)"
      using assms(1) False by (auto simp: sv2_submit_def Inr p split: option.splits)
    let ?st = "st\<lparr>shares := sh\<rparr>"
    have st: "ctx_good P (conn ?st)" "log_good P (shares ?st)" using HandleSubmitSV2_good [OF h] assms(2,3) by simp_all
    have "\<exists>mt p. write_or_return sv2ExtChannel mt p ?st go_on = Some (e, st')"
      using assms(1) False h by (auto simp: sv2_submit_def Inr p Let_def split: if_splits)
    then show ?thesis using write_last_good [OF _ st] by blast
  qed
qed

lemma step_good:
  assumes "sv2_step decode now nd frame st = Some (e, st')" and "ctx_good P (conn st)" and "log_good P (shares st)"
    and "frame_strings P frame"
  shows "ctx_good P (conn st') \<and> log_good P (shares st')"
proof -
  consider "MessageType frame = sv2MsgSetupConnection" "sv2_setup (Payload frame) st = Some (e, st')"
    | "MessageType frame = sv2MsgOpenStandardMiningChannel" "sv2_open decode now (Payload frame) st = Some (e, st')"
    | "sv2_submit now nd (Payload frame) st = Some (e, st')" | "st' = st"
    using assms(1) by (auto simp: sv2_step_def go_on_def split: if_splits)
  then show ?thesis
  proof cases
    case 1
    show ?thesis by (rule setup_good [OF 1(2) assms(2,3)]) (use 1(1) assms(4) in \<open>simp add: frame_strings_def\<close>)
  next
    case 2
    show ?thesis by (rule open_good [OF 2(2) assms(2,3)]) (use 2(1) assms(4) in \<open>simp add: frame_strings_def\<close>)
  qed (use sv2_submit_good [OF _ assms(2,3)] assms(2,3) in simp_all)
qed

subsection \<open>Lines\<close>

lemma HandleSubscribe_good:
  assumes "HandleSubscribe event ctx = (e, ctx')" and "ctx_good P ctx" and "list_all (arg_good P) (Params event)"
  shows "ctx_good P ctx'"
proof -
  obtain r c where r: "Reply (NewResponse event (AList [ABool True, AStr ''CryptixStratum/1.0.0'']) None) ctx = (r, c)"
    by fastforce
  have "ctx_good P c" using assms(2) ctx_good_same [OF rep.out_client [OF r]] by simp
  then show ?thesis
    using assms(1,3) by (auto simp: HandleSubscribe_def r ctx_good_def split: option.splits list.splits go_any.splits)
qed

lemma HandleAuthorize_good:
  assumes "HandleAuthorize decode event ctx = (e, ctx')" and "ctx_good P ctx" and "list_all (arg_good P) (Params event)"
  shows "ctx_good P ctx'"
proof (cases "\<exists>identity ps address worker. Params event = AStr identity # ps
    \<and> ParseAuthorizeIdentity decode identity = Inr (address, worker)")
  case True
  then obtain identity ps address worker where p: "Params event = AStr identity # ps"
    "ParseAuthorizeIdentity decode identity = Inr (address, worker)" by blast
  let ?c = "ctx\<lparr>WalletAddr := address, WorkerName := worker\<rparr>"
  obtain r c where r: "Reply (NewResponse event (ABool True) None) ?c = (r, c)" by fastforce
  have "P address \<and> P worker" using P_identity [OF _ p(2)] assms(3) p(1) by simp
  then have "ctx_good P ?c" using assms(2) by (simp add: ctx_good_def)
  then have c: "ctx_good P c" using ctx_good_same [OF rep.out_client [OF r]] by simp
  show ?thesis
    using assms(1) c ctx_good_same [OF SendExtranonce_same, of P c]
    by (auto simp: HandleAuthorize_def p Let_def r split: option.splits if_splits)
next
  case False
  then have "ctx' = ctx"
    using assms(1) by (auto simp: HandleAuthorize_def split: list.splits go_any.splits sum.splits)
  then show ?thesis using assms(2) by simp
qed

lemma line_good:
  assumes "handle_line unmarshal (bridgeHandlers decode world k) line ctx sh = Some (e, ctx', sh')"
    and "ctx_good P ctx" and "log_good P sh" and "\<And>event. unmarshal line = Some event \<Longrightarrow> list_all (arg_good P) (Params event)"
  shows "ctx_good P ctx' \<and> log_good P sh'"
proof (cases "unmarshal line")
  case None
  then show ?thesis using assms(1-3) by (auto simp: handle_line_def split: if_splits)
next
  case (Some event)
  then have a: "list_all (arg_good P) (Params event)" using assms(4) by simp
  show ?thesis
    using assms(1-3) Some HandleSubscribe_good [OF _ _ a] HandleAuthorize_good [OF _ _ a]
      HandleSubmit_good [of "fst (world k)" "snd (world k)" event ctx sh]
    by (auto simp: handle_line_def HandleEvent_def bridgeHandlers_def DefaultHandlers_def lift_handler_def
        submitHandler_def split: if_splits option.splits prod.splits)
qed

subsection \<open>Jobs\<close>

lemma sendDiff_good: "sendClientDiff d c sh = (c', sh') \<Longrightarrow> ctx_good P c \<Longrightarrow> log_good P sh \<Longrightarrow> ctx_good P c' \<and> log_good P sh'"
proof -
  assume a: "sendClientDiff d c sh = (c', sh')" "ctx_good P c" "log_good P sh"
  obtain r c1 where s: "Send \<lparr>eventId = ANil, jsonrpc = ''2.0'', Method = ''mining.set_difficulty'', Params = [AFloat d]\<rparr> c = (r, c1)"
    by fastforce
  have "ctx_good P c1" using a(2) ctx_good_same [OF snd.out_client [OF s]] by simp
  then show ?thesis using a(1,3) by (auto simp: sendClientDiff_def s split: option.splits)
qed

lemma sv2_failed_good: "sv2SendFailed e code c sh = (c', sh') \<Longrightarrow> ctx_good P c \<Longrightarrow> log_good P sh \<Longrightarrow> ctx_good P c' \<and> log_good P sh'"
  by (auto simp: sv2SendFailed_def split: if_splits)

lemma adjust_good:
  assumes "adjustDiff now solo d nd c sh = Some (b, c', sh')" and "ctx_good P c" and "log_good P sh"
  shows "ctx_good P c' \<and> log_good P sh'"
proof -
  obtain c1 sh1 where i: "initClient now solo d c sh = Some (c1, sh1)"
    using assms(1) by (auto simp: adjustDiff_def split: option.splits)
  then have g1: "ctx_good P c1 \<and> log_good P sh1"
    using assms(2,3) by (auto simp: initClient_def Let_def dest!: sendDiff_good split: option.splits prod.splits if_splits)
  obtain v sh2 where v: "chooseDiff now solo nd c1 sh1 = (v, sh2)" by fastforce
  have "getClientVardiff now c1 (setSoloDiff nd sh1) = (a, b) \<Longrightarrow> log_good P b" for a b
    using g1 vardiff_good(3) [of c1 "setSoloDiff nd sh1" now] by (simp add: setSoloDiff_def)
  then have g2: "log_good P sh2"
    using v g1 by (auto simp: chooseDiff_def setSoloDiff_def Let_def split: prod.splits if_splits)
  show ?thesis
  proof (cases "f64_eq v (GetStratumDiffValue (State c1))")
    case True
    then show ?thesis using assms(1) g1 g2 by (simp add: adjustDiff_def i v)
  next
    case False
    then have ch: "changeDiff now v c1 sh2 = Some (b, c', sh')" using assms(1) by (simp add: adjustDiff_def i v)
    obtain x ms where ms: "SetStratumDiff v (State c1) = Some (x, ms)"
      using ch by (auto simp: changeDiff_def split: option.splits)
    let ?c = "c1\<lparr>State := ms\<rparr>"
    have c: "ctx_good P ?c" using g1 by simp
    have "sendSV2Target v ?c = Some (r, c2) \<Longrightarrow> ctx_good P c2" for r c2
      using frame_good [OF _ c] by (auto simp: sendSV2Target_def split: option.splits)
    then show ?thesis
      using ch g2 c by (auto simp: changeDiff_def ms Let_def dest!: sv2_failed_good sendDiff_good
          split: if_splits option.splits prod.splits)
  qed
qed

lemma sendSV2_good: "sendSV2Job j h v t b c = (e, c') \<Longrightarrow> ctx_good P c \<Longrightarrow> ctx_good P c'"
  by (auto simp: sendSV2Job_def Let_def dest: frame_good split: sum.splits prod.splits option.splits)

lemma send_job_good:
  assumes "sendJob w t h c sh = Some (c', sh')" and "ctx_good P c" and "log_good P sh" and "P w"
  shows "ctx_good P c' \<and> log_good P sh'"
proof -
  obtain i ms where a: "AddJob t (State c) = (i, ms)" by fastforce
  let ?c = "c\<lparr>State := ms\<rparr>"
  have c: "ctx_good P ?c" using assms(2) by simp
  show ?thesis
  proof (cases "IsSV2 ?c")
    case True
    obtain r c1 where j: "sendSV2Job (word_of_int i) h (Version (Header t)) (Timestamp (Header t)) (Bits (Header t)) ?c = (r, c1)"
      by fastforce
    have "ctx_good P c1" by (rule sendSV2_good [OF j c])
    with True show ?thesis
      using assms(1,3,4) by (auto simp: sendJob_def a j Let_def dest: sv2_failed_good split: option.splits)
  next
    case False
    have sent: "Send e ?c = (r, c1) \<Longrightarrow> ctx_good P c1" for e r c1
      using ctx_good_same [OF snd.out_client] c by blast
    show ?thesis
      using assms(1,3,4) False sent by (auto simp: sendJob_def a Let_def split: option.splits prod.splits if_splits)
  qed
qed

lemma job_good:
  assumes "newJob now api solo d c sh = Some (c', sh')" and "ctx_good P c" and "log_good P sh"
  shows "ctx_good P c' \<and> log_good P sh'"
proof -
  have w: "P (WalletAddr c)" using assms(2) by (simp add: ctx_good_def)
  have s: "log_good P (snd (getCreateStats now c sh))" using assms(2,3) by simp
  show ?thesis
  proof (cases "GetBlockTemplate api c")
    case (Inl err)
    then show ?thesis
      using assms(1,2) s by (auto simp: newJob_def templateFailed_def Let_def split: if_splits)
  next
    case (Inr t)
    obtain nd ms where n: "SetNetworkTarget (ucast (Bits (Header t))) (State c) = (nd, ms)" by fastforce
    have c: "ctx_good P (c\<lparr>State := ms\<rparr>)" using assms(2) by simp
    show ?thesis
      using assms(1,2) s by (auto simp: newJob_def Inr n Let_def
          dest!: adjust_good [OF _ c s] dest: send_job_good [OF _ _ _ w] split: sum.splits option.splits bool.splits)
  qed
qed

end

end
