(* ===== verification/LabelProps.thy ===== *)
theory LabelProps
  imports Labels
begin

subsection \<open>Any string at all\<close>

lemma ctx_any [simp]: "ctx_good (\<lambda>_. True) ctx"
  by (simp add: ctx_good_def)

interpretation any: label_values "\<lambda>_. True"
  by unfold_locales simp_all

interpretation logs: share_inv "log_good (\<lambda>_. True)" "\<lambda>_. True"
proof
  show "log_good (\<lambda>_. True) sh \<Longrightarrow> HandleSubmitSV2 now nd ctx i nonce sh = Some ((status, err), sh')
      \<Longrightarrow> log_good (\<lambda>_. True) sh'"
    for sh now i nonce status err sh' and nd :: "('a, 'b) node" and ctx
    by (rule any.HandleSubmitSV2_good) simp_all
  show "log_good (\<lambda>_. True) sh \<Longrightarrow> log_good (\<lambda>_. True) (record_prom (RecordWorkerError a c) sh)" for sh a c
    by (simp add: RecordWorkerError_def legal_def fits del: op_fits.simps)
qed simp_all

lemma arg_any [simp]: "arg_good (\<lambda>_. True) a"
  by (cases a) simp_all

lemma arg_all [simp]: "list_all (arg_good (\<lambda>_. True)) as"
  by (induction as) simp_all

lemma step_log:
  assumes "sys_step decode db s s'" and "log_good (\<lambda>_. True) (sysShares s)"
  shows "log_good (\<lambda>_. True) (sysShares s')"
  using assms(1)
proof cases
  case (connect now addr script sock world v ctx c sh rt)
  then show ?thesis using assms(2) newClient_listener [OF connect(2)] by simp
next
  case (got_line r unmarshal world k text1 e cl sh)
  then show ?thesis using assms(2) any.line_good [OF got_line(3)] by simp
next
  case (got_frame r now nd frame e st)
  then show ?thesis using assms(2) logs.step_keeps [OF got_frame(3)] by simp
next
  case (job i r api now solo cl sh)
  then show ?thesis using assms(2) any.job_good [OF job(5)] by simp
next
  case (removed v world l c sh)
  then show ?thesis
    using assms(2) by (auto simp: disconnectListener_def listener_of_def NewListener_def listenerConfig_def
        OnDisconnect_def clearClientDupeHistory_def Let_def split: list.splits)
next
  case (late r now)
  then show ?thesis using assms(2) by (simp add: lateStats_def)
next
  case (retargeting ks now rate sh)
  then show ?thesis using assms(2) retargetAll_log [OF retargeting(4)] by simp
qed (use assms(2) in simp_all)

lemma steps_log:
  "sys_steps decode db s s' \<Longrightarrow> log_good (\<lambda>_. True) (sysShares s) \<Longrightarrow> log_good (\<lambda>_. True) (sysShares s')"
  by (induction rule: sys_steps.induct) (auto intro: step_log)

lemma started_log: "ListenAndServe e cfg = Inr b \<Longrightarrow> log_good (\<lambda>_. True) (sysShares (started b nobody))"
  by (auto simp: started_def ListenAndServe_def Let_def split: option.splits if_splits)

text \<open>
  C36: the metrics are used as they are declared: in every state that a started bridge can reach, each
  update that was made is one of a declared metric, counters are only incremented and gauges only
  set, and its label names are exactly those of the declaration. So \<^verbatim>\<open>With\<close> never panics for its label
  names, and the registration of the metrics does not panic either, as all names are different.
\<close>

theorem metrics_well_typed:
  assumes "ListenAndServe e cfg = Inr b" and "sys_steps decode db (started b nobody) s"
  shows "list_all op_fits (promLog (sysShares s)) \<and> distinct (map (metricName \<circ> snd) metrics)
    \<and> list_all (\<lambda>(_, d). distinct (metricLabels d)) metrics"
proof -
  have "log_good (\<lambda>_. True) (sysShares s)" by (rule steps_log [OF assms(2) started_log [OF assms(1)]])
  then have "list_all op_fits (promLog (sysShares s))" by (auto simp: log_good_def legal_def list_all_iff)
  then show ?thesis by (simp add: metrics_def workerLabels_def)
qed

theorem metrics_well_typed_witness:
  "\<exists>b s. sys_steps (\<lambda>_ _. False) TYPE((unit, unit) node) (started b fresh_miner) s
    \<and> clients (sysClients s) 1 = Some 0 \<and> list_all op_fits (promLog (sysShares s))"
proof -
  obtain b s where s: "ListenAndServe None sample_config = Inr b"
    "sys_steps (\<lambda>_ _. False) TYPE((unit, unit) node) (started b fresh_miner) s" "clients (sysClients s) 1 = Some 0"
    using sample_hangs_up [of "TYPE((unit, unit) node)" fresh_miner] by blast
  with metrics_well_typed [OF s(1,2)] show ?thesis by blast
qed

subsection \<open>Valid strings\<close>

lemma payload_valid: "list_all ascii (extractAddressPayload s)"
  by (induction s rule: extractAddressPayload.induct) (auto simp: payload_char_def ascii_def char_nat_def Let_def)

lemma cut_valid: "utf8_valid s \<Longrightarrow> utf8_valid (cut_separator s)"
  unfolding cut_separator_def by (rule takeWhile_valid) (auto simp: separator_def ascii_def char_nat_def)

lemma prefixes_ascii [simp]: "list_all ascii mainPrefix" "list_all ascii testPrefix"
  by (simp_all add: mainPrefix_def testPrefix_def ascii_def char_nat_def)

lemma CleanWallet_valid:
  assumes "CleanWallet decode s = Inr w" and "utf8_valid s"
  shows "utf8_valid w"
proof -
  have c: "utf8_valid (cut_separator (trim_space s))" using assms(2) by (simp add: trim_space_valid cut_valid)
  have m: "utf8_valid (mainPrefix @ t) = utf8_valid t" "utf8_valid (testPrefix @ t) = utf8_valid t" for t
    by (simp_all add: valid_append valid_all_ascii)
  have p: "utf8_valid (extractAddressPayload t)" for t by (rule valid_all_ascii [OF payload_valid])
  show ?thesis
    using assms(1) c m p by (auto simp: CleanWallet_def wallet_error_def Let_def split: if_splits)
qed

interpretation utf8: label_values utf8_valid
proof
  show "utf8_valid identity \<Longrightarrow> ParseAuthorizeIdentity decode identity = Inr (wallet, name)
      \<Longrightarrow> utf8_valid wallet \<and> utf8_valid name" for identity decode wallet name
    using split2_valid [of "CHR ''.''" identity]
    by (auto simp: ParseAuthorizeIdentity_def Let_def valid_all_ascii AnonymousWorkerName_def ascii_def char_nat_def
        intro: CleanWallet_valid trim_space_valid split: prod.splits sum.splits option.splits if_splits)
qed (rule valid_all_ascii)

subsection \<open>A name that is not valid\<close>

lemma late_invalid:
  assumes "stats sh (RemoteAddr ctx) = None" and "WorkerName ctx = []" and "WalletAddr ctx = []"
    and "\<not> utf8_valid (RemoteApp ctx)"
  shows "\<not> log_good utf8_valid (lateStats now ctx sh)"
proof -
  have k: "workerStatsKey ctx = RemoteAddr ctx" using assms(2,3) by (simp add: workerStatsKey_def)
  have "\<not> list_all (legal utf8_valid) (InitWorkerCounters ctx)"
    using assms(4) by (simp add: InitWorkerCounters_def legal_def commonLabels_def Let_def)
  then show ?thesis
    using assms(1) by (simp add: lateStats_def getCreateStats_def k Let_def)
qed

lemma write_frame_works:
  assumes "net ctx = []" and "\<not> disconnecting ctx" and "length p \<le> 0xFFFFFF"
  shows "\<exists>ctx'. writeSV2Frame ext mt p ctx = (None, ctx') \<and> same_client ctx ctx'"
proof -
  obtain r ctx' where w: "writeSV2Frame ext mt p ctx = (r, ctx')" by fastforce
  obtain f where f: "encodeSV2Frame ext mt p = Inr f"
    using assms(3) by (auto simp: encodeSV2Frame_def)
  have "WriteRaw f ctx = (r, ctx')" using w by (simp add: writeSV2Frame_def f)
  then have "r = None" "same_client ctx ctx'"
    using assms(1,2) raw.out_client [of f ctx r ctx']
    by (auto simp: WriteRaw_def writeWithBackoff_def numeral_3_eq_3 write_data_def checkDisconnect_def Let_def)
  then show ?thesis using w by blast
qed

text \<open>
  C40: the first message of a Stratum V2 client can bring the bridge down. Its firmware name is taken
  as it is; if it is not valid UTF-8, the goroutine that makes the counters of the connection five
  seconds later passes it to Prometheus as a label, which refuses it with a panic that nobody
  recovers.
\<close>

theorem sv2_name_reaches_labels:
  assumes "short host" and "short vendor" and "short hw" and "short fw" and "short dev" and "\<not> utf8_valid fw"
    and "Connected (conn st)" and "net (conn st) = []" and "WorkerName (conn st) = []" and "WalletAddr (conn st) = []"
    and "stats (shares st) (RemoteAddr (conn st)) = None"
  shows "\<exists>st'. sv2_step decode now nd \<lparr>ExtensionType = sv2ExtStandard, MessageType = sv2MsgSetupConnection,
        Payload = setup_layout pr mn mx fl host port vendor hw fw dev\<rparr> st = Some (None, st')
    \<and> \<not> log_good utf8_valid (lateStats later (conn st') (shares st'))"
proof -
  have fw: "fw \<noteq> []" using assms(6) by auto
  have p: "parseSV2SetupConnectionPayload (setup_layout pr mn mx fl host port vendor hw fw dev) = Inr fw"
    using parse_setup_layout [OF assms(1-5), of pr mn mx fl port "[]"] fw by simp
  let ?c = "(conn st)\<lparr>RemoteApp := fw\<rparr>"
  obtain c where c: "writeSV2Frame sv2ExtStandard sv2MsgSetupConnectionSuccess (encodeSV2SetupConnectionSuccessPayload 2 0) ?c
      = (None, c)" "same_client ?c c"
    using write_frame_works [of ?c "encodeSV2SetupConnectionSuccessPayload 2 0" sv2ExtStandard sv2MsgSetupConnectionSuccess] assms(7,8)
    by (auto simp: Connected_def encodeSV2SetupConnectionSuccessPayload_def putU16_def putU32_def)
  let ?st = "st\<lparr>conn := c, setupComplete := True\<rparr>"
  have "sv2_step decode now nd \<lparr>ExtensionType = sv2ExtStandard, MessageType = sv2MsgSetupConnection,
        Payload = setup_layout pr mn mx fl host port vendor hw fw dev\<rparr> st = Some (None, ?st)"
    using fw by (simp add: sv2_step_def sv2_setup_def p write_or_return_def c go_on_def)
  moreover have "\<not> log_good utf8_valid (lateStats later c (shares st))"
    using c(2) assms by (intro late_invalid) (simp_all add: handler)
  ultimately show ?thesis by (intro exI [of _ ?st]) simp
qed

theorem sv2_name_reaches_labels_witness:
  "\<exists>st'. sv2_step (\<lambda>_ _. False) 0 sample_node \<lparr>ExtensionType = sv2ExtStandard, MessageType = sv2MsgSetupConnection,
        Payload = setup_layout 2 2 2 0 [] 5556 [] [] [char_of (255 :: nat)] []\<rparr>
        (sample_sv2\<lparr>conn := sample_miner\<lparr>WorkerName := [], WalletAddr := []\<rparr>\<rparr>) = Some (None, st')
    \<and> \<not> log_good utf8_valid (lateStats 5000000000 (conn st') (shares st'))"
proof -
  have "\<not> utf8_valid [char_of (255 :: nat)]"
    by (subst utf8_valid.simps) (simp add: rune_len_def followers_def char_nat_def)
  then show ?thesis
    by (intro sv2_name_reaches_labels)
      (simp_all add: short_def sample_sv2_def sample_miner_def Connected_def newShareHandler_def)
qed

end
