(* ===== verification/Json.thy ===== *)
theory Json
  imports StratumContext Utf8
begin

text \<open>
  \<^verbatim>\<open>encoding/json\<close> as \<^verbatim>\<open>src/gostratum/jsonrpc_event.go\<close> and \<^verbatim>\<open>stratum_context.go\<close> use it: a message is
  written as one line of text and read back. Reading has two parts, as in Go: the text is checked and
  turned into a value, here by a lexer and a stack machine over its tokens, and the value is stored
  into the fields of the struct. A number is a rational until it is stored as a \<^verbatim>\<open>float64\<close>; the sign of
  zero is not kept. Maps have distinct keys in the order of their bytes, as Go writes them.
\<close>

subsection \<open>Values and tokens\<close>

datatype json =
    JNull
  | JBool bool
  | JNum rat
  | JStr string
  | JArr "json list"
  | JObj "(string \<times> json) list"

datatype tok = TOpenObj | TCloseObj | TOpenArr | TCloseArr | TComma | TColon
  | TStr string | TNum rat | TTrue | TFalse | TNull

definition quote_char :: char where
  "quote_char = char_of (34 :: nat)"

definition backslash :: char where
  "backslash = char_of (92 :: nat)"

subsection \<open>Strings\<close>

text \<open>The UTF-8 encoding of a rune.\<close>

definition encode_rune :: "nat \<Rightarrow> string" where
  "encode_rune n = byte_string
    (if n < 0x80 then [n]
     else if n < 0x800 then [192 + n div 64, 128 + n mod 64]
     else if n < 0x10000 then [224 + n div 4096, 128 + n div 64 mod 64, 128 + n mod 64]
     else [240 + n div 262144, 128 + n div 4096 mod 64, 128 + n div 64 mod 64, 128 + n mod 64])"

definition hex4 :: "string \<Rightarrow> nat option" where
  "hex4 s = (if length (take 4 s) = 4 then hex_value 0 (take 4 s) else None)"

text \<open>What follows a backslash. Two surrogates make one rune; a single one is replaced.\<close>

definition simple_escapes :: "(char \<times> char) list" where
  "simple_escapes = [(quote_char, quote_char), (backslash, backslash), (CHR ''/'', CHR ''/''),
     (CHR ''b'', char_of (8 :: nat)), (CHR ''f'', char_of (12 :: nat)), (CHR ''n'', char_of (10 :: nat)),
     (CHR ''r'', char_of (13 :: nat)), (CHR ''t'', char_of (9 :: nat))]"

definition low_surrogate :: "string \<Rightarrow> nat option" where
  "low_surrogate s = (if prefix [backslash, CHR ''u''] s then
     (case hex4 (drop 2 s) of None \<Rightarrow> None
      | Some m \<Rightarrow> if 0xDC00 \<le> m \<and> m < 0xE000 then Some m else None) else None)"

definition unescape_u :: "string \<Rightarrow> (string \<times> string) option" where
  "unescape_u r = (case hex4 r of None \<Rightarrow> None
     | Some n \<Rightarrow>
        (let r = drop 4 r in
         if 0xD800 \<le> n \<and> n < 0xE000
         then (case low_surrogate r of
                 Some m \<Rightarrow> if n < 0xDC00
                    then Some (encode_rune (0x10000 + (n - 0xD800) * 0x400 + (m - 0xDC00)), drop 6 r)
                    else Some (replacement, r)
               | None \<Rightarrow> Some (replacement, r))
         else Some (encode_rune n, r)))"

definition unescape :: "string \<Rightarrow> (string \<times> string) option" where
  "unescape s = (case s of [] \<Rightarrow> None
     | e # r \<Rightarrow> (case map_of simple_escapes e of
         Some c \<Rightarrow> Some ([c], r)
       | None \<Rightarrow> if e = CHR ''u'' then unescape_u r else None))"

lemma unescape_shorter: "unescape s = Some (t, r) \<Longrightarrow> length r < length s"
  by (auto simp: unescape_def unescape_u_def Let_def split: list.splits option.splits if_splits)

function lex_str :: "string \<Rightarrow> (string \<times> string) option" where
  "lex_str s = (case s of [] \<Rightarrow> None
     | c # r \<Rightarrow>
        if c = quote_char then Some ([], r)
        else if c = backslash then (case unescape r of None \<Rightarrow> None
          | Some (t, r') \<Rightarrow> map_option (\<lambda>(u, rest). (t @ u, rest)) (lex_str r'))
        else if char_nat c < 32 then None
        else map_option (\<lambda>(u, rest). (c # u, rest)) (lex_str r))"
  by pat_completeness auto
termination
  by (relation "measure length") (auto dest: unescape_shorter)

declare lex_str.simps [simp del]

subsection \<open>Numbers\<close>

definition digit :: "char \<Rightarrow> bool" where
  "digit c \<longleftrightarrow> dec_val c \<noteq> None"

definition digits_nat :: "string \<Rightarrow> nat" where
  "digits_nat ds = (case dec_value 0 ds of None \<Rightarrow> 0 | Some n \<Rightarrow> n)"

definition lex_int :: "string \<Rightarrow> (string \<times> string) option" where
  "lex_int s = (case s of [] \<Rightarrow> None
     | c # r \<Rightarrow> if c = CHR ''0'' then Some ([c], r)
         else if digit c then Some (takeWhile digit s, dropWhile digit s) else None)"

definition lex_frac :: "string \<Rightarrow> (string \<times> string) option" where
  "lex_frac s = (case s of [] \<Rightarrow> Some ([], s)
     | c # r \<Rightarrow> if c \<noteq> CHR ''.'' then Some ([], s)
         else if takeWhile digit r = [] then None else Some (takeWhile digit r, dropWhile digit r))"

definition lex_sign :: "string \<Rightarrow> bool \<times> string" where
  "lex_sign s = (case s of [] \<Rightarrow> (False, s)
     | c # r \<Rightarrow> if c = CHR ''-'' then (True, r) else if c = CHR ''+'' then (False, r) else (False, s))"

definition lex_exp :: "string \<Rightarrow> (int \<times> string) option" where
  "lex_exp s = (case s of [] \<Rightarrow> Some (0, s)
     | c # r \<Rightarrow> if c \<noteq> CHR ''e'' \<and> c \<noteq> CHR ''E'' then Some (0, s)
         else (case lex_sign r of (neg, r) \<Rightarrow>
           if takeWhile digit r = [] then None
           else Some ((if neg then - int (digits_nat (takeWhile digit r)) else int (digits_nat (takeWhile digit r))),
             dropWhile digit r)))"

definition lex_unsigned :: "string \<Rightarrow> (rat \<times> string) option" where
  "lex_unsigned s = (case lex_int s of None \<Rightarrow> None
     | Some (is, s) \<Rightarrow> (case lex_frac s of None \<Rightarrow> None
       | Some (fs, s) \<Rightarrow> (case lex_exp s of None \<Rightarrow> None
         | Some (e, s) \<Rightarrow> Some (of_nat (digits_nat (is @ fs)) * 10 powi (e - int (length fs)), s))))"

definition lex_number :: "string \<Rightarrow> (rat \<times> string) option" where
  "lex_number s = (case s of [] \<Rightarrow> None
     | c # r \<Rightarrow> if c = CHR ''-'' then map_option (\<lambda>(q, rest). (- q, rest)) (lex_unsigned r) else lex_unsigned s)"

subsection \<open>Lexer\<close>

definition json_space :: "char \<Rightarrow> bool" where
  "json_space c \<longleftrightarrow> char_nat c \<in> {32, 9, 10, 13}"

definition punctuation :: "(char \<times> tok) list" where
  "punctuation = [(CHR ''{'', TOpenObj), (CHR ''}'', TCloseObj), (CHR ''['', TOpenArr), (CHR '']'', TCloseArr),
     (CHR '','', TComma), (CHR '':'', TColon)]"

definition lex_word :: "string \<Rightarrow> (tok \<times> string) option" where
  "lex_word s = (if prefix ''true'' s then Some (TTrue, drop 4 s)
     else if prefix ''false'' s then Some (TFalse, drop 5 s)
     else if prefix ''null'' s then Some (TNull, drop 4 s) else None)"

text \<open>The next token; \<open>None\<close> for its value is white space.\<close>

definition lex_tok :: "string \<Rightarrow> (tok option \<times> string) option" where
  "lex_tok s = (case s of [] \<Rightarrow> None
     | c # r \<Rightarrow> if json_space c then Some (None, r)
         else if c = quote_char then map_option (\<lambda>(t, r). (Some (TStr (to_valid t)), r)) (lex_str r)
         else (case map_of punctuation c of Some t \<Rightarrow> Some (Some t, r)
           | None \<Rightarrow> (case lex_word s of Some (t, r) \<Rightarrow> Some (Some t, r)
             | None \<Rightarrow> map_option (\<lambda>(q, r). (Some (TNum q), r)) (lex_number s))))"

lemma lex_str_shorter: "lex_str s = Some (t, r) \<Longrightarrow> length r < length s"
proof (induction s arbitrary: t rule: lex_str.induct)
  case (1 s)
  show ?case
  proof (cases s)
    case Nil
    then show ?thesis using 1 by (simp add: lex_str.simps)
  next
    case (Cons c rest)
    then show ?thesis
      using 1 unescape_shorter [of rest]
      by (subst (asm) (3) lex_str.simps) (fastforce split: if_splits option.splits prod.splits)
  qed
qed

lemma lex_frac_le: "lex_frac s = Some (fs, r) \<Longrightarrow> length r \<le> length s"
  by (cases s) (auto simp: lex_frac_def le_SucI length_dropWhile_le split: if_splits)

lemma lex_sign_le: "lex_sign s = (b, r) \<Longrightarrow> length r \<le> length s"
  by (auto simp: lex_sign_def split: list.splits if_splits)

lemma lex_exp_le: "lex_exp s = Some (e, r) \<Longrightarrow> length r \<le> length s"
  by (auto simp: lex_exp_def intro: order.trans [OF length_dropWhile_le] dest!: lex_sign_le split: list.splits if_splits prod.splits)

lemma lex_int_shorter: "lex_int s = Some (is, r) \<Longrightarrow> length r < length s"
  by (cases s) (auto simp: lex_int_def less_Suc_eq_le length_dropWhile_le split: if_splits)

lemma lex_unsigned_shorter: "lex_unsigned s = Some (q, r) \<Longrightarrow> length r < length s"
  by (auto simp: lex_unsigned_def dest!: lex_int_shorter lex_frac_le lex_exp_le split: option.splits prod.splits)

lemma lex_number_shorter: "lex_number s = Some (q, r) \<Longrightarrow> length r < length s"
  by (cases s) (auto simp: lex_number_def dest: lex_unsigned_shorter split: if_splits)

lemma lex_tok_shorter: "lex_tok s = Some (t, r) \<Longrightarrow> length r < length s"
  by (cases s) (auto simp: lex_tok_def lex_word_def dest: lex_str_shorter lex_number_shorter split: if_splits option.splits)

function lex :: "string \<Rightarrow> tok list option" where
  "lex s = (if s = [] then Some [] else (case lex_tok s of None \<Rightarrow> None
     | Some (None, r) \<Rightarrow> lex r
     | Some (Some t, r) \<Rightarrow> map_option ((#) t) (lex r)))"
  by pat_completeness auto
termination
  by (relation "measure length") (auto dest: lex_tok_shorter)

declare lex.simps [simp del]

subsection \<open>Values\<close>

text \<open>The stack machine: what is expected next, and the open arrays and objects, innermost first, with
  what they hold so far. The decoder refuses more than 10000 of them.\<close>

datatype json_frame = InArr "json list" | InObj "(string \<times> json) list" string

datatype json_state =
    WantValue "json_frame list"
  | WantFirst "json_frame list"
  | WantKey bool "(string \<times> json) list" "json_frame list"
  | WantColon string "(string \<times> json) list" "json_frame list"
  | Have json "json_frame list"

definition maxNestingDepth :: nat where
  "maxNestingDepth = 10000"

fun value_step :: "json_frame list \<Rightarrow> tok \<Rightarrow> json_state option" where
  "value_step fs (TStr s) = Some (Have (JStr s) fs)"
| "value_step fs (TNum q) = Some (Have (JNum q) fs)"
| "value_step fs TTrue = Some (Have (JBool True) fs)"
| "value_step fs TFalse = Some (Have (JBool False) fs)"
| "value_step fs TNull = Some (Have JNull fs)"
| "value_step fs TOpenArr = (if length fs < maxNestingDepth then Some (WantFirst fs) else None)"
| "value_step fs TOpenObj = (if length fs < maxNestingDepth then Some (WantKey True [] fs) else None)"
| "value_step fs _ = None"

fun json_step :: "json_state \<Rightarrow> tok \<Rightarrow> json_state option" where
  "json_step (WantValue fs) t = value_step fs t"
| "json_step (WantFirst fs) t = (if t = TCloseArr then Some (Have (JArr []) fs) else value_step (InArr [] # fs) t)"
| "json_step (WantKey first kvs fs) t = (case t of
     TStr k \<Rightarrow> Some (WantColon k kvs fs)
   | TCloseObj \<Rightarrow> if first then Some (Have (JObj kvs) fs) else None
   | _ \<Rightarrow> None)"
| "json_step (WantColon k kvs fs) t = (if t = TColon then Some (WantValue (InObj kvs k # fs)) else None)"
| "json_step (Have v (InArr vs # fs)) t = (case t of
     TComma \<Rightarrow> Some (WantValue (InArr (vs @ [v]) # fs))
   | TCloseArr \<Rightarrow> Some (Have (JArr (vs @ [v])) fs)
   | _ \<Rightarrow> None)"
| "json_step (Have v (InObj kvs k # fs)) t = (case t of
     TComma \<Rightarrow> Some (WantKey False (kvs @ [(k, v)]) fs)
   | TCloseObj \<Rightarrow> Some (Have (JObj (kvs @ [(k, v)])) fs)
   | _ \<Rightarrow> None)"
| "json_step (Have v []) t = None"

fun json_run :: "json_state \<Rightarrow> tok list \<Rightarrow> json_state option" where
  "json_run st [] = Some st"
| "json_run st (t # ts) = (case json_step st t of None \<Rightarrow> None | Some st \<Rightarrow> json_run st ts)"

definition parse_json :: "string \<Rightarrow> json option" where
  "parse_json s = (case lex s of None \<Rightarrow> None
     | Some ts \<Rightarrow> (case json_run (WantValue []) ts of Some (Have v []) \<Rightarrow> Some v | _ \<Rightarrow> None))"

subsection \<open>Storing values\<close>

text \<open>A map with its keys in order; a later entry replaces an earlier one.\<close>

fun bytes_less :: "string \<Rightarrow> string \<Rightarrow> bool" where
  "bytes_less _ [] = False"
| "bytes_less [] _ = True"
| "bytes_less (c # s) (d # t) = (char_nat c < char_nat d \<or> c = d \<and> bytes_less s t)"

fun map_put :: "string \<Rightarrow> go_any \<Rightarrow> (string \<times> go_any) list \<Rightarrow> (string \<times> go_any) list" where
  "map_put k v [] = [(k, v)]"
| "map_put k v ((k', v') # kvs) = (if k = k' then (k, v) # kvs
     else if bytes_less k k' then (k, v) # (k', v') # kvs
     else (k', v') # map_put k v kvs)"

fun to_any :: "json \<Rightarrow> go_any option" and to_anys :: "json list \<Rightarrow> go_any list option"
  and to_fields :: "(string \<times> json) list \<Rightarrow> (string \<times> go_any) list \<Rightarrow> (string \<times> go_any) list option" where
  "to_any JNull = Some ANil"
| "to_any (JBool b) = Some (ABool b)"
| "to_any (JNum q) = (case to_f64 q of Fin r \<Rightarrow> Some (AFloat (Fin r)) | _ \<Rightarrow> None)"
| "to_any (JStr s) = Some (AStr s)"
| "to_any (JArr vs) = map_option AList (to_anys vs)"
| "to_any (JObj kvs) = map_option AMap (to_fields kvs [])"
| "to_anys [] = Some []"
| "to_anys (v # vs) = (case to_any v of None \<Rightarrow> None
     | Some a \<Rightarrow> map_option (\<lambda>as. a # as) (to_anys vs))"
| "to_fields [] acc = Some acc"
| "to_fields ((k, v) # kvs) acc = (case to_any v of None \<Rightarrow> None | Some a \<Rightarrow> to_fields kvs (map_put k a acc))"

text \<open>Keys are compared without regard to case, where U+017F and U+212A count as \<^verbatim>\<open>S\<close> and \<^verbatim>\<open>K\<close>. Other runes
  outside ASCII stand for themselves here; none of them folds to ASCII.\<close>

fun fold_name :: "string \<Rightarrow> string" where
  "fold_name [] = []"
| "fold_name (c # s) =
     (let n = char_nat c in
      if prefix (byte_string [197, 191]) (c # s) then CHR ''S'' # fold_name (drop 1 s)
      else if prefix (byte_string [226, 132, 170]) (c # s) then CHR ''K'' # fold_name (drop 2 s)
      else if 97 \<le> n \<and> n \<le> 122 then char_of (n - 32) # fold_name s
      else c # fold_name s)"

definition is_field :: "string \<Rightarrow> string \<Rightarrow> bool" where
  "is_field name key \<longleftrightarrow> fold_name key = fold_name name"

definition store_string :: "json \<Rightarrow> string \<Rightarrow> string option" where
  "store_string v old = (case v of JNull \<Rightarrow> Some old | JStr s \<Rightarrow> Some s | _ \<Rightarrow> None)"

definition store_list :: "json \<Rightarrow> go_any list option option" where
  "store_list v = (case v of JNull \<Rightarrow> Some None | JArr vs \<Rightarrow> map_option Some (to_anys vs) | _ \<Rightarrow> None)"

definition no_event :: JsonRpcEvent where
  "no_event = \<lparr>eventId = ANil, jsonrpc = [], Method = [], Params = []\<rparr>"

definition no_response :: JsonRpcResponse where
  "no_response = \<lparr>respId = ANil, Result = ANil, respError = None\<rparr>"

definition store_event :: "string \<Rightarrow> json \<Rightarrow> JsonRpcEvent \<Rightarrow> JsonRpcEvent option" where
  "store_event k v e =
    (if is_field ''id'' k then map_option (\<lambda>a. e\<lparr>eventId := a\<rparr>) (to_any v)
     else if is_field ''jsonrpc'' k then map_option (\<lambda>s. e\<lparr>jsonrpc := s\<rparr>) (store_string v (jsonrpc e))
     else if is_field ''method'' k then map_option (\<lambda>s. e\<lparr>Method := s\<rparr>) (store_string v (Method e))
     else if is_field ''params'' k then map_option (\<lambda>ps. e\<lparr>Params := (case ps of None \<Rightarrow> [] | Some as \<Rightarrow> as)\<rparr>) (store_list v)
     else Some e)"

definition store_response :: "string \<Rightarrow> json \<Rightarrow> JsonRpcResponse \<Rightarrow> JsonRpcResponse option" where
  "store_response k v r =
    (if is_field ''id'' k then map_option (\<lambda>a. r\<lparr>respId := a\<rparr>) (to_any v)
     else if is_field ''result'' k then map_option (\<lambda>a. r\<lparr>Result := a\<rparr>) (to_any v)
     else if is_field ''error'' k then map_option (\<lambda>ps. r\<lparr>respError := ps\<rparr>) (store_list v)
     else Some r)"

fun store_all :: "(string \<Rightarrow> json \<Rightarrow> 'r \<Rightarrow> 'r option) \<Rightarrow> (string \<times> json) list \<Rightarrow> 'r \<Rightarrow> 'r option" where
  "store_all store [] r = Some r"
| "store_all store ((k, v) # kvs) r = (case store k v r of None \<Rightarrow> None | Some r \<Rightarrow> store_all store kvs r)"

definition unmarshal_into :: "(string \<Rightarrow> json \<Rightarrow> 'r \<Rightarrow> 'r option) \<Rightarrow> 'r \<Rightarrow> string \<Rightarrow> 'r option" where
  "unmarshal_into store r s = (case parse_json s of None \<Rightarrow> None
     | Some v \<Rightarrow> (case v of JNull \<Rightarrow> Some r | JObj kvs \<Rightarrow> store_all store kvs r | _ \<Rightarrow> None))"

definition UnmarshalEvent :: "string \<Rightarrow> JsonRpcEvent option" where
  "UnmarshalEvent = unmarshal_into store_event no_event"

definition UnmarshalResponse :: "string \<Rightarrow> JsonRpcResponse option" where
  "UnmarshalResponse = unmarshal_into store_response no_response"

subsection \<open>Writing\<close>

definition escape_char :: "char \<Rightarrow> string" where
  "escape_char c = (let n = char_nat c in
     if c = quote_char \<or> c = backslash then [backslash, c]
     else if n = 8 then [backslash, CHR ''b''] else if n = 12 then [backslash, CHR ''f'']
     else if n = 10 then [backslash, CHR ''n''] else if n = 13 then [backslash, CHR ''r'']
     else if n = 9 then [backslash, CHR ''t'']
     else if n < 32 \<or> n \<in> {60, 62, 38} then backslash # CHR ''u'' # fmt_hex 4 n
     else [c])"

function escape :: "string \<Rightarrow> string" where
  "escape s = (if s = [] then []
     else if rune_len s = 0 then backslash # ''ufffd'' @ escape (drop 1 s)
     else if rune_len s = 1 then escape_char (hd s) @ escape (drop 1 s)
     else if take 3 s = byte_string [226, 128, 168] then backslash # ''u2028'' @ escape (drop 3 s)
     else if take 3 s = byte_string [226, 128, 169] then backslash # ''u2029'' @ escape (drop 3 s)
     else take (rune_len s) s @ escape (drop (rune_len s) s))"
  by pat_completeness auto
termination
  by (relation "measure length") (use drop_rune_shorter in auto)

declare escape.simps [simp del]

definition quote :: "string \<Rightarrow> string" where
  "quote s = quote_char # escape s @ [quote_char]"

text \<open>The shortest decimal that reads back as a given positive \<^verbatim>\<open>float64\<close>, as a numerator and the number
  of its decimal places; of two equally short ones the nearer. The exact value of every \<^verbatim>\<open>float64\<close>
  has at most 1074 places.\<close>

definition decimal :: "int \<Rightarrow> int \<Rightarrow> rat" where
  "decimal m k = of_int m / 10 powi k"

definition reads_as :: "rat \<Rightarrow> int \<Rightarrow> int \<Rightarrow> bool" where
  "reads_as q k m \<longleftrightarrow> to_f64 (decimal m k) = Fin q"

definition nearest :: "rat \<Rightarrow> int \<Rightarrow> int" where
  "nearest q k = (let x = q * 10 powi k; lo = \<lfloor>x\<rfloor>; hi = \<lceil>x\<rceil> in
     if reads_as q k lo \<and> reads_as q k hi then rne x else if reads_as q k lo then lo else hi)"

definition shortest :: "rat \<Rightarrow> int \<times> int" where
  "shortest q = (case find (\<lambda>k. reads_as q k (nearest q k)) (map (\<lambda>i. int i - 310) [0..<1400]) of
     Some k \<Rightarrow> (nearest q k, k)
   | None \<Rightarrow> (nearest q 1100, 1100))"

text \<open>\<^verbatim>\<open>%f\<close> or \<^verbatim>\<open>%e\<close> with the fewest digits; \<^verbatim>\<open>%e\<close> below \<^verbatim>\<open>1e-6\<close> and from \<^verbatim>\<open>1e21\<close> on.\<close>

definition plain_decimal :: "nat \<Rightarrow> int \<Rightarrow> string" where
  "plain_decimal m k = (if k \<le> 0 then digits_of 10 (m * 10 ^ nat (- k))
     else digits_of 10 (m div 10 ^ nat k) @ CHR ''.'' # zero_pad (nat k) (digits_of 10 (m mod 10 ^ nat k)))"

definition exp_decimal :: "nat \<Rightarrow> int \<Rightarrow> string" where
  "exp_decimal m k =
    (let ds = digits_of 10 m; e = int (length ds) - 1 - k
     in (if length ds = 1 then ds else hd ds # CHR ''.'' # tl ds) @ CHR ''e'' # (if e < 0 then CHR ''-'' else CHR ''+'')
        # digits_of 10 (nat \<bar>e\<bar>))"

definition float_text :: "rat \<Rightarrow> string" where
  "float_text q = (if q = 0 then ''0''
     else (case shortest \<bar>q\<bar> of (m, k) \<Rightarrow>
       (if q < 0 then ''-'' else []) @
       (if \<bar>q\<bar> < 1 / 1000000 \<or> 10 ^ 21 \<le> \<bar>q\<bar> then exp_decimal (nat m) k else plain_decimal (nat m) k)))"

fun join :: "string list \<Rightarrow> string" where
  "join [] = []"
| "join [x] = x"
| "join (x # xs) = x @ CHR '','' # join xs"

fun any_text :: "go_any \<Rightarrow> string" where
  "any_text ANil = ''null''"
| "any_text (ABool b) = (if b then ''true'' else ''false'')"
| "any_text (AInt n) = fmt_dec n"
| "any_text (AFloat d) = (case d of Fin q \<Rightarrow> float_text q | _ \<Rightarrow> [])"
| "any_text (AStr s) = quote s"
| "any_text (AList as) = CHR ''['' # join (map any_text as) @ '']''"
| "any_text (AMap kvs) = CHR ''{'' # join (map (\<lambda>(k, a). quote k @ CHR '':'' # any_text a) kvs) @ ''}''"

definition field_text :: "string \<Rightarrow> string \<Rightarrow> string" where
  "field_text name t = quote name @ CHR '':'' # t"

definition event_text :: "JsonRpcEvent \<Rightarrow> string" where
  "event_text e = CHR ''{'' # join [field_text ''id'' (any_text (eventId e)), field_text ''jsonrpc'' (quote (jsonrpc e)),
     field_text ''method'' (quote (Method e)), field_text ''params'' (any_text (AList (Params e)))] @ ''}''"

definition response_text :: "JsonRpcResponse \<Rightarrow> string" where
  "response_text r = CHR ''{'' # join [field_text ''id'' (any_text (respId r)), field_text ''result'' (any_text (Result r)),
     field_text ''error'' (case respError r of None \<Rightarrow> ''null'' | Some as \<Rightarrow> any_text (AList as))] @ ''}''"

text \<open>The bytes on the wire: a message is a line of its own.\<close>

definition wire_bytes :: "wire \<Rightarrow> byte list" where
  "wire_bytes w = (case w of
     WEvent e \<Rightarrow> str_bytes (event_text e) @ [10]
   | WResponse r \<Rightarrow> str_bytes (response_text r) @ [10]
   | WRaw bs \<Rightarrow> bs)"

end
