(* ===== verification/JsonLemmas.thy ===== *)
theory JsonLemmas
  imports Json
begin

text \<open>
  What is written is read back: strings, numbers, values and messages, and a message is one line.
\<close>

subsection \<open>Strings\<close>

lemma char_consts [simp]:
  "char_nat quote_char = 34" "char_nat backslash = 92" "quote_char \<noteq> backslash" "backslash \<noteq> quote_char"
  by (simp_all add: char_nat_def quote_char_def backslash_def)

lemma char_nat_lit [simp]: "char_nat (Char b0 b1 b2 b3 b4 b5 b6 b7) = of_char (Char b0 b1 b2 b3 b4 b5 b6 b7)"
  by (simp add: char_nat_def)

lemma char_nat_less: "char_nat c < 256"
  by (simp add: char_nat_def of_char_less)

lemma char_nat_inject: "char_nat c = char_nat d \<longleftrightarrow> c = d"
  by (simp add: char_nat_def)

lemma lex_str_Nil [simp]: "lex_str [] = None"
  by (simp add: lex_str.simps)

lemma lex_str_quote [simp]: "lex_str (quote_char # r) = Some ([], r)"
  by (simp add: lex_str.simps)

lemma lex_str_backslash [simp]: "lex_str (backslash # r) = (case unescape r of None \<Rightarrow> None
    | Some (t, r') \<Rightarrow> map_option (\<lambda>(u, rest). (t @ u, rest)) (lex_str r'))"
  by (simp add: lex_str.simps [of "backslash # r"])

lemma lex_str_plain [simp]:
  "c \<noteq> quote_char \<Longrightarrow> c \<noteq> backslash \<Longrightarrow> 32 \<le> char_nat c \<Longrightarrow>
   lex_str (c # r) = map_option (\<lambda>(u, rest). (c # u, rest)) (lex_str r)"
  by (simp add: lex_str.simps [of "c # r"])

lemma lex_str_high:
  "list_all (\<lambda>c. 128 \<le> char_nat c) a \<Longrightarrow> lex_str (a @ r) = map_option (\<lambda>(u, rest). (a @ u, rest)) (lex_str r)"
proof (induction a)
  case (Cons c a)
  then have "c \<noteq> quote_char" "c \<noteq> backslash" by auto
  with Cons show ?case by (simp add: option.map_comp comp_def split_def)
qed (simp add: option.map_ident split_def)

lemma char_forms: "quote_char = CHR 0x22" "backslash = CHR 0x5C"
  by (simp_all add: quote_char_def backslash_def char_of_def bit_Suc bit_0)

lemma escapes:
  "unescape (quote_char # r) = Some ([quote_char], r)" "unescape (backslash # r) = Some ([backslash], r)"
  "unescape (CHR ''b'' # r) = Some ([char_of (8 :: nat)], r)" "unescape (CHR ''f'' # r) = Some ([char_of (12 :: nat)], r)"
  "unescape (CHR ''n'' # r) = Some ([char_of (10 :: nat)], r)" "unescape (CHR ''r'' # r) = Some ([char_of (13 :: nat)], r)"
  "unescape (CHR ''t'' # r) = Some ([char_of (9 :: nat)], r)" "unescape (CHR ''u'' # r) = unescape_u r"
  by (simp_all add: unescape_def simple_escapes_def char_forms)

lemma unescape_u_four:
  assumes "length h = 4" and "hex_value 0 h = Some n" and "n < 0xD800 \<or> 0xE000 \<le> n"
  shows "unescape_u (h @ r) = Some (encode_rune n, r)"
  using assms by (auto simp: unescape_u_def hex4_def Let_def)

lemma rune_len_one: "rune_len (c # s) = 1 \<longleftrightarrow> ascii c"
  by (auto simp: rune_len_def followers_def ascii_def split: option.splits if_splits)

lemma char_nat_char_of [simp]: "n < 256 \<Longrightarrow> char_nat (char_of n) = n"
  by (simp add: char_nat_def)

lemma not_special: "char_nat c \<noteq> 34 \<Longrightarrow> char_nat c \<noteq> 92 \<Longrightarrow> c \<noteq> quote_char \<and> c \<noteq> backslash"
  by auto

lemma escape_char_named:
  "escape_char quote_char = [backslash, quote_char]" "escape_char backslash = [backslash, backslash]"
  "escape_char (char_of (8 :: nat)) = [backslash, CHR ''b'']" "escape_char (char_of (12 :: nat)) = [backslash, CHR ''f'']"
  "escape_char (char_of (10 :: nat)) = [backslash, CHR ''n'']" "escape_char (char_of (13 :: nat)) = [backslash, CHR ''r'']"
  "escape_char (char_of (9 :: nat)) = [backslash, CHR ''t'']"
  by (simp_all add: escape_char_def not_special)

lemma escape_char_read:
  assumes "ascii c"
  shows "lex_str (escape_char c @ r) = map_option (\<lambda>(u, rest). (c # u, rest)) (lex_str r)"
proof -
  let ?n = "char_nat c"
  have c: "char_of ?n = c" by (simp add: char_nat_def)
  have n: "?n < 128" using assms by (simp add: ascii_def)
  have h: "length (fmt_hex 4 ?n) = 4" using n by (intro length_fmt_hex) simp_all
  have u: "unescape_u (fmt_hex 4 ?n @ r) = Some ([c], r)"
    using unescape_u_four [OF h fmt_hex_value, of r] n by (simp add: encode_rune_def byte_string_def c)
  have named: "c = char_of k" if "?n = k" for k using that c by simp
  have e: "escape_char c = backslash # CHR ''u'' # fmt_hex 4 ?n \<or> escape_char c = [c] \<and> 32 \<le> ?n"
    if "c \<noteq> quote_char" "c \<noteq> backslash" "?n \<noteq> 8" "?n \<noteq> 12" "?n \<noteq> 10" "?n \<noteq> 13" "?n \<noteq> 9"
    using that by (auto simp: escape_char_def Let_def)
  consider "c = quote_char" | "c = backslash" | "c = char_of (8 :: nat)" | "c = char_of (12 :: nat)" | "c = char_of (10 :: nat)"
    | "c = char_of (13 :: nat)" | "c = char_of (9 :: nat)" | "escape_char c = backslash # CHR ''u'' # fmt_hex 4 ?n"
    | "escape_char c = [c]" "c \<noteq> quote_char" "c \<noteq> backslash" "32 \<le> ?n"
    using e named by blast
  then show ?thesis
  proof cases
    case 8
    then show ?thesis by (simp only: append.simps lex_str_backslash escapes u option.case prod.case)
  qed (simp_all add: escape_char_named escapes)
qed

lemma rune_high:
  assumes "1 < rune_len s"
  shows "list_all (\<lambda>c. 128 \<le> char_nat c) (take (rune_len s) s)"
proof -
  obtain c rest k where s: "s = c # rest" "followers (char_nat c) = Some k" "rune_len s = Suc k" "list_all is_cont (take k rest)"
    using assms by (cases s) (auto simp: rune_len_def split: option.splits if_splits)
  then have "128 \<le> char_nat c" using assms by (auto simp: followers_def split: if_splits)
  then show ?thesis using s by (auto simp: list_all_iff is_cont_def)
qed

lemma separators:
  "encode_rune 0x2028 = byte_string [226, 128, 168]" "encode_rune 0x2029 = byte_string [226, 128, 169]"
  "encode_rune 0xFFFD = replacement"
  by (simp_all add: encode_rune_def replacement_def)

lemma hex_fffd: "hex_value 0 ''fffd'' = Some 0xFFFD" "hex_value 0 ''2028'' = Some 0x2028" "hex_value 0 ''2029'' = Some 0x2029"
  by (simp_all add: hex_val_def)

lemma unescape_fffd: "unescape (''ufffd'' @ r) = Some (replacement, r)" "unescape (''u2028'' @ r) = Some (byte_string [226, 128, 168], r)"
  "unescape (''u2029'' @ r) = Some (byte_string [226, 128, 169], r)"
  using unescape_u_four [OF _ hex_fffd(1), of r] unescape_u_four [OF _ hex_fffd(2), of r]
    unescape_u_four [OF _ hex_fffd(3), of r]
  by (simp_all add: escapes separators)

lemma separator_len: "take 3 s = byte_string [226, 128, k] \<Longrightarrow> 128 \<le> k \<Longrightarrow> k < 192 \<Longrightarrow> rune_len s = 3"
  by (cases s rule: list.exhaust; cases "tl s"; cases "tl (tl s)")
    (auto simp: byte_string_def rune_len_def followers_def char_nat_def is_cont_def second_ok_def numeral_3_eq_3 take_Suc)

lemma escape_read: "lex_str (escape s @ quote_char # rest) = Some (to_valid s, rest)"
proof (induction s rule: escape.induct)
  case (1 s)
  let ?k = "rune_len s"
  consider "s = []" | "s \<noteq> []" "?k = 0" | c r where "s = c # r" "ascii c"
    | n t where "1 < ?k" "take 3 s = byte_string [226, 128, n]" "n = 168 \<and> t = ''u2028'' \<or> n = 169 \<and> t = ''u2029''"
    | "1 < ?k" "take 3 s \<noteq> byte_string [226, 128, 168]" "take 3 s \<noteq> byte_string [226, 128, 169]"
    using rune_len_one by (cases s) (auto simp del: One_nat_def, metis less_one linorder_neqE_nat)
  then show ?case
  proof cases
    case 1
    then show ?thesis by (simp add: escape.simps to_valid.simps)
  next
    case 2
    then show ?thesis
      using "1.IH"(1) by (subst escape.simps, subst to_valid.simps) (simp add: unescape_fffd [simplified])
  next
    case (3 c r)
    then show ?thesis
      using "1.IH"(2) escape_char_read by (subst escape.simps, subst to_valid.simps) simp
  next
    case (4 n t)
    then have "?k = 3" using separator_len [of s n] by auto
    moreover have "lex_str (escape (drop 3 s) @ quote_char # rest) = Some (to_valid (drop 3 s), rest)"
      using "1.IH"(3,4) 4 \<open>?k = 3\<close> by force
    ultimately show ?thesis
      using 4 by (subst escape.simps, subst to_valid.simps) (auto simp: unescape_fffd [simplified])
  next
    case 5
    then have "s \<noteq> []" by auto
    with 5 show ?thesis
      using "1.IH"(5) rune_high [of s] by (subst escape.simps, subst to_valid.simps) (simp add: lex_str_high)
  qed
qed

subsection \<open>Numbers\<close>

text \<open>What may follow a number.\<close>

definition no_digit :: "string \<Rightarrow> bool" where
  "no_digit r \<longleftrightarrow> (case r of [] \<Rightarrow> True | c # _ \<Rightarrow> \<not> digit c)"

definition stop :: "string \<Rightarrow> bool" where
  "stop r \<longleftrightarrow> (case r of [] \<Rightarrow> True | c # _ \<Rightarrow> \<not> digit c \<and> c \<notin> {CHR ''.'', CHR ''e'', CHR ''E''})"

lemma stop_no_digit: "stop r \<Longrightarrow> no_digit r"
  by (auto simp: stop_def no_digit_def split: list.splits)

lemma digit_range: "digit c \<longleftrightarrow> 48 \<le> char_nat c \<and> char_nat c \<le> 57"
  by (simp add: digit_def dec_val_def char_nat_def Let_def)

lemma value_digits: "digits_value b dec_val a s = Some n \<Longrightarrow> list_all digit s"
  by (induction s arbitrary: a) (auto simp: digit_def split: option.splits)

lemma digits_digits [simp]: "list_all digit (digits_of 10 n)"
  by (rule value_digits [OF dec_digits_of_value])

lemma digits_nat_digits [simp]: "digits_nat (digits_of 10 n) = n"
  by (simp add: digits_nat_def)

lemma take_digits: "list_all digit s \<Longrightarrow> no_digit r \<Longrightarrow> takeWhile digit (s @ r) = s \<and> dropWhile digit (s @ r) = r"
  by (cases r) (auto simp: no_digit_def list_all_iff takeWhile_append dropWhile_append takeWhile_eq_all_conv)

lemma first_digit: "0 < n \<Longrightarrow> hd (digits_of 10 n) \<noteq> CHR ''0''"
proof (induction n rule: less_induct)
  case (less n)
  have d: "hex_digit n \<noteq> CHR ''0''" if "n < 10"
    using that less.prems dec_val_digit [of n] by (auto simp: dec_val_def)
  show ?case
    using less d by (subst digits_of.simps) (simp add: div_greater_zero_iff)
qed

lemma lex_int_digits: "no_digit r \<Longrightarrow> lex_int (digits_of 10 n @ r) = Some (digits_of 10 n, r)"
proof (cases "n = 0")
  case True
  have "digits_of 10 0 = ''0''" by (simp add: digits_of.simps hex_digit_def char_of_def bit_Suc bit_0)
  then show ?thesis using True by (simp add: lex_int_def)
next
  case False
  assume r: "no_digit r"
  obtain c cs where c: "digits_of 10 n = c # cs" by (meson digits_of_not_Nil neq_Nil_conv)
  then have "c \<noteq> CHR ''0''" "digit c" using first_digit [of n] False digits_digits [of n] by auto
  then show ?thesis using take_digits [OF digits_digits r, of n] c by (simp add: lex_int_def)
qed

lemma stop_frac: "stop r \<Longrightarrow> lex_frac r = Some ([], r)"
  by (auto simp: lex_frac_def stop_def split: list.splits)

lemma stop_exp: "stop r \<Longrightarrow> lex_exp r = Some (0, r)"
  by (auto simp: lex_exp_def stop_def split: list.splits)

lemma lex_unsigned_digits: "stop r \<Longrightarrow> lex_unsigned (digits_of 10 n @ r) = Some (of_nat n, r)"
  by (simp add: lex_unsigned_def lex_int_digits stop_no_digit stop_frac stop_exp)

lemma dec_value_zeros: "dec_value 0 (replicate k (CHR ''0'') @ s) = dec_value 0 s"
  by (induction k) (simp_all add: dec_val_def)

lemma zero_pad_value [simp]: "dec_value 0 (zero_pad k s) = dec_value 0 s"
  by (simp add: zero_pad_def dec_value_zeros)

lemma fraction_digits:
  assumes "f < 10 ^ k" and "0 < k"
  shows "length (zero_pad k (digits_of 10 f)) = k" and "list_all digit (zero_pad k (digits_of 10 f))"
    and "zero_pad k (digits_of 10 f) \<noteq> []"
proof -
  show "length (zero_pad k (digits_of 10 f)) = k"
    using assms length_digits_of [of 10 f k] by (simp add: zero_pad_def)
  show "list_all digit (zero_pad k (digits_of 10 f))"
    by (rule value_digits [of 10 0 _ f]) simp
  show "zero_pad k (digits_of 10 f) \<noteq> []" by (simp add: zero_pad_def)
qed

lemma lex_frac_some:
  assumes "list_all digit fs" and "fs \<noteq> []" and "no_digit r"
  shows "lex_frac (CHR ''.'' # fs @ r) = Some (fs, r)"
  using take_digits [OF assms(1,3)] assms(2) by (simp add: lex_frac_def)

lemma lex_unsigned_plain:
  assumes "stop r"
  shows "lex_unsigned (plain_decimal m k @ r) = Some (decimal (int m) k, r)"
proof (cases "k \<le> 0")
  case True
  then have "decimal (int m) k = of_nat (m * 10 ^ nat (- k))"
    by (simp add: decimal_def power_int_def field_simps)
  then show ?thesis using True lex_unsigned_digits [OF assms] by (simp add: plain_decimal_def)
next
  case False
  define j where "j = nat k"
  let ?i = "digits_of 10 (m div 10 ^ j)" and ?f = "zero_pad j (digits_of 10 (m mod 10 ^ j))"
  have j: "0 < j" "k = int j" using False by (auto simp: j_def)
  note f = fraction_digits [of "m mod 10 ^ j" j, OF _ j(1), simplified]
  have "dec_value 0 (?i @ ?f) = Some m"
    using f(1) div_mult_mod_eq [of m "10 ^ j"]
    by (simp add: digits_value_append digits_value_acc [of 10 dec_val "m div 10 ^ j"])
  then have v: "digits_nat (?i @ ?f) = m" by (simp add: digits_nat_def)
  have nd: "no_digit (CHR ''.'' # ?f @ r)" by (simp add: no_digit_def digit_range char_nat_def)
  have t: "plain_decimal m k @ r = ?i @ CHR ''.'' # ?f @ r"
    using False by (simp add: plain_decimal_def j_def)
  show ?thesis
    unfolding t lex_unsigned_def lex_int_digits [OF nd]
    using v f lex_frac_some [OF f(2,3) stop_no_digit [OF assms]] stop_exp [OF assms]
    by (simp add: decimal_def j(2) power_int_minus divide_inverse)
qed

lemma lex_exp_some:
  assumes "no_digit r"
  shows "lex_exp (CHR ''e'' # CHR ''-'' # digits_of 10 n @ r) = Some (- int n, r)"
    and "lex_exp (CHR ''e'' # CHR ''+'' # digits_of 10 n @ r) = Some (int n, r)"
  using take_digits [OF digits_digits assms] by (simp_all add: lex_exp_def lex_sign_def)

lemma lex_unsigned_exp:
  assumes "stop r" and "0 < m"
  shows "lex_unsigned (exp_decimal m k @ r) = Some (decimal (int m) k, r)"
proof -
  obtain c cs where c: "digits_of 10 m = c # cs" by (meson digits_of_not_Nil neq_Nil_conv)
  then have c0: "c \<noteq> CHR ''0''" "digit c" "list_all digit cs" using first_digit [OF assms(2)] digits_digits [of m] by auto
  define e where "e = int (length cs) - k"
  define x where "x = CHR ''e'' # (if e < 0 then CHR ''-'' else CHR ''+'') # digits_of 10 (nat \<bar>e\<bar>) @ r"
  have x: "lex_exp x = Some (e, r)" "no_digit x" "lex_frac x = Some ([], x)"
    using lex_exp_some [OF stop_no_digit [OF assms(1)]]
    by (auto simp: x_def no_digit_def digit_range char_nat_def lex_frac_def)
  have v: "digits_nat (c # cs) = m" by (metis c digits_nat_digits)
  have d: "decimal (int m) k = of_nat m * 10 powi (e - int (length cs))"
    by (simp add: decimal_def e_def power_int_minus divide_inverse)
  have i: "lex_int (c # y) = Some ([c], y)" if "no_digit y" for y
    using take_digits [of "[c]" y] that c0 by (simp add: lex_int_def)
  show ?thesis
  proof (cases "cs = []")
    case True
    then have "exp_decimal m k @ r = c # x" by (simp add: exp_decimal_def c x_def e_def Let_def)
    then show ?thesis using True x v d i [of x] by (simp add: lex_unsigned_def)
  next
    case False
    then have t: "exp_decimal m k @ r = c # CHR ''.'' # cs @ x" by (simp add: exp_decimal_def c x_def e_def Let_def)
    have "no_digit (CHR ''.'' # cs @ x)" by (simp add: no_digit_def digit_range char_nat_def)
    then show ?thesis using t x v d i lex_frac_some [OF c0(3) False x(2)] by (simp add: lex_unsigned_def)
  qed
qed

subsection \<open>Floating-point numbers\<close>

lemma to_f64_minus: "to_f64 q = Fin r \<Longrightarrow> to_f64 (- q) = Fin (- r)"
  by (auto simp: to_f64_def dbl.round_minus Let_def split: if_splits)

text \<open>The exact value has at most 1074 decimal places.\<close>

lemma ten_powi: "(10 :: rat) powi int n = of_int (5 ^ n) * 2 powi int n"
  by (simp flip: power_mult_distrib)

lemma grid_places:
  assumes "(x :: rat) = of_int a * 2 powi e" and "- int n \<le> e"
  shows "\<exists>b. x * 10 powi int n = of_int b"
proof -
  have "x * 10 powi int n = of_int (a * 5 ^ n) * 2 powi (e + int n)"
    by (simp only: assms(1) ten_powi powi_plus of_int_mult mult_ac)
  also have "\<dots> = of_int (a * 5 ^ n * 2 ^ nat (e + int n))" using assms(2) by (simp add: powi_nat)
  finally show ?thesis by blast
qed

lemma exact_places:
  assumes "f64_ok (Fin q)" and "0 < q"
  shows "\<exists>n. q * 10 powi 1074 = of_int n"
proof -
  have r: "q = of_int (rne (q / 2 powi f64_exp q)) * 2 powi f64_exp q"
    using assms dbl.round_pos_eq [of q] by simp
  have e: "- int 1074 \<le> f64_exp q" by (simp add: f64_exp_def)
  show ?thesis using grid_places [OF r e] unfolding of_nat_numeral .
qed

lemma reads_positive: "reads_as q k m \<Longrightarrow> 0 < q \<Longrightarrow> 0 < m"
proof (rule ccontr)
  assume r: "reads_as q k m" "0 < q" "\<not> 0 < m"
  then have "decimal m k \<le> 0" by (simp add: decimal_def divide_le_0_iff)
  then have "f64_le (to_f64 (decimal m k)) (to_f64 0)" by (rule to_f64_mono)
  then show False using r by (simp add: reads_as_def)
qed

lemma nearest_exact:
  assumes "f64_ok (Fin q)" and "q * 10 powi k = of_int n"
  shows "reads_as q k (nearest q k)"
proof -
  have "decimal n k = q" using assms(2) by (simp add: decimal_def field_simps)
  then have "reads_as q k n" using to_f64_Fin [OF assms(1)] by (simp add: reads_as_def)
  then show ?thesis using assms(2) by (simp add: nearest_def Let_def)
qed

lemma find_holds: "find P xs = Some x \<Longrightarrow> P x"
  by (induction xs) (auto split: if_splits)

lemma shortest_reads:
  assumes "f64_ok (Fin q)" and "0 < q"
  shows "reads_as q (snd (shortest q)) (fst (shortest q)) \<and> 0 < fst (shortest q)"
proof -
  let ?ks = "map (\<lambda>i. int i - 310) [0..<1400]" and ?P = "\<lambda>k. reads_as q k (nearest q k)"
  obtain n where "q * 10 powi 1074 = of_int n" using exact_places [OF assms] by blast
  then have "?P 1074" by (rule nearest_exact [OF assms(1)])
  moreover have "1074 \<in> set ?ks" by (auto intro: image_eqI [of _ _ 1384])
  ultimately obtain k where k: "find ?P ?ks = Some k"
    using find_None_iff [of ?P ?ks] by (cases "find ?P ?ks") blast+
  from find_holds [OF k] have "?P k" .
  then show ?thesis using k reads_positive [OF _ assms(2)] by (simp add: shortest_def)
qed

text \<open>The number that the text of a \<^verbatim>\<open>float64\<close> stands for.\<close>

definition float_num :: "rat \<Rightarrow> rat" where
  "float_num q = (if q = 0 then 0 else sgn q * (case shortest \<bar>q\<bar> of (m, k) \<Rightarrow> decimal m k))"

lemma f64_ok_abs: "f64_ok (Fin q) \<Longrightarrow> f64_ok (Fin \<bar>q\<bar>)"
  by (auto simp: abs_if dbl.round_minus)

lemma float_num_reads:
  assumes "f64_ok (Fin q)"
  shows "to_f64 (float_num q) = Fin q"
proof (cases "q = 0")
  case False
  obtain m k where s: "shortest \<bar>q\<bar> = (m, k)" by fastforce
  then have "to_f64 (decimal m k) = Fin \<bar>q\<bar>"
    using shortest_reads [OF f64_ok_abs [OF assms]] False by (simp add: reads_as_def)
  then show ?thesis
    using False s to_f64_minus [of "decimal m k" "\<bar>q\<bar>"] by (auto simp: float_num_def sgn_if abs_if)
qed (simp add: float_num_def)

lemma lex_number_unsigned:
  "lex_unsigned (c # s) = Some (q, r) \<Longrightarrow> lex_number (c # s) = Some (q, r)"
  "lex_unsigned s = Some (q, r) \<Longrightarrow> lex_number (CHR ''-'' # s) = Some (- q, r)"
  by (auto simp: lex_number_def lex_unsigned_def lex_int_def digit_range char_nat_def split: option.splits if_splits)

lemma lex_number_of_unsigned: "lex_unsigned s = Some (q, r) \<Longrightarrow> lex_number s = Some (q, r)"
  by (cases s) (auto simp: lex_number_unsigned, simp add: lex_unsigned_def lex_int_def)

lemma lex_number_float:
  assumes "f64_ok (Fin q)" and "stop r"
  shows "lex_number (float_text q @ r) = Some (float_num q, r)"
proof (cases "q = 0")
  case True
  have "digits_of 10 0 = ''0''" by (simp add: digits_of.simps hex_digit_def char_of_def bit_Suc bit_0)
  then show ?thesis
    using True lex_unsigned_digits [OF assms(2), of 0] by (simp add: float_text_def float_num_def lex_number_of_unsigned)
next
  case False
  obtain m k where s: "shortest \<bar>q\<bar> = (m, k)" by fastforce
  then have m: "0 < m" using shortest_reads [OF f64_ok_abs [OF assms(1)]] False by simp
  define t where "t = (if \<bar>q\<bar> < 1 / 1000000 \<or> 10 ^ 21 \<le> \<bar>q\<bar> then exp_decimal (nat m) k else plain_decimal (nat m) k)"
  have u: "lex_unsigned (t @ r) = Some (decimal m k, r)"
    using lex_unsigned_exp [OF assms(2), of "nat m" k] lex_unsigned_plain [OF assms(2), of "nat m" k] m
    by (simp add: t_def)
  have "float_text q = (if q < 0 then ''-'' else []) @ t" using False s by (simp add: float_text_def t_def)
  then show ?thesis
    using False s lex_number_of_unsigned [OF u] lex_number_unsigned(2) [OF u] by (simp add: float_num_def sgn_if)
qed

lemma lex_number_int:
  assumes "stop r"
  shows "lex_number (fmt_dec n @ r) = Some (of_int n, r)"
  using lex_number_of_unsigned [OF lex_unsigned_digits [OF assms, of "nat n"]]
    lex_number_unsigned(2) [OF lex_unsigned_digits [OF assms, of "nat (- n)"]]
  by (simp add: fmt_dec_def of_nat_nat)

end
