(* ===== verification/JsonRead.thy ===== *)
theory JsonRead
  imports JsonLemmas
begin

text \<open>
  The text of a value is read back as that value: the lexer finds its tokens, the stack machine puts
  them together, and the value is stored.
\<close>

subsection \<open>Values that can be sent\<close>

text \<open>Numbers are finite, integers are those of Go, and the keys of a map are valid strings.\<close>

fun text_ok :: "go_any \<Rightarrow> bool" where
  "text_ok ANil = True"
| "text_ok (ABool b) = True"
| "text_ok (AInt n) = (\<bar>n\<bar> \<le> 2 ^ 64)"
| "text_ok (AFloat d) = (f64_ok d \<and> (case d of Fin _ \<Rightarrow> True | _ \<Rightarrow> False))"
| "text_ok (AStr s) = True"
| "text_ok (AList as) = list_all text_ok as"
| "text_ok (AMap kvs) = list_all (\<lambda>(k, a). utf8_valid k \<and> text_ok a) kvs"

text \<open>The keys of each map are in order.\<close>

fun ordered :: "go_any \<Rightarrow> bool" where
  "ordered (AList as) = list_all ordered as"
| "ordered (AMap kvs) = (sorted_wrt bytes_less (map fst kvs) \<and> list_all (\<lambda>(k, a). ordered a) kvs)"
| "ordered a = True"

fun nesting :: "go_any \<Rightarrow> nat" where
  "nesting (AList as) = Suc (foldr (\<lambda>a n. max (nesting a) n) as 0)"
| "nesting (AMap kvs) = Suc (foldr (\<lambda>(k, a) n. max (nesting a) n) kvs 0)"
| "nesting _ = 0"

text \<open>What the reader gets: numbers are \<^verbatim>\<open>float64\<close>, strings are valid UTF-8.\<close>

fun received :: "go_any \<Rightarrow> go_any" where
  "received (AInt n) = AFloat (f64_of_int n)"
| "received (AStr s) = AStr (to_valid s)"
| "received (AList as) = AList (map received as)"
| "received (AMap kvs) = AMap (map (\<lambda>(k, a). (k, received a)) kvs)"
| "received a = a"

fun any_json :: "go_any \<Rightarrow> json" where
  "any_json ANil = JNull"
| "any_json (ABool b) = JBool b"
| "any_json (AInt n) = JNum (of_int n)"
| "any_json (AFloat d) = (case d of Fin q \<Rightarrow> JNum (float_num q) | _ \<Rightarrow> JNull)"
| "any_json (AStr s) = JStr (to_valid s)"
| "any_json (AList as) = JArr (map any_json as)"
| "any_json (AMap kvs) = JObj (map (\<lambda>(k, a). (k, any_json a)) kvs)"

fun join_toks :: "tok list list \<Rightarrow> tok list" where
  "join_toks [] = []"
| "join_toks [x] = x"
| "join_toks (x # xs) = x @ TComma # join_toks xs"

fun any_toks :: "go_any \<Rightarrow> tok list" where
  "any_toks ANil = [TNull]"
| "any_toks (ABool b) = [if b then TTrue else TFalse]"
| "any_toks (AInt n) = [TNum (of_int n)]"
| "any_toks (AFloat d) = (case d of Fin q \<Rightarrow> [TNum (float_num q)] | _ \<Rightarrow> [])"
| "any_toks (AStr s) = [TStr (to_valid s)]"
| "any_toks (AList as) = TOpenArr # join_toks (map any_toks as) @ [TCloseArr]"
| "any_toks (AMap kvs) = TOpenObj # join_toks (map (\<lambda>(k, a). TStr k # TColon # any_toks a) kvs) @ [TCloseObj]"

subsection \<open>The lexer\<close>

lemma lex_one: "lex_tok s = Some (Some t, r) \<Longrightarrow> lex s = map_option ((#) t) (lex r)"
  by (cases "s = []", simp add: lex_tok_def) (subst lex.simps, simp)

lemma app_cons: "(@) (x # xs) = (\<lambda>ys. x # xs @ ys)"
  by (simp add: fun_eq_iff)

lemma lex_quote: "lex (quote s @ r) = map_option ((#) (TStr (to_valid s))) (lex r)"
proof (rule lex_one)
  show "lex_tok (quote s @ r) = Some (Some (TStr (to_valid s)), r)"
    by (simp add: quote_def lex_tok_def json_space_def escape_read to_valid_id to_valid_valid)
qed

lemma punctuation_of: "48 \<le> char_nat c \<and> char_nat c \<le> 57 \<or> char_nat c = 45 \<Longrightarrow> map_of punctuation c = None"
  by (auto simp: punctuation_def char_nat_def)

lemma lex_number_tok: "lex_number s = Some (q, r) \<Longrightarrow> lex_tok s = Some (Some (TNum q), r)"
proof -
  assume l: "lex_number s = Some (q, r)"
  then obtain c cs where s: "s = c # cs" by (cases s) (auto simp: lex_number_def)
  then have c: "48 \<le> char_nat c \<and> char_nat c \<le> 57 \<or> char_nat c = 45"
    using l by (auto simp: lex_number_def lex_unsigned_def lex_int_def digit_range char_nat_def split: if_splits option.splits)
  then have "lex_word s = None" by (auto simp: s lex_word_def char_nat_def)
  moreover have "c \<noteq> quote_char" "\<not> json_space c" using c by (auto simp: json_space_def)
  ultimately show ?thesis
    using l punctuation_of [OF c] by (simp add: s lex_tok_def)
qed

lemma lex_punct:
  "lex (CHR ''{'' # r) = map_option ((#) TOpenObj) (lex r)" "lex (CHR ''}'' # r) = map_option ((#) TCloseObj) (lex r)"
  "lex (CHR ''['' # r) = map_option ((#) TOpenArr) (lex r)" "lex (CHR '']'' # r) = map_option ((#) TCloseArr) (lex r)"
  "lex (CHR '','' # r) = map_option ((#) TComma) (lex r)" "lex (CHR '':'' # r) = map_option ((#) TColon) (lex r)"
  by (auto intro!: lex_one simp: lex_tok_def json_space_def char_nat_def punctuation_def char_forms)

lemma lex_words:
  "lex (''null'' @ r) = map_option ((#) TNull) (lex r)" "lex (''true'' @ r) = map_option ((#) TTrue) (lex r)"
  "lex (''false'' @ r) = map_option ((#) TFalse) (lex r)"
  by (auto intro!: lex_one simp: lex_tok_def json_space_def char_nat_def punctuation_def char_forms lex_word_def)

lemma stop_punct: "stop (CHR '','' # r)" "stop (CHR '']'' # r)" "stop (CHR ''}'' # r)" "stop []"
  by (simp_all add: stop_def digit_range char_nat_def)

lemma lex_join:
  assumes "\<And>x r. x \<in> set xs \<Longrightarrow> stop r \<Longrightarrow> lex (f x @ r) = map_option ((@) (g x)) (lex r)" and "stop r"
  shows "lex (join (map f xs) @ r) = map_option ((@) (join_toks (map g xs))) (lex r)"
  using assms(1)
proof (induction xs rule: induct_list012)
  case 1
  then show ?case by (simp add: option.map_ident)
next
  case (2 x)
  then show ?case using assms(2) by simp
next
  case (3 x y xs)
  then have "lex (join (map f (y # xs)) @ r) = map_option ((@) (join_toks (map g (y # xs)))) (lex r)" by simp
  then show ?case
    using "3.prems" [of x "CHR '','' # join (map f (y # xs)) @ r"]
    by (simp add: stop_punct lex_punct option.map_comp comp_def)
qed

lemma lex_any: "text_ok a \<Longrightarrow> stop r \<Longrightarrow> lex (any_text a @ r) = map_option ((@) (any_toks a)) (lex r)"
proof (induction a arbitrary: r)
  case (AInt n)
  then show ?case using lex_one [OF lex_number_tok [OF lex_number_int]] by (simp add: fun_eq_iff)
next
  case (AFloat d)
  then obtain q where "d = Fin q" "f64_ok (Fin q)" by (auto split: f64.splits)
  then show ?case using AFloat lex_one [OF lex_number_tok [OF lex_number_float]] by (simp add: fun_eq_iff)
next
  case (AStr s)
  then show ?case by (simp add: lex_quote)
next
  case (AList as)
  have "lex (join (map any_text as) @ CHR '']'' # r)
    = map_option ((@) (join_toks (map any_toks as))) (lex (CHR '']'' # r))"
    by (rule lex_join) (use AList in \<open>auto simp: list_all_iff stop_punct\<close>)
  then show ?case by (simp add: lex_punct option.map_comp comp_def)
next
  case (AMap kvs)
  let ?f = "\<lambda>(k, a). quote k @ CHR '':'' # any_text a" and ?g = "\<lambda>(k, a). TStr k # TColon # any_toks a"
  have "lex (join (map ?f kvs) @ CHR ''}'' # r) = map_option ((@) (join_toks (map ?g kvs))) (lex (CHR ''}'' # r))"
  proof (rule lex_join)
    fix x s
    assume x: "x \<in> set kvs" and s: "stop s"
    obtain k a where ka: "x = (k, a)" by fastforce
    then have "lex (any_text a @ s) = map_option ((@) (any_toks a)) (lex s)" "to_valid k = k"
      using AMap x s by (auto simp: list_all_iff to_valid_id)
    then show "lex (?f x @ s) = map_option ((@) (?g x)) (lex s)"
      by (simp add: ka lex_quote lex_punct option.map_comp comp_def app_cons)
  qed (simp add: stop_punct)
  then show ?case by (simp add: lex_punct option.map_comp comp_def)
qed (use lex_words in \<open>auto simp: app_cons\<close>)

subsection \<open>The stack machine\<close>

lemma json_run_append: "json_run st (ts @ us) = (case json_run st ts of None \<Rightarrow> None | Some st \<Rightarrow> json_run st us)"
  by (induction ts arbitrary: st) (auto split: option.splits)

text \<open>A value is no closing bracket, so it does not matter whether an array may end here.\<close>

lemma any_toks_start: "text_ok a \<Longrightarrow> \<exists>t ts. any_toks a = t # ts \<and> t \<noteq> TCloseArr"
  by (cases a) (auto split: f64.splits)

lemma want_first:
  "t \<noteq> TCloseArr \<Longrightarrow> json_run (WantFirst fs) (t # ts) = json_run (WantValue (InArr [] # fs)) (t # ts)"
  by simp

lemma machine_values:
  assumes "\<And>a vs ts. a \<in> set as \<Longrightarrow>
      json_run (WantValue (InArr vs # fs)) (any_toks a @ ts) = json_run (Have (any_json a) (InArr vs # fs)) ts"
    and "as \<noteq> []"
  shows "json_run (WantValue (InArr vs # fs)) (join_toks (map any_toks as) @ TCloseArr # ts)
    = json_run (Have (JArr (vs @ map any_json as)) fs) ts"
  using assms
proof (induction as arbitrary: vs rule: induct_list012)
  case (3 a b as)
  then have "json_run (WantValue (InArr (vs @ [any_json a]) # fs)) (join_toks (map any_toks (b # as)) @ TCloseArr # ts)
    = json_run (Have (JArr ((vs @ [any_json a]) @ map any_json (b # as))) fs) ts" by simp
  then show ?case using "3.prems"(1) [of a vs] by simp
qed simp_all

lemma machine_fields:
  assumes "\<And>k a kvs' ts. (k, a) \<in> set kvs \<Longrightarrow>
      json_run (WantValue (InObj kvs' k # fs)) (any_toks a @ ts) = json_run (Have (any_json a) (InObj kvs' k # fs)) ts"
    and "kvs \<noteq> []"
  shows "json_run (WantKey first acc fs) (join_toks (map (\<lambda>(k, a). TStr k # TColon # any_toks a) kvs) @ TCloseObj # ts)
    = json_run (Have (JObj (acc @ map (\<lambda>(k, a). (k, any_json a)) kvs)) fs) ts"
  using assms
proof (induction kvs arbitrary: acc first rule: induct_list012)
  case (2 x)
  then show ?case by (cases x) simp
next
  case (3 x y kvs)
  obtain k a where x: "x = (k, a)" by fastforce
  have "json_run (WantKey False (acc @ [(k, any_json a)]) fs)
      (join_toks (map (\<lambda>(k, a). TStr k # TColon # any_toks a) (y # kvs)) @ TCloseObj # ts)
    = json_run (Have (JObj ((acc @ [(k, any_json a)]) @ map (\<lambda>(k, a). (k, any_json a)) (y # kvs))) fs) ts"
    using 3 by (metis list.distinct(1) list.set_intros(2))
  then show ?case using "3.prems"(1) [of k a acc] by (simp add: x)
qed simp

lemma nesting_list: "a \<in> set as \<Longrightarrow> nesting a < nesting (AList as)"
proof -
  have "a \<in> set as \<Longrightarrow> nesting a \<le> foldr (\<lambda>a n. max (nesting a) n) as 0" by (induction as) auto
  then show "a \<in> set as \<Longrightarrow> nesting a < nesting (AList as)" by simp
qed

lemma nesting_map: "(k, a) \<in> set kvs \<Longrightarrow> nesting a < nesting (AMap kvs)"
proof -
  have "(k, a) \<in> set kvs \<Longrightarrow> nesting a \<le> foldr (\<lambda>(k, a) n. max (nesting a) n) kvs 0"
    by (induction kvs) (auto split: prod.splits)
  then show "(k, a) \<in> set kvs \<Longrightarrow> nesting a < nesting (AMap kvs)" by simp
qed

lemma machine_any:
  "text_ok a \<Longrightarrow> length fs + nesting a \<le> maxNestingDepth \<Longrightarrow>
   json_run (WantValue fs) (any_toks a @ ts) = json_run (Have (any_json a) fs) ts"
proof (induction a arbitrary: fs ts)
  case (AList as)
  have fs: "length fs < maxNestingDepth" using AList.prems by simp
  show ?case
  proof (cases "as = []")
    case False
    then obtain a as' where as: "as = a # as'" by (cases as) auto
    then obtain u us where u: "any_toks a = u # us" "u \<noteq> TCloseArr" using any_toks_start [of a] AList.prems by auto
    obtain us where j: "join_toks (map any_toks as) = u # us" by (cases as') (auto simp: as u)
    have "json_run (WantValue (InArr [] # fs)) (join_toks (map any_toks as) @ TCloseArr # ts)
      = json_run (Have (JArr ([] @ map any_json as)) fs) ts"
    proof (rule machine_values)
      fix a vs us
      assume "a \<in> set as"
      then show "json_run (WantValue (InArr vs # fs)) (any_toks a @ us) = json_run (Have (any_json a) (InArr vs # fs)) us"
        using AList.IH [of a "InArr vs # fs" us] AList.prems nesting_list [of a as] by (auto simp: list_all_iff)
    qed (use False in simp)
    then have "json_run (WantFirst fs) (u # us @ TCloseArr # ts) = json_run (Have (JArr (map any_json as)) fs) ts"
      by (simp only: want_first [OF u(2)] j append_Cons append_Nil)
    then show ?thesis using fs by (simp add: j)
  qed (use fs in simp)
next
  case (AMap kvs)
  have fs: "length fs < maxNestingDepth" using AMap.prems by simp
  show ?case
  proof (cases "kvs = []")
    case False
    have "json_run (WantKey True [] fs) (join_toks (map (\<lambda>(k, a). TStr k # TColon # any_toks a) kvs) @ TCloseObj # ts)
      = json_run (Have (JObj ([] @ map (\<lambda>(k, a). (k, any_json a)) kvs)) fs) ts"
    proof (rule machine_fields)
      fix k a kvs' us
      assume "(k, a) \<in> set kvs"
      then show "json_run (WantValue (InObj kvs' k # fs)) (any_toks a @ us) = json_run (Have (any_json a) (InObj kvs' k # fs)) us"
        using AMap.IH [of "(k, a)" a "InObj kvs' k # fs" us] AMap.prems nesting_map [of k a kvs] by (auto simp: list_all_iff)
    qed (use False in simp)
    then show ?thesis using fs by simp
  qed (use fs in simp)
qed (auto split: f64.splits)

theorem parse_any:
  assumes "text_ok a" and "nesting a \<le> maxNestingDepth"
  shows "parse_json (any_text a) = Some (any_json a)"
  using lex_any [OF assms(1) stop_punct(4)] machine_any [OF assms(1), of "[]" "[]"] assms(2)
  by (simp add: parse_json_def lex.simps [of "[]"])

subsection \<open>Storing\<close>

lemma map_put_last: "\<forall>k'\<in>fst ` set kvs. bytes_less k' k \<Longrightarrow> map_put k v kvs = kvs @ [(k, v)]"
proof (induction kvs)
  case (Cons x kvs)
  have "\<not> (bytes_less a b \<and> bytes_less b a)" for a b
    by (induction a b rule: bytes_less.induct) auto
  moreover have "\<not> bytes_less a a" for a by (induction a) auto
  ultimately show ?case using Cons by (cases x) auto
qed simp

lemma to_fields_sorted:
  assumes "\<And>k a. (k, a) \<in> set kvs \<Longrightarrow> to_any (any_json a) = Some (received a)"
    and "sorted_wrt bytes_less (map fst acc @ map fst kvs)"
  shows "to_fields (map (\<lambda>(k, a). (k, any_json a)) kvs) acc = Some (acc @ map (\<lambda>(k, a). (k, received a)) kvs)"
  using assms
proof (induction kvs arbitrary: acc)
  case (Cons x kvs)
  obtain k a where x: "x = (k, a)" by fastforce
  have "map_put k (received a) acc = acc @ [(k, received a)]"
    using Cons.prems(2) by (intro map_put_last) (auto simp: x sorted_wrt_append)
  moreover have "to_fields (map (\<lambda>(k, a). (k, any_json a)) kvs) (acc @ [(k, received a)])
      = Some ((acc @ [(k, received a)]) @ map (\<lambda>(k, a). (k, received a)) kvs)"
    using Cons.prems by (intro Cons.IH) (auto simp: x)
  ultimately show ?case using Cons.prems(1) [of k a] by (simp add: x)
qed simp

lemma to_anys_all:
  "(\<And>a. a \<in> set as \<Longrightarrow> to_any (any_json a) = Some (received a)) \<Longrightarrow> to_anys (map any_json as) = Some (map received as)"
  by (induction as) auto

lemma f64_ok_bounds: "f64_ok (Fin (2 ^ 64))" "f64_ok (Fin (- (2 ^ 64)))"
proof -
  have "ilog2 (2 ^ 64) = 64" by (rule ilog2_unique) simp_all
  then have "round_to f64_exp (2 ^ 64) = 2 ^ 64"
    by (intro dbl.round_on_grid [of _ "2 ^ 52"]) (simp_all add: f64_exp_def)
  then show "f64_ok (Fin (2 ^ 64))" "f64_ok (Fin (- (2 ^ 64)))" by (simp_all add: dbl.round_minus)
qed

lemma int_finite:
  assumes "\<bar>n\<bar> \<le> 2 ^ 64"
  obtains q where "f64_of_int n = Fin q"
proof -
  have n: "- (2 ^ 64) \<le> n" "n \<le> 2 ^ 64" using assms by auto
  have "(of_int (- (2 ^ 64)) :: rat) \<le> of_int n" "(of_int n :: rat) \<le> of_int (2 ^ 64)"
    using n by (simp_all only: of_int_le_iff)
  then have "f64_le (Fin (- (2 ^ 64))) (f64_of_int n)" "f64_le (f64_of_int n) (Fin (2 ^ 64))"
    using to_f64_ge [OF _ f64_ok_bounds(2), of "of_int n"] to_f64_le [OF _ f64_ok_bounds(1), of "of_int n"]
    by (simp_all add: f64_of_int_def)
  then show thesis using that by (cases "f64_of_int n") auto
qed

lemma to_any_received: "text_ok a \<Longrightarrow> ordered a \<Longrightarrow> to_any (any_json a) = Some (received a)"
proof (induction a)
  case (AInt n)
  then obtain q where "f64_of_int n = Fin q" using int_finite by auto
  then show ?case by (simp add: f64_of_int_def)
next
  case (AFloat d)
  then show ?case using float_num_reads by (auto split: f64.splits)
next
  case (AList as)
  then show ?case by (simp add: to_anys_all list_all_iff)
next
  case (AMap kvs)
  have "to_fields (map (\<lambda>(k, a). (k, any_json a)) kvs) [] = Some ([] @ map (\<lambda>(k, a). (k, received a)) kvs)"
  proof (rule to_fields_sorted)
    fix k a
    assume "(k, a) \<in> set kvs"
    then show "to_any (any_json a) = Some (received a)"
      using AMap.IH [of "(k, a)" a] AMap.prems by (auto simp: list_all_iff)
  qed (use AMap.prems in simp)
  then show ?case by simp
qed simp_all

end
