(* ===== verification/JsonProps.thy ===== *)
theory JsonProps
  imports JsonRead LabelProps
begin

text \<open>
  Messages of Stratum V1 as text: a message is one line, reading it gives the message again, a line
  that arrives in pieces reaches its handler, and the strings of a message are valid UTF-8.
\<close>

subsection \<open>A message is one line\<close>

abbreviation visible :: "string \<Rightarrow> bool" where
  "visible s \<equiv> list_all (\<lambda>c. 32 \<le> char_nat c) s"

lemma hex_digits_visible: "b \<le> 16 \<Longrightarrow> 2 \<le> b \<Longrightarrow> visible (digits_of b n)"
  using set_digits_of [of b n] by (fastforce simp: list_all_iff hex_digit_def char_nat_def)

lemma zero_pad_visible: "visible s \<Longrightarrow> visible (zero_pad k s)"
  by (auto simp: zero_pad_def list_all_iff)

lemma escape_char_visible: "visible (escape_char c)"
  using zero_pad_visible [OF hex_digits_visible [of 16 "char_nat c"], of 4]
  by (auto simp: escape_char_def Let_def fmt_hex_def)

lemma escape_visible: "visible (escape s)"
proof (induction s rule: escape.induct)
  case (1 s)
  have "visible (take (rune_len s) s)" if "1 < rune_len s"
    using rune_high [OF that] by (auto simp: list_all_iff)
  then show ?case
    using 1 escape_char_visible [of "hd s"] by (subst escape.simps) auto
qed

lemma quote_visible: "visible (quote s)"
  using escape_visible by (simp add: quote_def)

lemma exp_visible: "visible (exp_decimal m k)"
proof -
  have d: "visible (digits_of 10 n)" for n by (rule hex_digits_visible) simp_all
  obtain c cs where "digits_of 10 m = c # cs" by (meson digits_of_not_Nil neq_Nil_conv)
  then show ?thesis using d [of m] d by (auto simp: exp_decimal_def Let_def)
qed

lemma float_visible: "visible (float_text q)"
proof -
  have d: "visible (digits_of 10 n)" for n by (rule hex_digits_visible) simp_all
  then have "visible (plain_decimal m k)" for m k
    by (auto simp: plain_decimal_def zero_pad_visible)
  then show ?thesis using exp_visible by (auto simp: float_text_def split: prod.splits)
qed

lemma join_visible: "list_all visible xs \<Longrightarrow> visible (join xs)"
  by (induction xs rule: join.induct) auto

lemma any_visible: "visible (any_text a)"
proof (induction a)
  case (AInt n)
  then show ?case using hex_digits_visible [of 10] by (auto simp: fmt_dec_def)
next
  case (AFloat d)
  then show ?case using float_visible by (auto split: f64.splits)
next
  case (AList as)
  then have "list_all visible (map any_text as)" by (auto simp: list_all_iff)
  then show ?case using join_visible by simp
next
  case (AMap kvs)
  have "list_all visible (map (\<lambda>(k, a). quote k @ CHR '':'' # any_text a) kvs)"
    using AMap quote_visible by (auto simp: list_all_iff)
  then show ?case using join_visible by simp
qed (auto simp: quote_visible)

lemma event_as_map: "event_text e = any_text (AMap [(''id'', eventId e), (''jsonrpc'', AStr (jsonrpc e)),
    (''method'', AStr (Method e)), (''params'', AList (Params e))])"
  by (simp add: event_text_def field_text_def)

lemma response_as_map: "response_text r = any_text (AMap [(''id'', respId r), (''result'', Result r),
    (''error'', case respError r of None \<Rightarrow> ANil | Some as \<Rightarrow> AList as)])"
  by (simp add: response_text_def field_text_def split: option.splits)

subsection \<open>Round trips\<close>

definition event_readable :: "JsonRpcEvent \<Rightarrow> bool" where
  "event_readable e \<longleftrightarrow> text_ok (eventId e) \<and> ordered (eventId e) \<and> list_all text_ok (Params e) \<and> list_all ordered (Params e)
    \<and> nesting (eventId e) < maxNestingDepth \<and> nesting (AList (Params e)) < maxNestingDepth"

definition received_event :: "JsonRpcEvent \<Rightarrow> JsonRpcEvent" where
  "received_event e = \<lparr>eventId = received (eventId e), jsonrpc = to_valid (jsonrpc e), Method = to_valid (Method e),
     Params = map received (Params e)\<rparr>"

definition response_readable :: "JsonRpcResponse \<Rightarrow> bool" where
  "response_readable r \<longleftrightarrow> text_ok (respId r) \<and> ordered (respId r) \<and> text_ok (Result r) \<and> ordered (Result r)
    \<and> nesting (respId r) < maxNestingDepth \<and> nesting (Result r) < maxNestingDepth
    \<and> (case respError r of None \<Rightarrow> True | Some as \<Rightarrow> text_ok (AList as) \<and> ordered (AList as) \<and> nesting (AList as) < maxNestingDepth)"

definition received_response :: "JsonRpcResponse \<Rightarrow> JsonRpcResponse" where
  "received_response r = \<lparr>respId = received (respId r), Result = received (Result r),
     respError = map_option (map received) (respError r)\<rparr>"

lemma field_names [simp]:
  "is_field ''id'' ''id''" "is_field ''jsonrpc'' ''jsonrpc''" "is_field ''method'' ''method''" "is_field ''params'' ''params''"
  "is_field ''result'' ''result''" "is_field ''error'' ''error''"
  by (simp_all add: is_field_def)

lemma field_differs [simp]:
  "\<not> is_field ''id'' ''jsonrpc''" "\<not> is_field ''id'' ''method''" "\<not> is_field ''id'' ''params''"
  "\<not> is_field ''id'' ''result''" "\<not> is_field ''id'' ''error''"
  "\<not> is_field ''jsonrpc'' ''method''" "\<not> is_field ''jsonrpc'' ''params''" "\<not> is_field ''method'' ''params''"
  "\<not> is_field ''result'' ''error''"
  by code_simp+

lemma names_valid [simp]:
  "utf8_valid ''id''" "utf8_valid ''jsonrpc''" "utf8_valid ''method''" "utf8_valid ''params''" "utf8_valid ''result''"
  "utf8_valid ''error''"
  by (rule valid_all_ascii, simp add: ascii_def)+

lemma read_event:
  assumes "event_readable e"
  shows "UnmarshalEvent (event_text e) = Some (received_event e)"
proof -
  let ?kvs = "[(''id'', eventId e), (''jsonrpc'', AStr (jsonrpc e)), (''method'', AStr (Method e)), (''params'', AList (Params e))]"
  have p: "parse_json (any_text (AMap ?kvs)) = Some (any_json (AMap ?kvs))"
    using assms by (intro parse_any) (simp_all add: event_readable_def Suc_le_eq)
  have "to_anys (map any_json (Params e)) = Some (map received (Params e))"
    using assms by (intro to_anys_all) (auto simp: event_readable_def list_all_iff to_any_received)
  moreover have "to_any (any_json (eventId e)) = Some (received (eventId e))"
    using assms by (simp add: event_readable_def to_any_received)
  ultimately show ?thesis
    unfolding UnmarshalEvent_def unmarshal_into_def event_as_map p
    by (simp add: store_event_def store_string_def store_list_def no_event_def received_event_def)
qed

lemma read_response:
  assumes "response_readable r"
  shows "UnmarshalResponse (response_text r) = Some (received_response r)"
proof -
  let ?err = "case respError r of None \<Rightarrow> ANil | Some as \<Rightarrow> AList as"
  let ?kvs = "[(''id'', respId r), (''result'', Result r), (''error'', ?err)]"
  have p: "parse_json (any_text (AMap ?kvs)) = Some (any_json (AMap ?kvs))"
    using assms by (intro parse_any) (auto simp: response_readable_def Suc_le_eq split: option.splits)
  have "to_anys (map any_json as) = Some (map received as)" if "respError r = Some as" for as
    using assms that by (intro to_anys_all) (auto simp: response_readable_def list_all_iff to_any_received)
  moreover have "to_any (any_json (respId r)) = Some (received (respId r))"
    "to_any (any_json (Result r)) = Some (received (Result r))"
    using assms by (simp_all add: response_readable_def to_any_received)
  ultimately show ?thesis
    unfolding UnmarshalResponse_def unmarshal_into_def response_as_map p
    by (simp add: store_response_def store_list_def no_response_def received_response_def split: option.splits)
qed

text \<open>Messages in which nothing is changed on the way: no integers, and only strings that are valid UTF-8.\<close>

fun plain_any :: "go_any \<Rightarrow> bool" where
  "plain_any (AInt n) \<longleftrightarrow> False"
| "plain_any (AStr s) \<longleftrightarrow> utf8_valid s"
| "plain_any (AList as) \<longleftrightarrow> list_all plain_any as"
| "plain_any (AMap kvs) \<longleftrightarrow> list_all (\<lambda>(k, a). plain_any a) kvs"
| "plain_any a \<longleftrightarrow> True"

definition plain_event :: "JsonRpcEvent \<Rightarrow> bool" where
  "plain_event e \<longleftrightarrow> plain_any (eventId e) \<and> utf8_valid (jsonrpc e) \<and> utf8_valid (Method e) \<and> list_all plain_any (Params e)"

definition plain_response :: "JsonRpcResponse \<Rightarrow> bool" where
  "plain_response r \<longleftrightarrow> plain_any (respId r) \<and> plain_any (Result r)
     \<and> (case respError r of None \<Rightarrow> True | Some as \<Rightarrow> list_all plain_any as)"

lemma plain_received: "plain_any a \<Longrightarrow> received a = a"
proof (induction a)
  case (AList as)
  then show ?case by (induction as) auto
next
  case (AMap kvs)
  have "received a = a" if "(k, a) \<in> set kvs" for k a
    using AMap.IH [of "(k, a)" a] AMap.prems that by (auto simp: list_all_iff)
  then have "map (\<lambda>(k, a). (k, received a)) kvs = kvs" by (intro map_idI) auto
  then show ?case by simp
qed (simp_all add: to_valid_id)

lemma plain_received_all: "list_all plain_any as \<Longrightarrow> map received as = as"
  by (induction as) (simp_all add: plain_received)

lemma plain_messages: "plain_event e \<Longrightarrow> received_event e = e" "plain_response r \<Longrightarrow> received_response r = r"
  by (simp_all add: plain_event_def plain_response_def received_event_def received_response_def plain_received
      plain_received_all to_valid_id split: option.splits)

text \<open>
  C37: what is written is read back, up to what JSON cannot carry: the text of an event or of a response is accepted
  by \<^verbatim>\<open>UnmarshalEvent\<close> and \<^verbatim>\<open>UnmarshalResponse\<close>, which return the message with each integer as the nearest \<^verbatim>\<open>float64\<close> and
  with malformed UTF-8 in its strings replaced; finite \<^verbatim>\<open>float64\<close> values come back exactly. So a message without
  integers whose strings are valid comes back as it was. The message must be one that can be written (finite
  numbers, integers of 64 bits, valid keys in order) and not nested deeper than 10000.
\<close>

theorem message_roundtrip:
  assumes "event_readable e" and "response_readable r"
  shows "UnmarshalEvent (event_text e) = Some (received_event e) \<and> (plain_event e \<longrightarrow> received_event e = e)
    \<and> UnmarshalResponse (response_text r) = Some (received_response r) \<and> (plain_response r \<longrightarrow> received_response r = r)"
  using read_event [OF assms(1)] read_response [OF assms(2)] plain_messages by blast

theorem message_roundtrip_witness:
  "UnmarshalEvent (event_text \<lparr>eventId = AInt 7, jsonrpc = ''2.0'', Method = ''mining.notify'',
      Params = [AStr [quote_char, char_of (255 :: nat)], AList [AInt 3], AFloat (Fin (1 / 4))]\<rparr>)
    = Some \<lparr>eventId = AFloat (f64_of_int 7), jsonrpc = to_valid ''2.0'', Method = to_valid ''mining.notify'',
      Params = [AStr (to_valid [quote_char, char_of (255 :: nat)]), AList [AFloat (f64_of_int 3)], AFloat (Fin (1 / 4))]\<rparr>
   \<and> UnmarshalResponse (response_text \<lparr>respId = AStr ''a'', Result = ANil, respError = Some [ABool True]\<rparr>)
    = Some \<lparr>respId = AStr (to_valid ''a''), Result = ANil, respError = Some [ABool True]\<rparr>"
proof -
  let ?e = "\<lparr>eventId = AInt 7, jsonrpc = ''2.0'', Method = ''mining.notify'',
      Params = [AStr [quote_char, char_of (255 :: nat)], AList [AInt 3], AFloat (Fin (1 / 4))]\<rparr>"
  let ?r = "\<lparr>respId = AStr ''a'', Result = ANil, respError = Some [ABool True]\<rparr>"
  have "ilog2 (1 / 4) = - 2" by (rule ilog2_unique) (simp_all add: power_int_def power2_eq_square)
  then have "round_to f64_exp (1 / 4) = 1 / 4"
    by (intro dbl.round_on_grid [of _ "2 ^ 52"]) (simp_all add: f64_exp_def power_int_def field_simps power2_eq_square)
  then have "f64_ok (Fin (1 / 4))" by simp
  then have "event_readable ?e" "response_readable ?r"
    by (simp_all add: event_readable_def response_readable_def maxNestingDepth_def del: f64_ok.simps)
  from message_roundtrip [OF this] show ?thesis
    by (simp only: received_event_def received_response_def JsonRpcEvent.select_convs JsonRpcResponse.select_convs
        received.simps list.map option.map)
qed

subsection \<open>A line that arrives in pieces\<close>

lemma first_unique: "a @ x # b = c @ x # d \<Longrightarrow> x \<notin> set a \<Longrightarrow> x \<notin> set c \<Longrightarrow> a = c \<and> b = d"
proof (induction a arbitrary: c)
  case Nil
  then show ?case by (cases c) auto
next
  case (Cons y a)
  then show ?case by (cases c) auto
qed

lemma first_split: "p @ q = l @ x # r \<Longrightarrow> x \<notin> set p \<Longrightarrow> \<exists>l'. l = p @ l' \<and> q = l' @ x # r"
proof (induction p arbitrary: l)
  case (Cons y p)
  then show ?case by (cases l) auto
qed simp

lemma gather_pieces:
  assumes "concat ps = l @ delim # rest" and "delim \<notin> set l"
  shows "\<exists>b ps'. gather delim acc (map Data ps @ s) = ((acc @ l @ [delim], None), \<lparr>buffered = b, source = map Data ps' @ s\<rparr>)
    \<and> b @ concat ps' = rest"
  using assms
proof (induction ps arbitrary: acc l)
  case (Cons p ps)
  show ?case
  proof (cases "delim \<in> set p")
    case True
    then obtain a b where p: "p = a @ delim # b" "delim \<notin> set a" by (meson split_list_first)
    then have "a = l" "b @ concat ps = rest"
      using Cons.prems first_unique [of a delim "b @ concat ps" l rest] by auto
    then show ?thesis
      using p by (intro exI [of _ b] exI [of _ ps]) (auto simp: takeWhile_append dropWhile_append)
  next
    case False
    obtain l' where l: "l = p @ l'" "concat ps = l' @ delim # rest"
      using first_split [of p "concat ps" l delim rest] Cons.prems False by auto
    then show ?thesis using Cons.IH [of l' "acc @ p"] Cons.prems False by simp
  qed
qed simp

lemma visible_bytes:
  assumes "visible s"
  shows "newline \<notin> set (str_bytes s)" and "filter (\<lambda>b. b \<noteq> 0) (str_bytes s) = str_bytes s"
proof -
  have "b \<noteq> newline \<and> b \<noteq> 0" if "b \<in> set (str_bytes s)" for b
  proof -
    obtain c where c: "c \<in> set s" "b = word_of_nat (char_nat c)" using \<open>b \<in> _\<close> by (auto simp: str_bytes_def char_nat_def)
    then have "unat b = char_nat c" using char_nat_less [of c] by (simp add: unat_of_nat)
    moreover have "32 \<le> char_nat c" using assms c by (auto simp: list_all_iff)
    ultimately show ?thesis by (auto simp: newline_def)
  qed
  then show "newline \<notin> set (str_bytes s)" "filter (\<lambda>b. b \<noteq> 0) (str_bytes s) = str_bytes s" by auto
qed

lemma spaces_start:
  "list_all (\<lambda>p. p \<noteq> [] \<and> hd p \<noteq> CHR ''{'') space_encodings"
  "list_all (\<lambda>p. p \<noteq> [] \<and> hd p \<noteq> CHR ''}'') (map rev space_encodings)"
  by code_simp+

lemma strip_bracket:
  assumes "list_all (\<lambda>p. p \<noteq> [] \<and> hd p \<noteq> c) ps"
  shows "strip_front ps (c # t) = c # t"
proof -
  have "\<not> (p \<noteq> [] \<and> prefix p (c # t))" if "p \<in> set ps" for p
  proof -
    have "p \<noteq> [] \<and> hd p \<noteq> c" using that assms by (auto simp: list_all_iff)
    then show ?thesis by (cases p) auto
  qed
  then have "find (\<lambda>p. p \<noteq> [] \<and> prefix p (c # t)) ps = None" by (auto simp: find_None_iff)
  then show ?thesis by (subst strip_front.simps) simp
qed

lemma strip_newline: "strip_front (map rev space_encodings) (char_of (10 :: nat) # t) = strip_front (map rev space_encodings) t"
  by (subst strip_front.simps) (simp add: space_encodings_def byte_string_def)

lemma trim_event: "trim_space (event_text e @ [char_of (10 :: nat)]) = event_text e"
proof -
  define m where "m = join [field_text ''id'' (any_text (eventId e)), field_text ''jsonrpc'' (quote (jsonrpc e)),
     field_text ''method'' (quote (Method e)), field_text ''params'' (any_text (AList (Params e)))]"
  have "event_text e = CHR ''{'' # m @ ''}''" unfolding event_text_def m_def ..
  then show ?thesis
    by (simp add: trim_space_def strip_newline strip_bracket [OF spaces_start(1)] strip_bracket [OF spaces_start(2)])
qed

lemma bytes_str_snoc: "bytes_str (bs @ [b]) = bytes_str bs @ [char_of (unat b)]"
  by (simp add: bytes_str_def)

lemma line_arrives:
  assumes "newline \<notin> set l" and "length l < maxEventLineBytes" and "\<not> connClosed ctx"
    and "b @ concat ps = l @ newline # rest"
  shows "\<exists>b' ps'. client_round unmarshal handlers False \<lparr>buffered = b, source = map Data ps @ s\<rparr> ctx w
      = (\<lparr>buffered = b', source = map Data ps' @ s\<rparr>, handle_line unmarshal handlers (line_text (l @ [newline])) ctx w)
    \<and> b' @ concat ps' = rest"
proof -
  have "concat (b # ps) = l @ newline # rest" using assms(4) by simp
  from gather_pieces [OF this assms(1), of "[]" s] obtain b' ps' where
    g: "gather newline [] (map Data (b # ps) @ s) = ((l @ [newline], None), \<lparr>buffered = b', source = map Data ps' @ s\<rparr>)"
    and r: "b' @ concat ps' = rest" by auto
  then show ?thesis
    using assms(2,3) by (intro exI [of _ b'] exI [of _ ps']) (simp add: client_round_def readFromConnection_def ReadBytes_def)
qed

lemma event_line:
  assumes "event_readable e" and "l = str_bytes (event_text e)"
  shows "line_text (l @ [newline]) = event_text e" and "newline \<notin> set l"
proof -
  have v: "visible (event_text e)" by (simp only: event_as_map any_visible)
  have "newline \<noteq> 0" by (simp add: newline_def)
  have "bytes_str (filter (\<lambda>b. b \<noteq> 0) (l @ [newline])) = event_text e @ [char_of (10 :: nat)]"
    using visible_bytes(2) [OF v] \<open>newline \<noteq> 0\<close> by (simp add: assms(2) bytes_str_snoc) (simp add: newline_def)
  then show "line_text (l @ [newline]) = event_text e" by (simp only: line_text_def trim_event)
  show "newline \<notin> set l" using visible_bytes(1) [OF v] assms(2) by simp
qed

lemma line_reaches:
  assumes "event_readable e" and "length (event_text e) < maxEventLineBytes" and "\<not> connClosed ctx"
    and "b @ concat ps = wire_bytes (WEvent e) @ rest"
  shows "\<exists>b' ps'. client_round UnmarshalEvent handlers False \<lparr>buffered = b, source = map Data ps @ s\<rparr> ctx w
      = (\<lparr>buffered = b', source = map Data ps' @ s\<rparr>, HandleEvent handlers ctx (received_event e) w)
    \<and> b' @ concat ps' = rest"
proof -
  let ?l = "str_bytes (event_text e)"
  have "event_text e \<noteq> []" by (simp add: event_text_def)
  then have "handle_line UnmarshalEvent handlers (line_text (?l @ [newline])) ctx w = HandleEvent handlers ctx (received_event e) w"
    by (simp add: handle_line_def event_line(1) [OF assms(1)] read_event [OF assms(1)])
  moreover have "b @ concat ps = ?l @ newline # rest" using assms(4) by (simp add: wire_bytes_def newline_def)
  ultimately show ?thesis
    using line_arrives [OF event_line(2) [OF assms(1) refl], of ctx b ps rest UnmarshalEvent handlers s w] assms(2,3) by simp
qed

text \<open>
  C38: a line is handled as a whole, however the network cuts its bytes into pieces: when the next bytes of a
  Stratum V1 connection are a line of less than a megabyte, and they arrive before the read deadline, one round of the
  loop handles exactly the text of this line: it goes on if the text is empty, reports an error if
  \<^verbatim>\<open>UnmarshalEvent\<close> refuses it, and otherwise gives the event to the handler of its method. The bytes behind the line are
  left for the next round. If the line is the JSON text of an event that can be read back, the handler gets that event as
  it is read. (What a read deadline between two pieces does is the matter of \<^verbatim>\<open>StratumListenerLemmas\<close>.)
\<close>

theorem request_reaches_handler:
  assumes "newline \<notin> set l" and "length l < maxEventLineBytes" and "\<not> connClosed ctx"
    and "b @ concat ps = l @ newline # rest"
  shows "\<exists>b' ps'. client_round UnmarshalEvent handlers False \<lparr>buffered = b, source = map Data ps @ s\<rparr> ctx w
      = (\<lparr>buffered = b', source = map Data ps' @ s\<rparr>,
         if line_text (l @ [newline]) = [] then Some (None, ctx, w)
         else case UnmarshalEvent (line_text (l @ [newline])) of
           None \<Rightarrow> Some (Some (ErrOther ''error unmarshalling event''), ctx, w)
         | Some event \<Rightarrow> HandleEvent handlers ctx event w)
    \<and> b' @ concat ps' = rest
    \<and> (event_readable e \<and> l = str_bytes (event_text e) \<longrightarrow>
        UnmarshalEvent (line_text (l @ [newline])) = Some (received_event e))"
  using line_arrives [OF assms, of UnmarshalEvent handlers s w] event_line(1) [of e l] read_event [of e]
  unfolding handle_line_def by auto

text \<open>A request of a miner, cut after its fifth byte, with the beginning of the next one behind it.\<close>

definition sample_request :: JsonRpcEvent where
  "sample_request = \<lparr>eventId = AInt 1, jsonrpc = ''2.0'', Method = ''mining.subscribe'', Params = [AStr ''rig'']\<rparr>"

theorem request_reaches_handler_witness:
  "\<exists>b' ps'. client_round UnmarshalEvent (\<lambda>_. None) False \<lparr>buffered = [],
      source = map Data [take 5 (str_bytes (event_text sample_request)),
        drop 5 (str_bytes (event_text sample_request)) @ [10, 123]] @ [Broken]\<rparr> sample_miner ()
      = (\<lparr>buffered = b', source = map Data ps' @ [Broken]\<rparr>, HandleEvent (\<lambda>_. None) sample_miner (received_event sample_request) ())
    \<and> b' @ concat ps' = [123]"
proof -
  let ?l = "str_bytes (event_text sample_request)"
  have ok: "event_readable sample_request" by (simp add: sample_request_def event_readable_def maxNestingDepth_def)
  have len: "length ?l < maxEventLineBytes" by code_simp
  have "\<not> connClosed sample_miner" by (simp add: sample_miner_def)
  moreover have "[] @ concat [take 5 ?l, drop 5 ?l @ [10, 123]] = ?l @ newline # [123]" by (simp add: newline_def)
  moreover have "event_text sample_request \<noteq> []" by (simp add: event_text_def)
  ultimately show ?thesis
    using request_reaches_handler [OF event_line(2) [OF ok refl] len, of sample_miner "[]" "[take 5 ?l, drop 5 ?l @ [10, 123]]" "[123]"
        "\<lambda>_. None" "[Broken]" "()" sample_request] ok event_line(1) [OF ok refl]
    by auto
qed

subsection \<open>The strings of a message\<close>

fun json_valid :: "json \<Rightarrow> bool" where
  "json_valid (JStr s) = utf8_valid s"
| "json_valid (JArr vs) = list_all json_valid vs"
| "json_valid (JObj kvs) = list_all (\<lambda>(k, v). json_valid v) kvs"
| "json_valid _ = True"

fun frame_valid :: "json_frame \<Rightarrow> bool" where
  "frame_valid (InArr vs) = list_all json_valid vs"
| "frame_valid (InObj kvs k) = list_all (\<lambda>(k, v). json_valid v) kvs"

fun state_valid :: "json_state \<Rightarrow> bool" where
  "state_valid (WantValue fs) = list_all frame_valid fs"
| "state_valid (WantFirst fs) = list_all frame_valid fs"
| "state_valid (WantKey first kvs fs) = (list_all (\<lambda>(k, v). json_valid v) kvs \<and> list_all frame_valid fs)"
| "state_valid (WantColon k kvs fs) = (list_all (\<lambda>(k, v). json_valid v) kvs \<and> list_all frame_valid fs)"
| "state_valid (Have v fs) = (json_valid v \<and> list_all frame_valid fs)"

fun tok_valid :: "tok \<Rightarrow> bool" where
  "tok_valid (TStr s) = utf8_valid s"
| "tok_valid _ = True"

lemma punctuation_tok: "map_of punctuation c = Some t \<Longrightarrow> tok_valid t"
  by (auto simp: punctuation_def split: if_splits)

lemma lex_tok_valid: "lex_tok s = Some (Some t, r) \<Longrightarrow> tok_valid t"
  by (auto simp: lex_tok_def lex_word_def to_valid_valid dest: punctuation_tok split: list.splits if_splits option.splits)

lemma lex_valid: "lex s = Some ts \<Longrightarrow> list_all tok_valid ts"
proof (induction s arbitrary: ts rule: lex.induct)
  case (1 s)
  show ?case
    using "1.prems" "1.IH" lex_tok_valid [of s]
    by (subst (asm) lex.simps) (auto split: if_splits option.splits prod.splits)
qed

lemma value_step_valid: "value_step fs t = Some st \<Longrightarrow> tok_valid t \<Longrightarrow> list_all frame_valid fs \<Longrightarrow> state_valid st"
  by (cases t) (auto split: if_splits)

lemma json_step_valid: "json_step st t = Some st' \<Longrightarrow> tok_valid t \<Longrightarrow> state_valid st \<Longrightarrow> state_valid st'"
  by (induction st t rule: json_step.induct) (auto dest: value_step_valid split: tok.splits if_splits)

lemma json_run_valid: "json_run st ts = Some st' \<Longrightarrow> list_all tok_valid ts \<Longrightarrow> state_valid st \<Longrightarrow> state_valid st'"
  by (induction ts arbitrary: st) (auto dest: json_step_valid split: option.splits)

lemma parse_valid: "parse_json s = Some v \<Longrightarrow> json_valid v"
  using lex_valid [of s] json_run_valid [of "WantValue []"]
  by (fastforce simp: parse_json_def split: option.splits json_state.splits list.splits)

lemma to_any_valid: "to_any v = Some a \<Longrightarrow> json_valid v \<Longrightarrow> arg_good utf8_valid a"
  by (cases v) (auto split: f64.splits)

lemma to_anys_valid: "to_anys vs = Some as \<Longrightarrow> list_all json_valid vs \<Longrightarrow> list_all (arg_good utf8_valid) as"
  by (induction vs arbitrary: as) (auto dest: to_any_valid split: option.splits)

lemma store_event_valid:
  assumes "store_event k v e = Some e'" and "json_valid v" and "list_all (arg_good utf8_valid) (Params e)"
  shows "list_all (arg_good utf8_valid) (Params e')"
  using assms to_anys_valid
  by (auto simp: store_event_def store_list_def split: if_splits json.splits option.splits)

lemma store_all_valid:
  "store_all store_event kvs e = Some e' \<Longrightarrow> list_all (\<lambda>(k, v). json_valid v) kvs \<Longrightarrow>
   list_all (arg_good utf8_valid) (Params e) \<Longrightarrow> list_all (arg_good utf8_valid) (Params e')"
proof (induction kvs arbitrary: e)
  case (Cons x kvs)
  then obtain e1 where "store_event (fst x) (snd x) e = Some e1" "store_all store_event kvs e1 = Some e'"
    by (auto split: option.splits prod.splits)
  then show ?case using Cons store_event_valid [of "fst x" "snd x" e e1] by (auto split: prod.splits)
qed simp

lemma UnmarshalEvent_valid: "UnmarshalEvent line = Some event \<Longrightarrow> list_all (arg_good utf8_valid) (Params event)"
  using parse_valid [of line] store_all_valid [of _ no_event event]
  by (auto simp: UnmarshalEvent_def unmarshal_into_def no_event_def split: option.splits json.splits)

lemma handle_line_valid:
  assumes "handle_line UnmarshalEvent (bridgeHandlers decode world k) line ctx sh = Some (e, ctx', sh')"
    and "ctx_good utf8_valid ctx" and "log_good utf8_valid sh"
  shows "ctx_good utf8_valid ctx' \<and> log_good utf8_valid sh'"
  by (rule utf8.line_good [OF assms]) (rule UnmarshalEvent_valid)

lemma round_valid:
  assumes "client_round UnmarshalEvent (bridgeHandlers decode world k) cancelled rd ctx sh = (rd', Some (e, ctx', sh'))"
    and "ctx_good utf8_valid ctx" and "log_good utf8_valid sh"
  shows "ctx_good utf8_valid ctx' \<and> log_good utf8_valid sh'"
  using assms handle_line_valid [of decode world k _ ctx sh e ctx' sh']
  by (auto simp: client_round_def split: prod.splits if_splits sum.splits)

text \<open>
  C39: a Stratum V1 connection never gives Prometheus a label that it refuses: whatever bytes arrive, all
  label values that the handlers of the bridge use from the first line to the end of the connection are
  valid UTF-8, and so are the strings of the connection itself.
\<close>

theorem line_labels_valid:
  assumes "spawnClientListener UnmarshalEvent (bridgeHandlers decode world) cancelled k rd ctx sh = Some (err, ctx', sh')"
    and "ctx_good utf8_valid ctx" and "log_good utf8_valid sh"
  shows "ctx_good utf8_valid ctx' \<and> log_good utf8_valid sh'"
  using assms
proof (induction UnmarshalEvent "bridgeHandlers decode world" cancelled k rd ctx sh rule: spawnClientListener.induct)
  case (1 cancelled k rd ctx sh)
  obtain rd' r where r: "client_round UnmarshalEvent (bridgeHandlers decode world k) (cancelled k) rd ctx sh = (rd', r)"
    by fastforce
  show ?case
  proof (cases r)
    case None
    then show ?thesis using "1.prems"(1) r by (subst (asm) spawnClientListener.simps) simp
  next
    case (Some res)
    obtain e ctx1 sh1 where res: "res = (e, ctx1, sh1)" by (cases res)
    have r1: "client_round UnmarshalEvent (bridgeHandlers decode world k) (cancelled k) rd ctx sh = (rd', Some (e, ctx1, sh1))"
      using r Some res by simp
    have g: "ctx_good utf8_valid ctx1" "log_good utf8_valid sh1"
      using round_valid [OF r1 "1.prems"(2,3)] by auto
    show ?thesis
    proof (cases e)
      case None
      then show ?thesis
        using "1.prems"(1) r Some res g "1.hyps" [OF r1 [symmetric]]
        by (subst (asm) spawnClientListener.simps) simp
    next
      case (Some x)
      then show ?thesis using "1.prems"(1) r \<open>r = Some res\<close> res g by (subst (asm) spawnClientListener.simps) auto
    qed
  qed
qed

text \<open>A miner whose name is not valid UTF-8.\<close>

theorem line_labels_valid_witness:
  "\<exists>err ctx' sh'. spawnClientListener UnmarshalEvent (bridgeHandlers (\<lambda>_ _. False) (\<lambda>_. (0, sample_node))) (\<lambda>_. False) 0
      \<lparr>buffered = [], source = [Data (wire_bytes (WEvent (NewEvent ''1'' ''mining.subscribe'' [AStr [char_of (255 :: nat)]])))]\<rparr>
      sample_miner newShareHandler = Some (err, ctx', sh')
    \<and> ctx_good utf8_valid ctx' \<and> log_good utf8_valid sh'"
proof -
  let ?rd = "\<lparr>buffered = [], source = [Data (wire_bytes (WEvent (NewEvent ''1'' ''mining.subscribe'' [AStr [char_of (255 :: nat)]])))]\<rparr>"
  have i: "client_inv sample_miner newShareHandler"
    using sample_shares_ok by (simp add: client_inv_def shares_ok_def mining_ok_def sample_miner_def sample_mining_def
        diff_ok_def one_f64_def)
  have g: "ctx_good utf8_valid sample_miner"
    by (simp add: ctx_good_def sample_miner_def valid_all_ascii ascii_def)
  obtain err ctx' sh' where s: "spawnClientListener UnmarshalEvent (bridgeHandlers (\<lambda>_ _. False) (\<lambda>_. (0, sample_node))) (\<lambda>_. False) 0
      ?rd sample_miner newShareHandler = Some (err, ctx', sh')"
    using bridge.serves_to_end [OF i] by blast
  show ?thesis using s line_labels_valid [OF s g] by simp
qed

end
