(* ===== verification/NoPanic.thy ===== *)
theory NoPanic
  imports JsonProps
begin

text \<open>
  No panics. An operation of the model that panics by itself (an index, a division of \<^verbatim>\<open>math/big\<close>, a
  difficulty that is not a number) has no result. The other panic of the bridge is \<^verbatim>\<open>With\<close> of the Prometheus
  library (\<^verbatim>\<open>src/cryptixstratum/prom.go\<close>), which refuses a label that is not valid UTF-8. The model records every
  update in a log that only grows, so an operation met that panic exactly when its log holds an update that is
  refused. The theorems about whole operations say both: there is a result, and if the names of the connection
  are valid and no update was refused before, none is refused by the operation.
\<close>

definition labels_ok :: "'st StratumContext \<Rightarrow> shareHandler \<Rightarrow> bool" where
  "labels_ok ctx sh \<longleftrightarrow> ctx_good utf8_valid ctx \<and> log_good utf8_valid sh"

subsection \<open>Stratum V2 connections\<close>

text \<open>The frames that the loop can read from a stream of bytes.\<close>

function frames_of :: "reader \<Rightarrow> sv2Frame list" where
  "frames_of rd = (case readSV2Frame rd of Inl err \<Rightarrow> [] | Inr (frame, rd') \<Rightarrow> frame # frames_of rd')"
  by pat_completeness auto
termination
  by (relation "measure (\<lambda>rd. length (pending rd))") (auto dest: readSV2Frame_shorter)

declare frames_of.simps [simp del]

lemma binary_labels:
  "HandleBinaryClient decode world k rd st = Some (err, st') \<Longrightarrow> labels_ok (conn st) (shares st)
    \<Longrightarrow> \<forall>f\<in>set (frames_of rd). frame_strings utf8_valid f \<Longrightarrow> labels_ok (conn st') (shares st')"
proof (induction decode world k rd st rule: HandleBinaryClient.induct)
  case (1 decode world k rd st)
  show ?case
  proof (cases "readSV2Frame rd")
    case (Inl x)
    then show ?thesis
      using "1.prems"(1,2) by (subst (asm) HandleBinaryClient.simps) (auto simp: hang_up_def labels_ok_def)
  next
    case (Inr p)
    obtain frame rd' where p: "p = (frame, rd')" by (cases p)
    have f: "frames_of rd = frame # frames_of rd'" using Inr p by (subst frames_of.simps) simp
    obtain r st1 where s: "sv2_step decode (fst (world k)) (snd (world k)) frame st = Some (r, st1)"
      using "1.prems"(1) Inr p by (subst (asm) HandleBinaryClient.simps) (auto split: option.splits)
    have g: "labels_ok (conn st1) (shares st1)"
      using utf8.step_good [OF s] "1.prems"(2,3) f by (simp add: labels_ok_def)
    show ?thesis
    proof (cases r)
      case (Some x)
      then show ?thesis
        using "1.prems"(1) Inr p s g by (subst (asm) HandleBinaryClient.simps) (auto simp: hang_up_def labels_ok_def)
    next
      case None
      have go: "HandleBinaryClient decode world (k + 1) rd' st1 = Some (err, st')"
        using "1.prems"(1) Inr p s None by (subst (asm) HandleBinaryClient.simps) simp
      show ?thesis
        using "1.IH" [OF Inr p [symmetric] s [unfolded None] refl refl go g] "1.prems"(3) f by simp
    qed
  qed
qed

text \<open>
  C6: the Stratum V2 loop ends for every stream of bytes and every behaviour of the node: it does not panic by
  itself, returns an error, leaves the connection closed and the statistics consistent. Prometheus refuses none of
  its updates if the names of the connection and the strings in the frames of the stream are valid UTF-8;
  what happens otherwise is the matter of \<open>sv2_name_reaches_labels\<close>. The configured difficulty must be a number
  other than zero.
\<close>

theorem HandleBinaryClient_returns:
  assumes "sv2_inv st"
  shows "\<exists>err st'. HandleBinaryClient decode world k rd st = Some (err, st')
    \<and> disconnecting (conn st') \<and> books_ok (shares st') \<and> histories_ok (shares st')
    \<and> (labels_ok (conn st) (shares st) \<and> (\<forall>f\<in>set (frames_of rd). frame_strings utf8_valid f) \<longrightarrow>
        log_good utf8_valid (shares st'))"
proof -
  obtain err st' where h: "HandleBinaryClient decode world k rd st = Some (err, st')"
    "disconnecting (conn st') \<and> books_ok (shares st') \<and> histories_ok (shares st')"
    using HandleBinaryClient_ends [OF assms] by blast
  then show ?thesis using binary_labels [OF h(1)] by (auto simp: labels_ok_def)
qed

lemma sample_labels_ok: "labels_ok sample_miner newShareHandler"
  by (simp add: labels_ok_def ctx_good_def sample_miner_def valid_all_ascii ascii_def)

theorem HandleBinaryClient_returns_witness:
  "\<exists>err st'. HandleBinaryClient (\<lambda>_ _. False) (\<lambda>_. (0, sample_node)) 0 \<lparr>pending = [0, 0, 9, 0, 0, 0, 7], ending = ErrEOF\<rparr>
     sample_sv2 = Some (err, st') \<and> disconnecting (conn st') \<and> log_good utf8_valid (shares st')"
proof -
  let ?rd = "\<lparr>pending = [0, 0, 9, 0, 0, 0, 7], ending = ErrEOF\<rparr> :: reader"
  let ?rest = "\<lparr>pending = [7], ending = ErrEOF\<rparr> :: reader"
  have "readSV2Frame ?rd = Inr (\<lparr>ExtensionType = 0, MessageType = 9, Payload = []\<rparr>, ?rest)" by code_simp
  moreover have "\<exists>err. readSV2Frame ?rest = Inl err" by (simp add: readSV2Frame_def ReadFull_def Let_def)
  then have "frames_of ?rest = []" by (subst frames_of.simps) auto
  ultimately have "frames_of ?rd = [\<lparr>ExtensionType = 0, MessageType = 9, Payload = []\<rparr>]" by (subst frames_of.simps) simp
  then have "\<forall>f\<in>set (frames_of ?rd). frame_strings utf8_valid f"
    by (auto simp: frame_strings_def sv2MsgSetupConnection_def sv2MsgOpenStandardMiningChannel_def)
  moreover have "labels_ok (conn sample_sv2) (shares sample_sv2)" using sample_labels_ok by (simp add: sample_sv2_def)
  ultimately show ?thesis using HandleBinaryClient_returns [OF sample_sv2_inv] by blast
qed

subsection \<open>Jobs\<close>

text \<open>
  C12: the goroutine that serves a client does not panic by itself, whatever the node answers, and it keeps the
  books of the share handler and a usable difficulty; the ring of jobs is unchanged or has exactly
  one new entry, the template that was made for this client. BLAKE2b hashes to 32 bytes. Prometheus refuses none of
  its updates if the names of the client are valid UTF-8 and none was refused before.
\<close>

theorem newJob_serves:
  assumes "mining_ok (State cl)" and "shares_ok sh" and "diff_ok minDiff" and "hashes_32 (blake2b api)"
  shows "\<exists>cl' sh' ms. newJob now api solo minDiff cl sh = Some (cl', sh') \<and> mining_ok (State cl') \<and> shares_ok sh'
    \<and> Jobs ms = Jobs (State cl) \<and> jobCounter ms = jobCounter (State cl)
    \<and> (State cl' = ms \<or> (\<exists>b. GetBlockTemplate api cl = Inr b
        \<and> Jobs (State cl') = Jobs (snd (AddJob b ms)) \<and> jobCounter (State cl') = jobCounter (snd (AddJob b ms))))
    \<and> (labels_ok cl sh \<longrightarrow> labels_ok cl' sh')"
proof -
  obtain cl' sh' ms where j: "newJob now api solo minDiff cl sh = Some (cl', sh')"
    and r: "mining_ok (State cl') \<and> shares_ok sh' \<and> Jobs ms = Jobs (State cl) \<and> jobCounter ms = jobCounter (State cl)
      \<and> (State cl' = ms \<or> (\<exists>b. GetBlockTemplate api cl = Inr b
        \<and> Jobs (State cl') = Jobs (snd (AddJob b ms)) \<and> jobCounter (State cl') = jobCounter (snd (AddJob b ms))))"
    using newJob_runs [OF assms] by blast
  then show ?thesis using utf8.job_good [OF j] unfolding labels_ok_def by blast
qed

theorem newJob_serves_witness:
  "\<exists>cl' sh'. newJob 5 sample_api True (Fin 1) fresh_miner newShareHandler = Some (cl', sh') \<and> shares_ok sh' \<and> labels_ok cl' sh'"
proof -
  have "hashes_32 (blake2b sample_api)" by (simp add: hashes_32_def sample_api_def)
  moreover have "mining_ok (State fresh_miner)" by (simp add: fresh_miner_def MiningStateGenerator_ok)
  moreover have "diff_ok (Fin 1)" by (simp add: diff_ok_def)
  moreover have "labels_ok fresh_miner newShareHandler"
    using sample_labels_ok by (simp add: labels_ok_def fresh_miner_def ctx_good_def)
  ultimately show ?thesis using newJob_serves [OF _ sample_shares_ok, of fresh_miner "Fin 1" sample_api 5 True] by blast
qed

subsection \<open>The whole bridge\<close>

text \<open>
  C3: in every state that a started bridge can reach no operation panics: not the handling of any
  line, of any Stratum V2 frame, the sending of a job to any client, nor a pass of the difficulty
  thread, whatever the node answers. The configured difficulty must be a number, and the hash function must return 32
  bytes. As long as the difficulties are finite and the share counts fit into 64 bits, a pass at the normalised rate
  leaves no difficulty that is not a number, which would make a later job panic. Prometheus refuses no update of
  these operations, of the delayed statistics and of the removal of a client, if none was refused before, the
  names of the connection are valid UTF-8, and so are the strings of the frame. For a line nothing is asked of its strings.
\<close>

theorem bridge_progress:
  assumes "ListenAndServe e cfg = Inr b" and "MinShareDiff cfg \<noteq> NaN" and "sys_steps decode db (started b nobody) s"
    and "r < used s"
  shows "handle_line unmarshal (bridgeHandlers decode world k) text1 (view r s) (sysShares s) \<noteq> None
    \<and> sv2_step decode now nd frame
        \<lparr>sv2h = sysSv2 s, shares = sysShares s, conn = view r s, setupComplete = setupDone s r\<rparr> \<noteq> None
    \<and> (hashes_32 (blake2b api) \<longrightarrow> newJob now api solo (minShareDiff (sysClients s)) (view r s) (sysShares s) \<noteq> None)
    \<and> (distinct ks \<longrightarrow> retargetAll now rate ks (sysShares s) \<noteq> None)
    \<and> (distinct ks \<and> worker_diffs finite_f64 (sysShares s) \<and> (\<forall>r. \<bar>VarDiffSharesFound (heap (sysShares s) r)\<bar> < 2 ^ 63) \<longrightarrow>
        (\<exists>sh'. retargetAll now (normalizeShareRate rate) ks (sysShares s) = Some sh' \<and> diffs_ok sh'))
    \<and> (labels_ok (view r s) (sysShares s) \<longrightarrow>
        (\<forall>e cl sh. handle_line UnmarshalEvent (bridgeHandlers decode world k) text1 (view r s) (sysShares s) = Some (e, cl, sh)
           \<longrightarrow> labels_ok cl sh)
      \<and> (\<forall>e st. sv2_step decode now nd frame
           \<lparr>sv2h = sysSv2 s, shares = sysShares s, conn = view r s, setupComplete = setupDone s r\<rparr> = Some (e, st)
           \<and> frame_strings utf8_valid frame \<longrightarrow> labels_ok (conn st) (shares st))
      \<and> (\<forall>cl sh. newJob now api solo (minShareDiff (sysClients s)) (view r s) (sysShares s) = Some (cl, sh) \<longrightarrow> labels_ok cl sh)
      \<and> (\<forall>sh. retargetAll now rate ks (sysShares s) = Some sh \<longrightarrow> labels_ok (view r s) sh)
      \<and> log_good utf8_valid (lateStats now (view r s) (sysShares s))
      \<and> log_good utf8_valid (snd (OnDisconnect (view r s) (sysClients s) (sysShares s))))"
proof -
  let ?st = "\<lparr>sv2h = sysSv2 s, shares = sysShares s, conn = view r s, setupComplete = setupDone s r\<rparr>"
  note p = bridge_progress_holds [OF assms, of unmarshal world k text1 now nd frame api solo ks rate]
  have l: "labels_ok cl sh"
    if "labels_ok (view r s) (sysShares s)"
      and "handle_line UnmarshalEvent (bridgeHandlers decode world k) text1 (view r s) (sysShares s) = Some (x, cl, sh)" for x cl sh
    using handle_line_valid [OF that(2)] that(1) by (simp add: labels_ok_def)
  have f: "labels_ok (conn st) (shares st)"
    if "labels_ok (view r s) (sysShares s)" and "sv2_step decode now nd frame ?st = Some (x, st)" and "frame_strings utf8_valid frame" for x st
    using utf8.step_good [OF that(2) _ _ that(3)] that(1) by (simp add: labels_ok_def)
  have j: "labels_ok cl sh"
    if "labels_ok (view r s) (sysShares s)"
      and "newJob now api solo (minShareDiff (sysClients s)) (view r s) (sysShares s) = Some (cl, sh)" for cl sh
    using utf8.job_good [OF that(2)] that(1) by (simp add: labels_ok_def)
  have t: "labels_ok (view r s) sh" if "labels_ok (view r s) (sysShares s)" and "retargetAll now rate ks (sysShares s) = Some sh" for sh
    using retargetAll_log [OF that(2)] that(1) by (simp add: labels_ok_def)
  have o: "log_good utf8_valid (lateStats now (view r s) (sysShares s))
      \<and> log_good utf8_valid (snd (OnDisconnect (view r s) (sysClients s) (sysShares s)))" if "labels_ok (view r s) (sysShares s)"
    using that by (simp add: labels_ok_def lateStats_def OnDisconnect_def clearClientDupeHistory_def)
  show ?thesis using p l f j t o by blast
qed

theorem bridge_progress_witness:
  "\<exists>b s cl sh. ListenAndServe None sample_config = Inr b
    \<and> sys_steps (\<lambda>_ _. False) TYPE((unit, unit) node) (started b fresh_miner) s
    \<and> newJob 5 sample_api True (minShareDiff (sysClients s)) (view 0 s) (sysShares s) = Some (cl, sh) \<and> labels_ok cl sh"
proof -
  obtain b s where s: "ListenAndServe None sample_config = Inr b"
    "sys_steps (\<lambda>_ _. False) TYPE((unit, unit) node) (started b fresh_miner) s" "used s = 1"
    and names: "RemoteAddr (view 0 s) = ''h''" "WalletAddr (view 0 s) = []" "WorkerName (view 0 s) = []" "RemoteApp (view 0 s) = []"
      "promLog (sysShares s) = []"
    using sample_hangs_up [of "TYPE((unit, unit) node)" fresh_miner] by blast
  have "utf8_valid ''h''" "utf8_valid []" by (simp_all add: valid_all_ascii ascii_def)
  then have "labels_ok (view 0 s) (sysShares s)" by (simp add: labels_ok_def ctx_good_def log_good_def names)
  moreover have "hashes_32 (blake2b sample_api)" by (simp add: hashes_32_def sample_api_def)
  moreover note p = bridge_progress [OF s(1) sample_config_fields(1) s(2), of 0, unfolded s(3), OF zero_less_one]
  ultimately have "newJob 5 sample_api True (minShareDiff (sysClients s)) (view 0 s) (sysShares s) \<noteq> None"
    and labels: "newJob 5 sample_api True (minShareDiff (sysClients s)) (view 0 s) (sysShares s) = Some (cl, sh) \<Longrightarrow> labels_ok cl sh"
    for cl sh using p by blast+
  then show ?thesis using s(1,2) by fast
qed

end
