(* ===== verification/Races.thy ===== *)
theory Races
  imports SubmitProps
begin

text \<open>
  \<^verbatim>\<open>checkStales\<close> of \<^verbatim>\<open>src/cryptixstratum/share_handler.go\<close> as the goroutines of several connections run it
  at the same time, one atomic action after the other: the newest blue score is loaded, then compared
  and swapped, and the share is entered into the history of its worker under the lock.
\<close>

subsection \<open>The actions of one goroutine\<close>

datatype check_pc = AtLoad | AtCompare u64 | AtTrack | Checked "go_error option"

record ('st, 'tx) checker =
  chkCtx :: "'st StratumContext"
  chkShare :: "'tx submitInfo"
  chkPc :: check_pc

definition chkScore :: "('st, 'tx) checker \<Rightarrow> u64" where
  "chkScore t = BlueScore (Header (block (chkShare t)))"

definition check_atom :: "('st, 'tx) checker \<Rightarrow> shareHandler \<Rightarrow> check_pc \<times> shareHandler" where
  "check_atom t sh = (let shareBlueScore = chkScore t in case chkPc t of
     AtLoad \<Rightarrow> (AtCompare (tipBlueScore sh), sh)
   | AtCompare tip \<Rightarrow>
       (if tip < shareBlueScore
        then (if tipBlueScore sh = tip then (AtTrack, sh\<lparr>tipBlueScore := shareBlueScore\<rparr>) else (AtLoad, sh))
        else if workWindow < tip - shareBlueScore then (Checked (Some ErrStaleShare), sh)
        else (AtTrack, sh))
   | AtTrack \<Rightarrow> (case trackDupeShare (chkCtx t) (chkShare t) sh of
       (dup, sh) \<Rightarrow> (Checked (if dup then Some ErrDupeShare else None), sh))
   | Checked e \<Rightarrow> (Checked e, sh))"

text \<open>Alone, a goroutine computes what \<open>checkStales\<close> says.\<close>

definition check_next :: "('st, 'tx) checker \<times> shareHandler \<Rightarrow> ('st, 'tx) checker \<times> shareHandler" where
  "check_next = (\<lambda>(t, sh). case check_atom t sh of (pc, sh') \<Rightarrow> (t\<lparr>chkPc := pc\<rparr>, sh'))"

lemma solo_check:
  assumes "chkPc t = AtLoad"
  shows "(check_next ^^ 3) (t, sh)
    = (t\<lparr>chkPc := Checked (fst (checkStales (chkCtx t) (chkShare t) sh))\<rparr>, snd (checkStales (chkCtx t) (chkShare t) sh))"
proof -
  let ?b = "chkScore t" and ?tip = "tipBlueScore sh"
  have load: "check_next (t, sh) = (t\<lparr>chkPc := AtCompare ?tip\<rparr>, sh)"
    using assms by (simp add: check_next_def check_atom_def)
  show ?thesis
  proof (cases "\<not> ?tip < ?b \<and> workWindow < ?tip - ?b")
    case True
    then have "check_next (check_next (check_next (t, sh))) = (t\<lparr>chkPc := Checked (Some ErrStaleShare)\<rparr>, sh)"
      unfolding load by (simp add: check_next_def check_atom_def chkScore_def)
    then show ?thesis using True by (simp add: numeral_3_eq_3 checkStales_def chkScore_def)
  next
    case False
    let ?sh = "if ?tip < ?b then sh\<lparr>tipBlueScore := ?b\<rparr> else sh"
    have "check_next (t\<lparr>chkPc := AtCompare ?tip\<rparr>, sh) = (t\<lparr>chkPc := AtTrack\<rparr>, ?sh)"
      using False by (auto simp: check_next_def check_atom_def chkScore_def)
    moreover obtain dup sh' where d: "trackDupeShare (chkCtx t) (chkShare t) ?sh = (dup, sh')" by fastforce
    ultimately have "check_next (check_next (check_next (t, sh)))
        = (t\<lparr>chkPc := Checked (if dup then Some ErrDupeShare else None)\<rparr>, sh')"
      unfolding load by (simp add: check_next_def check_atom_def)
    moreover have "checkStales (chkCtx t) (chkShare t) sh = (if dup then Some ErrDupeShare else None, sh')"
      unfolding checkStales_def Let_def chkScore_def [symmetric] if_not_P [OF False] d by (simp split: bool.split)
    ultimately show ?thesis by (simp add: numeral_3_eq_3)
  qed
qed

subsection \<open>Several goroutines\<close>

definition running :: "('st, 'tx) checker \<Rightarrow> bool" where
  "running t \<longleftrightarrow> (\<forall>e. chkPc t \<noteq> Checked e)"

text \<open>In any order, with the number of actions taken. Meanwhile other goroutines may do anything that
  leaves the newest blue score and the histories alone.\<close>

inductive checks_run :: "('st, 'tx) checker list \<Rightarrow> shareHandler \<Rightarrow> nat \<Rightarrow> ('st, 'tx) checker list \<Rightarrow> shareHandler \<Rightarrow> bool"
  for ts sh where
  start: "checks_run ts sh 0 ts sh"
| act: "checks_run ts sh n ts' sh' \<Longrightarrow> i < length ts' \<Longrightarrow> running (ts' ! i) \<Longrightarrow> check_atom (ts' ! i) sh' = (pc, sh'')
    \<Longrightarrow> checks_run ts sh (Suc n) (ts'[i := (ts' ! i)\<lparr>chkPc := pc\<rparr>]) sh''"
| others: "checks_run ts sh n ts' sh' \<Longrightarrow> tipBlueScore sh'' = tipBlueScore sh' \<Longrightarrow> dupeShares sh'' = dupeShares sh'
    \<Longrightarrow> checks_run ts sh n ts' sh''"

inductive_cases checks_runE: "checks_run ts sh n ts' sh'"

text \<open>What one action does, by cases.\<close>

lemma atom_cases:
  assumes "check_atom t sh = (pc, sh')" and "running t"
  obtains (load) "chkPc t = AtLoad" "pc = AtCompare (tipBlueScore sh)" "sh' = sh"
  | (swap) "chkPc t = AtCompare (tipBlueScore sh)" "tipBlueScore sh < chkScore t" "pc = AtTrack" "sh' = sh\<lparr>tipBlueScore := chkScore t\<rparr>"
  | (retry) tip where "chkPc t = AtCompare tip" "tip < chkScore t" "tip \<noteq> tipBlueScore sh" "pc = AtLoad" "sh' = sh"
  | (stale) tip where "chkPc t = AtCompare tip" "unat (chkScore t) + 8 < unat tip" "pc = Checked (Some ErrStaleShare)" "sh' = sh"
  | (fresh) tip where "chkPc t = AtCompare tip" "chkScore t \<le> tip" "unat tip \<le> unat (chkScore t) + 8" "pc = AtTrack" "sh' = sh"
  | (track) dup where "chkPc t = AtTrack" "trackDupeShare (chkCtx t) (chkShare t) sh = (dup, sh')"
      "pc = Checked (if dup then Some ErrDupeShare else None)"
proof (cases "chkPc t")
  case AtLoad
  then show thesis using assms(1) by (intro load) (auto simp: check_atom_def)
next
  case (AtCompare tip)
  note s = stale_test [of tip "chkScore t"]
  note a = assms(1) [unfolded check_atom_def AtCompare Let_def check_pc.case]
  consider "tip < chkScore t" "tipBlueScore sh = tip" | "tip < chkScore t" "tip \<noteq> tipBlueScore sh"
    | "\<not> tip < chkScore t" "workWindow < tip - chkScore t" | "\<not> tip < chkScore t" "\<not> workWindow < tip - chkScore t"
    by blast
  then show thesis
  proof cases
    case 1
    then show thesis using a AtCompare by (intro swap) simp_all
  next
    case 2
    then show thesis using a AtCompare by (intro retry [of tip]) simp_all
  next
    case 3
    then show thesis using a AtCompare s by (intro stale [of tip]) simp_all
  next
    case 4
    have "chkScore t \<le> tip" using 4(1) by (rule leI)
    moreover have "unat tip \<le> unat (chkScore t) + 8" by (rule leI) (use s 4 in blast)
    ultimately show thesis using a AtCompare 4 by (intro fresh [of tip]) simp_all
  qed
next
  case AtTrack
  obtain dup sh1 where d: "trackDupeShare (chkCtx t) (chkShare t) sh = (dup, sh1)" by fastforce
  then show thesis using assms(1) AtTrack by (intro track [of dup]) (simp_all add: check_atom_def)
next
  case (Checked e)
  then show thesis using assms(2) by (simp add: running_def)
qed

lemma sum_update: "i < length xs \<Longrightarrow> sum_list (map f (xs[i := y])) + f (xs ! i) = sum_list (map f xs) + (f y :: nat)"
  using sum_step [of i xs f y "[]"] by simp

lemma map_update_same: "i < length xs \<Longrightarrow> f y = f (xs ! i) \<Longrightarrow> map f (xs[i := y]) = map f xs"
  by (metis list_update_id map_update)

subsection \<open>Every schedule ends\<close>

text \<open>A swap that fails means that another one has succeeded, and each goroutine succeeds once.\<close>

definition undecided :: "('st, 'tx) checker \<Rightarrow> nat" where
  "undecided t = (case chkPc t of AtLoad \<Rightarrow> 1 | AtCompare tip \<Rightarrow> 1 | _ \<Rightarrow> 0)"

definition outdated :: "u64 \<Rightarrow> ('st, 'tx) checker \<Rightarrow> nat" where
  "outdated tip t = (case chkPc t of AtCompare tip' \<Rightarrow> if tip' = tip then 0 else 1 | _ \<Rightarrow> 0)"

definition todo :: "('st, 'tx) checker \<Rightarrow> nat" where
  "todo t = (case chkPc t of AtLoad \<Rightarrow> 3 | AtCompare tip \<Rightarrow> 2 | AtTrack \<Rightarrow> 1 | Checked e \<Rightarrow> 0)"

definition actions_left :: "('st, 'tx) checker list \<Rightarrow> shareHandler \<Rightarrow> nat" where
  "actions_left ts sh = 2 * length ts * sum_list (map undecided ts)
     + 2 * sum_list (map (outdated (tipBlueScore sh)) ts) + sum_list (map todo ts)"

lemma outdated_le: "sum_list (map (outdated tip) ts) \<le> length ts"
  by (induction ts) (auto simp: outdated_def split: check_pc.split)

lemma act_decreases:
  assumes "i < length ts" and "running (ts ! i)" and "check_atom (ts ! i) sh = (pc, sh')"
  shows "actions_left (ts[i := (ts ! i)\<lparr>chkPc := pc\<rparr>]) sh' < actions_left ts sh"
proof -
  let ?t = "ts ! i" and ?t' = "(ts ! i)\<lparr>chkPc := pc\<rparr>" and ?ts' = "ts[i := (ts ! i)\<lparr>chkPc := pc\<rparr>]"
  note u = sum_update [OF assms(1), of undecided ?t'] and d = sum_update [OF assms(1), of todo ?t']
    and o = sum_update [OF assms(1), of "outdated (tipBlueScore sh)" ?t']
  have n: "0 < length ts" using assms(1) by auto
  show ?thesis
    using assms(3,2)
  proof (cases rule: atom_cases)
    case load
    then show ?thesis using u d o by (simp add: actions_left_def undecided_def todo_def outdated_def)
  next
    case swap
    let ?u = "sum_list (map undecided ?ts')"
    have "sum_list (map undecided ts) = Suc ?u" using u swap by (simp add: undecided_def)
    moreover have "sum_list (map todo ts) = Suc (sum_list (map todo ?ts'))" using d swap by (simp add: todo_def)
    moreover have "sum_list (map (outdated (tipBlueScore sh')) ?ts') \<le> length ts"
      using outdated_le [of "tipBlueScore sh'" ?ts'] by simp
    ultimately show ?thesis by (simp add: actions_left_def)
  next
    case (retry tip)
    then show ?thesis using u d o by (simp add: actions_left_def undecided_def todo_def outdated_def)
  next
    case (stale tip)
    then have "sum_list (map undecided ts) = Suc (sum_list (map undecided ?ts'))" using u by (simp add: undecided_def)
    then show ?thesis using stale d o n by (simp add: actions_left_def todo_def outdated_def split: if_splits)
  next
    case (fresh tip)
    then have "sum_list (map undecided ts) = Suc (sum_list (map undecided ?ts'))" using u by (simp add: undecided_def)
    then show ?thesis using fresh d o n by (simp add: actions_left_def todo_def outdated_def split: if_splits)
  next
    case (track dup)
    have "tipBlueScore sh' = tipBlueScore sh"
      using track(2) by (auto simp: trackDupeShare_def Let_def split: prod.splits)
    then show ?thesis using u d o track by (simp add: actions_left_def undecided_def todo_def outdated_def)
  qed
qed

lemma run_bound: "checks_run ts sh n ts' sh' \<Longrightarrow> n + actions_left ts' sh' \<le> actions_left ts sh"
proof (induction rule: checks_run.induct)
  case (act n ts' sh' i pc sh'')
  from act_decreases [OF act(2,3,4)] act.IH show ?case by simp
qed (simp_all add: actions_left_def)

lemma actions_at_start:
  assumes "\<forall>t\<in>set ts. chkPc t = AtLoad"
  shows "actions_left ts sh = 2 * length ts * length ts + 3 * length ts"
proof -
  have "sum_list (map undecided ts) = length ts \<and> sum_list (map (outdated tip) ts) = 0 \<and> sum_list (map todo ts) = 3 * length ts" for tip
    using assms by (induction ts) (auto simp: undecided_def outdated_def todo_def)
  then show ?thesis by (simp add: actions_left_def)
qed

lemma run_length: "checks_run ts sh n ts' sh' \<Longrightarrow> length ts' = length ts"
  by (induction rule: checks_run.induct) simp_all

subsection \<open>A race\<close>

text \<open>Two connections of one worker submit the same share. Both load the newest score, the first one
  swaps, the second one has to try again and finds the share in the history.\<close>

definition racer :: "check_pc \<Rightarrow> (unit MiningState, unit) checker" where
  "racer pc = \<lparr>chkCtx = sample_miner, chkShare = sample_share, chkPc = pc\<rparr>"

lemma race:
  "\<exists>sh. checks_run [racer AtLoad, racer AtLoad] newShareHandler 8 [racer (Checked None), racer (Checked (Some ErrDupeShare))] sh"
proof -
  let ?r = "checks_run [racer AtLoad, racer AtLoad] newShareHandler"
  have up: "(racer pc)\<lparr>chkPc := pc'\<rparr> = racer pc'" for pc pc' by (simp add: racer_def)
  have pc: "chkPc (racer pc) = pc" for pc by (simp add: racer_def)
  have c: "chkCtx (racer pc) = sample_miner" "chkShare (racer pc) = sample_share" for pc by (simp_all add: racer_def)
  have s: "chkScore (racer pc) = BlueScore (Header sample_block)" for pc
    by (simp add: racer_def chkScore_def sample_share_def)
  have b: "0 < BlueScore (Header sample_block)" "BlueScore (Header sample_block) \<noteq> 0"
    by (simp_all add: sample_block_def sample_header_def)
  let ?sh = "newShareHandler\<lparr>tipBlueScore := BlueScore (Header sample_block)\<rparr>"
  obtain sh1 where t1: "trackDupeShare sample_miner sample_share ?sh = (False, sh1)"
    by (simp add: trackDupeShare_def historyTrack_def newShareHandler_def newShareHistory_def Let_def maxTrackedSharesPerWorker_def)
  obtain sh2 where t2: "trackDupeShare sample_miner sample_share sh1 = (True, sh2)"
    using t1 by (auto simp: trackDupeShare_def historyTrack_def newShareHandler_def newShareHistory_def Let_def maxTrackedSharesPerWorker_def)
  have one: "?r (Suc n) [racer pc', racer q] sh'"
    if "?r n [racer pc, racer q] sh" "check_atom (racer pc) sh = (pc', sh')" "\<forall>e. pc \<noteq> Checked e" for n pc pc' q sh sh'
    using act [OF that(1), of 0] that(2,3) by (simp add: running_def up pc)
  have two: "?r (Suc n) [racer q, racer pc'] sh'"
    if "?r n [racer q, racer pc] sh" "check_atom (racer pc) sh = (pc', sh')" "\<forall>e. pc \<noteq> Checked e" for n pc pc' q sh sh'
    using act [OF that(1), of 1] that(2,3) by (simp add: running_def up pc)
  have tip: "tipBlueScore newShareHandler = 0" "workWindow < 0 \<longleftrightarrow> False" by (simp_all add: newShareHandler_def)
  note a = check_atom_def s pc tip b Let_def
  have "?r 1 [racer (AtCompare 0), racer AtLoad] newShareHandler"
    using one [OF start] by (simp add: a)
  from two [OF this] have "?r 2 [racer (AtCompare 0), racer (AtCompare 0)] newShareHandler"
    by (simp add: a numeral_2_eq_2)
  from one [OF this] have "?r 3 [racer AtTrack, racer (AtCompare 0)] ?sh" by (simp add: a numeral_3_eq_3)
  from two [OF this] have "?r 4 [racer AtTrack, racer AtLoad] ?sh" by (simp add: a)
  from two [OF this] have "?r 5 [racer AtTrack, racer (AtCompare (BlueScore (Header sample_block)))] ?sh" by (simp add: a)
  from two [OF this] have "?r 6 [racer AtTrack, racer AtTrack] ?sh" by (simp add: a)
  from one [OF this] have "?r 7 [racer (Checked None), racer AtTrack] sh1" by (simp add: a c t1)
  from two [OF this] have "?r 8 [racer (Checked None), racer (Checked (Some ErrDupeShare))] sh2" by (simp add: a c t2)
  then show ?thesis ..
qed

text \<open>
  C33: the loop of \<open>checkStales\<close> ends under every schedule: \<open>n\<close> goroutines that check shares at the same
  time take at most \<open>2 n\<^sup>2 + 3 n\<close> actions together, whatever the others do, and each that has not
  returned can always take its next action.
\<close>

theorem checks_end:
  assumes "\<forall>t\<in>set ts. chkPc t = AtLoad" and "checks_run ts sh n ts' sh'"
  shows "n \<le> 2 * length ts * length ts + 3 * length ts
    \<and> (\<forall>i < length ts. running (ts' ! i) \<longrightarrow> (\<exists>pc sh''. check_atom (ts' ! i) sh' = (pc, sh'')
        \<and> checks_run ts sh (Suc n) (ts'[i := (ts' ! i)\<lparr>chkPc := pc\<rparr>]) sh''))"
proof (intro conjI allI impI)
  show "n \<le> 2 * length ts * length ts + 3 * length ts"
    using run_bound [OF assms(2)] actions_at_start [OF assms(1), of sh] by linarith
  fix i assume "i < length ts" "running (ts' ! i)"
  then show "\<exists>pc sh''. check_atom (ts' ! i) sh' = (pc, sh'')
      \<and> checks_run ts sh (Suc n) (ts'[i := (ts' ! i)\<lparr>chkPc := pc\<rparr>]) sh''"
    using act [OF assms(2), of i] run_length [OF assms(2)] by (cases "check_atom (ts' ! i) sh'") auto
qed

theorem checks_end_witness:
  "\<exists>sh. checks_run [racer AtLoad, racer AtLoad] newShareHandler 8 [racer (Checked None), racer (Checked (Some ErrDupeShare))] sh
    \<and> 8 \<le> 2 * length [racer AtLoad, racer AtLoad] * length [racer AtLoad, racer AtLoad] + 3 * length [racer AtLoad, racer AtLoad]"
proof -
  obtain sh where r: "checks_run [racer AtLoad, racer AtLoad] newShareHandler 8 [racer (Checked None), racer (Checked (Some ErrDupeShare))] sh"
    using race by blast
  have "\<forall>t\<in>set [racer AtLoad, racer AtLoad]. chkPc t = AtLoad" by (simp add: racer_def)
  from checks_end [OF this r] r show ?thesis by blast
qed

subsection \<open>What they find\<close>

definition chkId :: "('st, 'tx) checker \<Rightarrow> string \<times> string" where
  "chkId t = (workerStatsKey (chkCtx t), shareKey (chkShare t))"

abbreviation keys_of :: "string \<Rightarrow> shareHandler \<Rightarrow> string set" where
  "keys_of w sh \<equiv> set (order (hist w sh))"

text \<open>What a goroutine knows about the newest blue score, which was \<open>tip0\<close> at the start.\<close>

definition score_seen :: "u64 \<Rightarrow> u64 \<Rightarrow> ('st, 'tx) checker \<Rightarrow> bool" where
  "score_seen tip0 tip t \<longleftrightarrow> (case chkPc t of
     AtLoad \<Rightarrow> True
   | AtCompare tip' \<Rightarrow> tip0 \<le> tip' \<and> tip' \<le> tip
   | AtTrack \<Rightarrow> chkScore t \<le> tip \<and> unat tip0 \<le> unat (chkScore t) + 8
   | Checked e \<Rightarrow> if e = Some ErrStaleShare then unat (chkScore t) + 8 < unat tip
       else chkScore t \<le> tip \<and> unat tip0 \<le> unat (chkScore t) + 8 \<and> (e = None \<or> e = Some ErrDupeShare))"

lemma score_seen_mono: "score_seen tip0 tip t \<Longrightarrow> tip \<le> tip' \<Longrightarrow> score_seen tip0 tip' t"
  by (auto simp: score_seen_def word_le_nat_alt split: check_pc.splits if_splits)

lemma chk_simps [simp]:
  "chkScore (t\<lparr>chkPc := pc\<rparr>) = chkScore t" "chkId (t\<lparr>chkPc := pc\<rparr>) = chkId t"
  by (simp_all add: chkScore_def chkId_def)

lemma track_tip: "trackDupeShare ctx si sh = (dup, sh') \<Longrightarrow> tipBlueScore sh' = tipBlueScore sh"
  by (auto simp: trackDupeShare_def Let_def split: prod.splits)

lemma atom_score:
  assumes "check_atom t sh = (pc, sh')" and "running t" and "score_seen tip0 (tipBlueScore sh) t" and "tip0 \<le> tipBlueScore sh"
  shows "score_seen tip0 (tipBlueScore sh') (t\<lparr>chkPc := pc\<rparr>)" and "tipBlueScore sh \<le> tipBlueScore sh'"
    and "tipBlueScore sh' \<in> {tipBlueScore sh, chkScore t}"
  using assms(1,2)
proof (atomize (full), cases rule: atom_cases)
  case (track dup)
  then show "score_seen tip0 (tipBlueScore sh') (t\<lparr>chkPc := pc\<rparr>) \<and> tipBlueScore sh \<le> tipBlueScore sh'
    \<and> tipBlueScore sh' \<in> {tipBlueScore sh, chkScore t}"
    using assms(3) track_tip [OF track(2)] by (simp add: score_seen_def)
qed (use assms(3,4) in \<open>auto simp: score_seen_def word_le_nat_alt word_less_nat_alt\<close>)

lemma run_scores:
  assumes "checks_run ts sh n ts' sh'" and "\<forall>t\<in>set ts. chkPc t = AtLoad"
  shows "map chkId ts' = map chkId ts \<and> map chkScore ts' = map chkScore ts
    \<and> (\<forall>t\<in>set ts'. score_seen (tipBlueScore sh) (tipBlueScore sh') t)
    \<and> tipBlueScore sh \<le> tipBlueScore sh' \<and> tipBlueScore sh' \<in> insert (tipBlueScore sh) (chkScore ` set ts)"
  using assms
proof (induction rule: checks_run.induct)
  case start
  then show ?case by (simp add: score_seen_def)
next
  case (act n ts' sh' i pc sh'')
  let ?tip0 = "tipBlueScore sh"
  have ih: "map chkId ts' = map chkId ts" "map chkScore ts' = map chkScore ts" "\<forall>t\<in>set ts'. score_seen ?tip0 (tipBlueScore sh') t"
    "?tip0 \<le> tipBlueScore sh'" "tipBlueScore sh' \<in> insert ?tip0 (chkScore ` set ts)" using act by auto
  have i: "ts' ! i \<in> set ts'" using act.hyps(2) by simp
  note s = atom_score [OF act.hyps(4,3) ih(3) [rule_format, OF i] ih(4)]
  have "\<forall>t\<in>set (ts'[i := (ts' ! i)\<lparr>chkPc := pc\<rparr>]). score_seen ?tip0 (tipBlueScore sh'') t"
  proof
    fix t assume "t \<in> set (ts'[i := (ts' ! i)\<lparr>chkPc := pc\<rparr>])"
    then have "t = (ts' ! i)\<lparr>chkPc := pc\<rparr> \<or> t \<in> set ts'" by (auto dest: set_update_subset_insert [THEN subsetD])
    then show "score_seen ?tip0 (tipBlueScore sh'') t" using s(1) score_seen_mono [OF _ s(2)] ih(3) by auto
  qed
  moreover have "map chkId (ts'[i := (ts' ! i)\<lparr>chkPc := pc\<rparr>]) = map chkId ts"
    "map chkScore (ts'[i := (ts' ! i)\<lparr>chkPc := pc\<rparr>]) = map chkScore ts"
    using act.hyps(2) ih(1,2) by (simp_all add: map_update_same)
  moreover have "chkScore (ts' ! i) \<in> chkScore ` set ts"
    using i ih(2) by (metis image_eqI image_set)
  ultimately show ?case using s(2,3) ih(4,5) by auto
next
  case (others n ts' sh' sh'')
  then show ?case by simp
qed

text \<open>The histories: an accepted share is remembered, and a share is refused as a duplicate only for one
  that was remembered before or accepted meanwhile.\<close>

definition accepted :: "('st, 'tx) checker \<Rightarrow> bool" where
  "accepted t \<longleftrightarrow> chkPc t = Checked None"

definition tracked :: "('st, 'tx) checker \<Rightarrow> nat" where
  "tracked t = (case chkPc t of Checked e \<Rightarrow> 1 | _ \<Rightarrow> 0)"

lemma tracked_le: "sum_list (map tracked ts) \<le> length ts"
  by (induction ts) (auto simp: tracked_def split: check_pc.split)

lemma tracked_less: "i < length ts \<Longrightarrow> running (ts ! i) \<Longrightarrow> sum_list (map tracked ts) < length ts"
proof (induction ts arbitrary: i)
  case (Cons t ts)
  have "tracked t \<le> 1" "running t \<Longrightarrow> tracked t = 0" by (auto simp: tracked_def running_def split: check_pc.splits)
  then show ?case using Cons.IH Cons.prems tracked_le [of ts] by (cases i) fastforce+
qed simp

definition remembers :: "nat \<Rightarrow> shareHandler \<Rightarrow> string \<times> string \<Rightarrow> bool" where
  "remembers n sh = (\<lambda>(w, k). \<exists>h js. history_ok h \<and> \<not> fst (historyTrack k h)
     \<and> hist w sh = track_all historyTrack js (snd (historyTrack k h)) \<and> length js < n)"

lemma track_hist:
  assumes "trackDupeShare ctx si sh = (dup, sh')"
  shows "dup = fst (historyTrack (shareKey si) (hist (workerStatsKey ctx) sh))"
    and "hist w sh' = (if w = workerStatsKey ctx then snd (historyTrack (shareKey si) (hist w sh)) else hist w sh)"
  using assms by (auto simp: trackDupeShare_def hist_def Let_def split: prod.splits)

lemma remembers_track:
  assumes "trackDupeShare ctx si sh = (dup, sh')" and "remembers n sh x"
  shows "remembers (Suc n) sh' x"
proof -
  obtain w k where x: "x = (w, k)" by fastforce
  obtain h js where h: "history_ok h" "\<not> fst (historyTrack k h)"
    "hist w sh = track_all historyTrack js (snd (historyTrack k h))" "length js < n"
    using assms(2) by (auto simp: remembers_def x)
  have "hist w sh' = track_all historyTrack (if w = workerStatsKey ctx then js @ [shareKey si] else js) (snd (historyTrack k h))"
  proof (cases "w = workerStatsKey ctx")
    case True
    then show ?thesis using track_hist(2) [OF assms(1), of w] h(3) by (simp add: dupes.track_all_snoc)
  next
    case False
    then show ?thesis using track_hist(2) [OF assms(1), of w] h(3) by simp
  qed
  then show ?thesis
    unfolding remembers_def x prod.case
    by (intro exI [of _ h] exI [of _ "if w = workerStatsKey ctx then js @ [shareKey si] else js"]) (use h in simp)
qed

lemma remembers_dup: "remembers n sh (w, k) \<Longrightarrow> n \<le> maxTrackedSharesPerWorker \<Longrightarrow> fst (historyTrack k (hist w sh))"
  using dupes.remembered by (auto simp: remembers_def)

text \<open>How many goroutines had a given share of a given worker accepted.\<close>

definition acceptances :: "string \<times> string \<Rightarrow> ('st, 'tx) checker list \<Rightarrow> nat" where
  "acceptances x ts = length (filter (\<lambda>t. accepted t \<and> chkId t = x) ts)"

lemma acceptances_update:
  assumes "i < length ts" and "running (ts ! i)"
  shows "acceptances x (ts[i := (ts ! i)\<lparr>chkPc := pc\<rparr>])
    = acceptances x ts + (if pc = Checked None \<and> chkId (ts ! i) = x then 1 else 0)"
proof -
  have len: "acceptances x us = sum_list (map (\<lambda>t. if accepted t \<and> chkId t = x then 1 else 0) us)" for us :: "('a, 'b) checker list"
    by (induction us) (auto simp: acceptances_def)
  show ?thesis
    using sum_update [OF assms(1), of "\<lambda>t. if accepted t \<and> chkId t = x then 1 else 0" "(ts ! i)\<lparr>chkPc := pc\<rparr>"] assms(2)
    unfolding len by (simp add: accepted_def running_def split: if_splits)
qed

lemma acceptances_pos: "0 < acceptances x ts \<longleftrightarrow> (\<exists>t\<in>set ts. accepted t \<and> chkId t = x)"
  by (auto simp: acceptances_def filter_empty_conv)

definition known :: "shareHandler \<Rightarrow> string \<times> string \<Rightarrow> bool" where
  "known sh = (\<lambda>(w, k). k \<in> keys_of w sh)"

definition dupes_inv :: "shareHandler \<Rightarrow> ('st, 'tx) checker list \<Rightarrow> shareHandler \<Rightarrow> bool" where
  "dupes_inv sh0 ts sh \<longleftrightarrow> histories_ok sh
    \<and> (\<forall>x. 0 < acceptances x ts \<longrightarrow> remembers (sum_list (map tracked ts)) sh x)
    \<and> (\<forall>x. known sh x \<longrightarrow> known sh0 x \<or> 0 < acceptances x ts)
    \<and> (\<forall>t\<in>set ts. chkPc t = Checked (Some ErrDupeShare) \<longrightarrow> known sh0 (chkId t) \<or> 0 < acceptances (chkId t) ts)
    \<and> (\<forall>x. acceptances x ts \<le> 1)"

lemma dupes_invD:
  assumes "dupes_inv sh0 ts sh"
  shows "histories_ok sh" "0 < acceptances x ts \<Longrightarrow> remembers (sum_list (map tracked ts)) sh x"
    "known sh x \<Longrightarrow> known sh0 x \<or> 0 < acceptances x ts"
    "t \<in> set ts \<Longrightarrow> chkPc t = Checked (Some ErrDupeShare) \<Longrightarrow> known sh0 (chkId t) \<or> 0 < acceptances (chkId t) ts"
    "acceptances x ts \<le> 1"
  using assms unfolding dupes_inv_def by (simp_all del: split_paired_All)

lemma same_histories:
  assumes "dupeShares sh' = dupeShares sh"
  shows "histories_ok sh' = histories_ok sh" "remembers n sh' = remembers n sh" "known sh' = known sh"
  using assms by (simp_all add: histories_ok_def remembers_def known_def hist_def fun_eq_iff)

lemma remembers_mono: "remembers m sh x \<Longrightarrow> m \<le> n \<Longrightarrow> remembers n sh x"
  unfolding remembers_def by (cases x) (use less_le_trans in blast)

lemma dupes_inv_idle:
  assumes "dupes_inv sh0 ts sh" and "i < length ts" and "running (ts ! i)"
    and "dupeShares sh' = dupeShares sh" and "pc \<noteq> Checked None" and "pc \<noteq> Checked (Some ErrDupeShare)"
  shows "dupes_inv sh0 (ts[i := (ts ! i)\<lparr>chkPc := pc\<rparr>]) sh'"
proof -
  let ?ts = "ts[i := (ts ! i)\<lparr>chkPc := pc\<rparr>]"
  have "sum_list (map tracked ts) \<le> sum_list (map tracked ?ts)"
    using sum_update [OF assms(2), of tracked "(ts ! i)\<lparr>chkPc := pc\<rparr>"] assms(3)
    by (simp add: tracked_def running_def split: check_pc.splits)
  then have "remembers (sum_list (map tracked ?ts)) sh x" if "0 < acceptances x ts" for x
    using remembers_mono [OF dupes_invD(2) [OF assms(1) that]] by blast
  moreover have "t \<in> set ts" if "t \<in> set ?ts" "chkPc t = Checked (Some ErrDupeShare)" for t
    using that assms(6) by (auto dest: set_update_subset_insert [THEN subsetD])
  moreover have "acceptances x ?ts = acceptances x ts" for x using acceptances_update [OF assms(2,3)] assms(5) by simp
  ultimately show ?thesis
    using assms(1) unfolding dupes_inv_def same_histories [OF assms(4)] by auto
qed

lemma order_track: "history_ok h \<Longrightarrow> set (order (snd (historyTrack k h))) \<subseteq> insert k (set (order h))"
  using dupes.recent_track [of h k] by (auto dest: in_set_dropD split: if_splits)

lemma known_track:
  assumes "trackDupeShare (chkCtx t) (chkShare t) sh = (dup, sh')" and "histories_ok sh"
  shows "dup = known sh (chkId t)" and "known sh' x \<Longrightarrow> known sh x \<or> x = chkId t"
    and "\<not> dup \<Longrightarrow> remembers (Suc n) sh' (chkId t)"
proof -
  let ?w = "workerStatsKey (chkCtx t)" and ?k = "shareKey (chkShare t)"
  have h: "history_ok (hist ?w sh)" using assms(2) by (simp add: histories_ok_def)
  show d: "dup = known sh (chkId t)"
    using track_hist(1) [OF assms(1)] dupes.track_dup [OF h] by (simp add: known_def chkId_def)
  show "known sh' x \<Longrightarrow> known sh x \<or> x = chkId t"
    using track_hist(2) [OF assms(1), of "fst x"] order_track [OF h, of ?k]
    by (cases x) (auto simp: known_def chkId_def split: if_splits)
  show "remembers (Suc n) sh' (chkId t)" if "\<not> dup"
    unfolding remembers_def chkId_def prod.case
    by (intro exI [of _ "hist ?w sh"] exI [of _ "[]"])
      (use h that track_hist [OF assms(1)] in \<open>simp add: track_all_def\<close>)
qed

lemma dupes_inv_track:
  assumes inv: "dupes_inv sh0 ts sh" and i: "i < length ts" and pc: "chkPc (ts ! i) = AtTrack"
    and tr: "trackDupeShare (chkCtx (ts ! i)) (chkShare (ts ! i)) sh = (dup, sh')" and len: "length ts \<le> maxTrackedSharesPerWorker"
  shows "dupes_inv sh0 (ts[i := (ts ! i)\<lparr>chkPc := Checked (if dup then Some ErrDupeShare else None)\<rparr>]) sh'"
proof -
  let ?t = "(ts ! i)\<lparr>chkPc := Checked (if dup then Some ErrDupeShare else None)\<rparr>" and ?x = "chkId (ts ! i)"
  let ?ts = "ts[i := ?t]" and ?n = "sum_list (map tracked ts)"
  have run: "running (ts ! i)" using pc by (simp add: running_def)
  have ok: "histories_ok sh" using inv by (simp add: dupes_inv_def)
  note k = known_track [OF tr ok]
  have n: "sum_list (map tracked ?ts) = Suc ?n" using sum_update [OF i, of tracked ?t] pc by (simp add: tracked_def)
  have acc: "acceptances x ?ts = acceptances x ts + (if \<not> dup \<and> ?x = x then 1 else 0)" for x
    using acceptances_update [OF i run, of x] by simp
  have rem: "remembers ?n sh x" if "0 < acceptances x ts" for x by (rule dupes_invD(2) [OF inv that])
  have new: "acceptances ?x ts = 0" if "\<not> dup"
  proof (rule ccontr)
    assume "acceptances ?x ts \<noteq> 0"
    then have "remembers ?n sh ?x" using rem by simp
    then have "fst (historyTrack (shareKey (chkShare (ts ! i))) (hist (workerStatsKey (chkCtx (ts ! i))) sh))"
      unfolding chkId_def using remembers_dup tracked_less [OF i run] len by fastforce
    then show False using that track_hist(1) [OF tr] by simp
  qed
  have "histories_ok sh'" using ok historyTrack_ok track_hist(2) [OF tr] by (simp add: histories_ok_def)
  moreover have "remembers (Suc ?n) sh' x" if "0 < acceptances x ?ts" for x
    using that rem [of x] remembers_track [OF tr, of ?n x] k(3) by (auto simp: acc split: if_splits)
  moreover have old: "known sh0 x \<or> 0 < acceptances x ?ts" if "known sh x" for x
  proof -
    have "known sh0 x \<or> 0 < acceptances x ts" using dupes_invD(3) [OF inv that] .
    then show ?thesis using acc [of x] by auto
  qed
  moreover have "known sh0 x \<or> 0 < acceptances x ?ts" if "known sh' x" for x
    using old [of x] k(1) k(2) [OF that] acc [of x] by auto
  moreover have "known sh0 (chkId t) \<or> 0 < acceptances (chkId t) ?ts"
    if "t \<in> set ?ts" "chkPc t = Checked (Some ErrDupeShare)" for t
  proof -
    have "t = ?t \<and> dup \<or> t \<in> set ts" using that by (auto dest: set_update_subset_insert [THEN subsetD] split: if_splits)
    then show ?thesis
    proof
      assume "t = ?t \<and> dup"
      then show ?thesis using k(1) old [of ?x] by simp
    next
      assume "t \<in> set ts"
      from dupes_invD(4) [OF inv this that(2)] show ?thesis using acc [of "chkId t"] by auto
    qed
  qed
  moreover have "acceptances x ?ts \<le> 1" for x
  proof -
    have "acceptances x ts \<le> 1" by (rule dupes_invD(5) [OF inv])
    then show ?thesis using acc [of x] new by auto
  qed
  ultimately show ?thesis unfolding dupes_inv_def n by simp
qed

lemma run_dupes:
  assumes "checks_run ts sh n ts' sh'" and "\<forall>t\<in>set ts. chkPc t = AtLoad" and "histories_ok sh"
    and "length ts \<le> maxTrackedSharesPerWorker"
  shows "dupes_inv sh ts' sh'"
  using assms
proof (induction rule: checks_run.induct)
  case start
  then have "acceptances x ts = 0" for x by (auto simp: acceptances_def accepted_def)
  then show ?case using start by (auto simp: dupes_inv_def)
next
  case (act n ts' sh' i pc sh'')
  then have inv: "dupes_inv sh ts' sh'" and len: "length ts' \<le> maxTrackedSharesPerWorker"
    using run_length [OF act.hyps(1)] by auto
  show ?case
    using act.hyps(4,3)
  proof (cases rule: atom_cases)
    case (track dup)
    then show ?thesis using dupes_inv_track [OF inv act.hyps(2) track(1,2) len] by simp
  qed (auto intro!: dupes_inv_idle [OF inv act.hyps(2,3)])
next
  case (others n ts' sh' sh'')
  then have "dupes_inv sh ts' sh'" by simp
  then show ?case unfolding dupes_inv_def same_histories [OF others.hyps(3)] .
qed

text \<open>
  C34: shares that are checked at the same time are judged consistently under every schedule: when all goroutines have returned, the newest blue score is the greatest that there was;
  a share is refused as too old only if it is too old for that score, and always if it was too old for
  the score at the start; of the same share of one worker at most one is accepted, and if one is
  refused as a duplicate, it was known at the start or one was accepted.
\<close>

theorem checks_agree:
  assumes "\<forall>t\<in>set ts. chkPc t = AtLoad" and "histories_ok sh" and "length ts \<le> 2048"
    and "checks_run ts sh n ts' sh'" and "\<forall>t\<in>set ts'. \<not> running t"
  shows "tipBlueScore sh' = Max (insert (tipBlueScore sh) (chkScore ` set ts))
    \<and> map chkId ts' = map chkId ts \<and> map chkScore ts' = map chkScore ts
    \<and> (\<forall>t\<in>set ts'.
        (chkPc t = Checked (Some ErrStaleShare) \<longrightarrow> unat (chkScore t) + 8 < unat (tipBlueScore sh'))
      \<and> (unat (chkScore t) + 8 < unat (tipBlueScore sh) \<longrightarrow> chkPc t = Checked (Some ErrStaleShare))
      \<and> (chkPc t = Checked (Some ErrDupeShare) \<longrightarrow> known sh (chkId t) \<or> (\<exists>t'\<in>set ts'. accepted t' \<and> chkId t' = chkId t)))
    \<and> (\<forall>x. length (filter (\<lambda>t. accepted t \<and> chkId t = x) ts') \<le> 1)"
proof -
  note r = run_scores [OF assms(4,1)]
  have d: "dupes_inv sh ts' sh'"
    using assms by (intro run_dupes) (simp_all add: maxTrackedSharesPerWorker_def)
  have seen: "score_seen (tipBlueScore sh) (tipBlueScore sh') t" if "t \<in> set ts'" for t using r that by blast
  have pc: "\<exists>e. chkPc t = Checked e" if "t \<in> set ts'" for t using assms(5) that by (auto simp: running_def)
  have below: "chkScore t \<le> tipBlueScore sh'" if "t \<in> set ts'" for t
    using seen [OF that] pc [OF that] by (auto simp: score_seen_def word_le_nat_alt split: if_splits)
  have scores: "chkScore ` set ts = chkScore ` set ts'" using r by (metis image_set)
  have "tipBlueScore sh' = Max (insert (tipBlueScore sh) (chkScore ` set ts))"
    using r below by (intro Max_eqI [symmetric]) (auto simp: scores)
  moreover have "unat (chkScore t) + 8 < unat (tipBlueScore sh')" if "t \<in> set ts'" "chkPc t = Checked (Some ErrStaleShare)" for t
    using seen [OF that(1)] that(2) by (simp add: score_seen_def)
  moreover have "chkPc t = Checked (Some ErrStaleShare)"
    if "t \<in> set ts'" "unat (chkScore t) + 8 < unat (tipBlueScore sh)" for t
    using seen [OF that(1)] pc [OF that(1)] that(2) by (auto simp: score_seen_def split: if_splits)
  moreover have "known sh (chkId t) \<or> (\<exists>t'\<in>set ts'. accepted t' \<and> chkId t' = chkId t)"
    if "t \<in> set ts'" "chkPc t = Checked (Some ErrDupeShare)" for t
    using dupes_invD(4) [OF d that] by (simp add: acceptances_pos)
  moreover have "length (filter (\<lambda>t. accepted t \<and> chkId t = x) ts') \<le> 1" for x
    using dupes_invD(5) [OF d, of x] by (simp add: acceptances_def)
  ultimately show ?thesis using r by blast
qed

theorem checks_agree_witness:
  "\<exists>sh. checks_run [racer AtLoad, racer AtLoad] newShareHandler 8 [racer (Checked None), racer (Checked (Some ErrDupeShare))] sh
    \<and> tipBlueScore sh = Max (insert (tipBlueScore newShareHandler) (chkScore ` set [racer AtLoad, racer AtLoad]))"
proof -
  obtain sh where r: "checks_run [racer AtLoad, racer AtLoad] newShareHandler 8 [racer (Checked None), racer (Checked (Some ErrDupeShare))] sh"
    using race by blast
  have l: "\<forall>t\<in>set [racer AtLoad, racer AtLoad]. chkPc t = AtLoad"
    and d: "\<forall>t\<in>set [racer (Checked None), racer (Checked (Some ErrDupeShare))]. \<not> running t"
    by (simp_all add: racer_def running_def)
  have h: "histories_ok newShareHandler" by (simp add: histories_ok_def history_ok_new)
  have "length [racer AtLoad, racer AtLoad] \<le> 2048" by simp
  from checks_agree [OF l h this r d] r show ?thesis by blast
qed

end
