(* ===== verification/EndToEnd.thy ===== *)
theory EndToEnd
  imports JsonProps SubmitV1
begin

text \<open>
  From the bytes of a miner to the bytes of the answer: reading a line (\<^verbatim>\<open>stratum_client.go\<close>), the text of
  messages (\<^verbatim>\<open>jsonrpc_event.go\<close>), the handlers of the bridge (\<^verbatim>\<open>stratum_server.go\<close>), the judging of the share
  (\<^verbatim>\<open>share_handler.go\<close>) and the answer (\<^verbatim>\<open>stratum_context.go\<close>) together.
\<close>

subsection \<open>What was received can be sent again\<close>

lemma received_ok: "text_ok a \<Longrightarrow> text_ok (received a)"
proof (induction a)
  case (AInt n)
  then obtain q where q: "f64_of_int n = Fin q" using int_finite by auto
  then have "f64_ok (Fin q)" using f64_ok_of_int [of n] by simp
  then show ?case using q by simp
qed (auto simp: list_all_iff split: f64.splits)

lemma received_ordered: "ordered a \<Longrightarrow> ordered (received a)"
proof (induction a)
  case (AMap kvs)
  have "ordered (received a)" if "(k, a) \<in> set kvs" for k a
    using AMap.IH [of "(k, a)" a] AMap.prems that by (auto simp: list_all_iff)
  moreover have "map fst (map (\<lambda>(k, a). (k, received a)) kvs) = map fst kvs" by auto
  ultimately show ?case using AMap.prems by (auto simp: list_all_iff simp del: map_map)
qed (auto simp: list_all_iff)

lemma received_nesting: "nesting (received a) = nesting a"
proof (induction a)
  case (AList as)
  then have "foldr (\<lambda>a n. max (nesting a) n) (map received as) 0 = foldr (\<lambda>a n. max (nesting a) n) as 0"
    by (induction as) auto
  then show ?case by simp
next
  case (AMap kvs)
  have "nesting (received (snd x)) = nesting (snd x)" if "x \<in> set kvs" for x
    using AMap [OF that, of "snd x"] by (cases x) simp
  then have "foldr (\<lambda>(k, a) n. max (nesting a) n) (map (\<lambda>(k, a). (k, received a)) kvs) 0
      = foldr (\<lambda>(k, a) n. max (nesting a) n) kvs 0"
    by (auto simp: foldr_map comp_def split_def fun_eq_iff intro!: foldr_cong)
  then show ?case by simp
qed simp_all

lemma received_twice: "received (received a) = received a"
proof (induction a)
  case (AStr s)
  then show ?case by (simp add: to_valid_id to_valid_valid)
qed (auto simp: list.map_comp)

subsection \<open>Answers\<close>

text \<open>What a miner reads when the answer to a verdict arrives: numbers are floats there.\<close>

definition read_response_of :: "go_any \<Rightarrow> SubmitStatus \<Rightarrow> JsonRpcResponse" where
  "read_response_of i st = (case verdict_error st of
     None \<Rightarrow> \<lparr>respId = i, Result = ABool True, respError = None\<rparr>
   | Some (code, txt) \<Rightarrow> \<lparr>respId = i, Result = ANil, respError = Some [AFloat (f64_of_int code), AStr txt, ANil]\<rparr>)"

lemma read_verdict:
  assumes "text_ok i" and "ordered i" and "nesting i < maxNestingDepth"
  shows "UnmarshalResponse (response_text (verdict_response (received i) st)) = Some (read_response_of (received i) st)"
proof -
  have "response_readable (verdict_response (received i) st)"
    using received_ok [OF assms(1)] received_ordered [OF assms(2)] received_nesting [of i] assms(3)
    by (cases st) (auto simp: verdict_response_def response_readable_def maxNestingDepth_def)
  moreover have "received_response (verdict_response (received i) st) = read_response_of (received i) st"
    by (cases st) (simp_all add: received_response_def verdict_response_def read_response_of_def received_twice
        to_valid_id valid_all_ascii ascii_def char_nat_def)
  ultimately show ?thesis using read_response by metis
qed

lemma received_marshal: "text_ok a \<Longrightarrow> marshal_ok (received a)"
proof (induction a)
  case (AInt n)
  then obtain q where "f64_of_int n = Fin q" using int_finite by auto
  then show ?case by simp
qed (auto simp: list_all_iff split: f64.splits)

text \<open>
  C19: a submitted share is answered from wire to wire: when the next bytes of a Stratum V1 connection are
  the line of a \<^verbatim>\<open>mining.submit\<close>, in any pieces, the round of the loop goes on without an error or a panic,
  and counts the share exactly when it is accepted. If the verdict is not an internal error and the connection takes
  the message, one line is sent, and a miner that reads it gets the identifier of its request, as it was read, and \<^verbatim>\<open>true\<close>
  for an accepted share or the error code and text of the verdict otherwise. In the other two cases nothing is sent.
\<close>

theorem submit_line_answered:
  assumes "event_readable m" and "Method m = ''mining.submit''" and "length (event_text m) < maxEventLineBytes"
    and "client_inv ctx sh" and "\<not> connClosed ctx" and "b @ concat ps = wire_bytes (WEvent m) @ rest"
  shows "\<exists>rd' ctx' sh'. client_round UnmarshalEvent (bridgeHandlers decode world k) False
        \<lparr>buffered = b, source = map Data ps @ s\<rparr> ctx sh = (rd', Some (None, ctx', sh'))
    \<and> client_inv ctx' sh'
    \<and> SharesFound (overall sh') = SharesFound (overall sh)
        + of_bool (v1_verdict (snd (world k)) (received_event m) ctx sh = Some SubmitStatusAccepted)
    \<and> (case v1_verdict (snd (world k)) (received_event m) ctx sh of None \<Rightarrow> sent ctx' = sent ctx
       | Some st \<Rightarrow> if takes_message ctx
           then \<exists>r. sent ctx' = sent ctx @ [WResponse r]
             \<and> UnmarshalResponse (response_text r) = Some (read_response_of (received (eventId m)) st)
           else sent ctx' = sent ctx)"
proof -
  let ?ev = "received_event m" and ?i = "received (eventId m)"
  obtain rd' where line: "client_round UnmarshalEvent (bridgeHandlers decode world k) False
      \<lparr>buffered = b, source = map Data ps @ s\<rparr> ctx sh = (rd', HandleEvent (bridgeHandlers decode world k) ctx ?ev sh)"
    using line_reaches [where handlers = "bridgeHandlers decode world k" and w = sh and s = s, OF assms(1,3,5,6)] by blast
  have id: "eventId ?ev = ?i" and meth: "Method ?ev = StratumMethodSubmit"
    using assms(2) by (simp_all add: received_event_def StratumMethodSubmit_def to_valid_id valid_all_ascii ascii_def)
  have i: "text_ok (eventId m)" "ordered (eventId m)" "nesting (eventId m) < maxNestingDepth"
    using assms(1) by (auto simp: event_readable_def)
  have inv: "books_ok sh \<and> windows_ok sh \<and> histories_ok sh" "mining_ok (State ctx)" using assms(4) by (simp_all add: client_inv_def)
  obtain e ctx' sh' where h: "HandleSubmit (fst (world k)) (snd (world k)) ?ev ctx sh = Some (e, ctx', sh')"
    and inv': "books_ok sh' \<and> windows_ok sh' \<and> histories_ok sh'" "same_client ctx ctx'"
    and sent: "sent ctx' = sent ctx @ (case v1_verdict (snd (world k)) ?ev ctx sh of None \<Rightarrow> []
        | Some st \<Rightarrow> if takes_message ctx \<and> marshal_ok ?i then [WResponse (verdict_response ?i st)] else [])"
    using HandleSubmit_exact [OF inv, of "fst (world k)" "snd (world k)" ?ev] unfolding id by blast
  have n: "SharesFound (overall sh') = SharesFound (overall sh)
      + of_bool (v1_verdict (snd (world k)) ?ev ctx sh = Some SubmitStatusAccepted)"
    using HandleSubmit_counts [OF _ h] inv(1) by simp
  have "client_inv ctx' sh'" using inv' inv(2) by (simp add: client_inv_def same_clientD(9))
  moreover have "HandleEvent (bridgeHandlers decode world k) ctx ?ev sh = Some (None, ctx', sh')"
    by (simp add: HandleEvent_def meth bridgeHandlers_def submitHandler_def h)
  ultimately show ?thesis
    using line n sent read_verdict [OF i] received_marshal [OF i(1)]
    by (intro exI [of _ rd'] exI [of _ ctx'] exI [of _ sh']) (auto split: option.split)
qed

text \<open>A request that arrives in two pieces.\<close>

definition sample_submit :: JsonRpcEvent where
  "sample_submit = \<lparr>eventId = AInt 4, jsonrpc = ''2.0'', Method = ''mining.submit'', Params = [AStr ''rig'', AStr ''1'', AStr ''64'']\<rparr>"

theorem submit_line_answered_witness:
  "\<exists>rd' ctx' sh'. client_round UnmarshalEvent (bridgeHandlers (\<lambda>_ _. False) (\<lambda>_. (3, sample_node)) 0) False
      \<lparr>buffered = take 7 (str_bytes (event_text sample_submit)),
        source = map Data [drop 7 (str_bytes (event_text sample_submit)) @ [10]] @ []\<rparr> sample_miner newShareHandler
      = (rd', Some (None, ctx', sh')) \<and> client_inv ctx' sh'
    \<and> SharesFound (overall sh') = SharesFound (overall newShareHandler)
        + of_bool (v1_verdict sample_node (received_event sample_submit) sample_miner newShareHandler = Some SubmitStatusAccepted)"
proof -
  have "event_readable sample_submit" by (simp add: sample_submit_def event_readable_def maxNestingDepth_def)
  moreover have "Method sample_submit = ''mining.submit''" by (simp add: sample_submit_def)
  moreover have "length (event_text sample_submit) < maxEventLineBytes" by code_simp
  moreover have "client_inv sample_miner newShareHandler"
    using sample_shares_ok by (simp add: client_inv_def shares_ok_def mining_ok_def sample_miner_def sample_mining_def
        diff_ok_def one_f64_def)
  moreover have "\<not> connClosed sample_miner" by (simp add: sample_miner_def)
  moreover have "take 7 (str_bytes (event_text sample_submit)) @ concat [drop 7 (str_bytes (event_text sample_submit)) @ [10]]
      = wire_bytes (WEvent sample_submit) @ []" by (simp add: wire_bytes_def)
  ultimately show ?thesis
    using submit_line_answered [where m = sample_submit and ctx = sample_miner and sh = newShareHandler and k = 0
        and world = "\<lambda>_. (3, sample_node)" and decode = "\<lambda>_ _. False" and s = "[]"] unfolding snd_conv by blast
qed

end
