(* ===== verification/Accepting.thy ===== *)
theory Accepting
  imports StratumListenerLemmas
begin

text \<open>
  \<^verbatim>\<open>Listen\<close> of \<^verbatim>\<open>src/gostratum/stratum_listener.go\<close>: the port is opened, one goroutine accepts
  connections, one handles disconnects, and the caller waits until the context is cancelled, closes
  the port and waits for both. Each is a sequence of atomic steps in any order.
\<close>

subsection \<open>A listener at work\<close>

text \<open>Where the caller is: waiting for the context, past the flag, past the close, or back.\<close>

datatype listen_pc = Waiting | Closing | Draining | Returned

record ('st, 'w) server =
  lsn :: "('st, 'w) StratumListener"
  shared :: 'w
  conns :: "('st StratumContext \<times> route) list"
  listenPc :: listen_pc
  ctxDone :: bool
  portOpen :: bool
  accepting :: bool
  watching :: bool
  failures :: nat

definition sharedDown :: "bool \<Rightarrow> ('st, 'w) StratumListener \<Rightarrow> ('st, 'w) StratumListener" where
  "sharedDown b l = l\<lparr>shuttingDown := b\<rparr>"

text \<open>The start; \<open>bindErr\<close> is the error of opening the port, if there was one.\<close>

definition Listen :: "go_error option \<Rightarrow> 'w \<Rightarrow> ('st, 'w) StratumListener \<Rightarrow> go_error + ('st, 'w) server" where
  "Listen bindErr w l = (let l = sharedDown False l in case bindErr of
     Some err \<Rightarrow> Inl err
   | None \<Rightarrow> Inr \<lparr>lsn = l, shared = w, conns = [], listenPc = Waiting, ctxDone = False, portOpen = True,
       accepting = True, watching = True, failures = 0\<rparr>)"

text \<open>One round of \<^verbatim>\<open>tcpListener\<close> after \<^verbatim>\<open>Accept\<close> has failed or has returned a connection.\<close>

definition acceptFailed :: "('st, 'w) server \<Rightarrow> ('st, 'w) server" where
  "acceptFailed s = (if shuttingDown (lsn s) then s\<lparr>accepting := False\<rparr> else s\<lparr>failures := failures s + 1\<rparr>)"

definition acceptConn ::
    "int \<Rightarrow> string \<Rightarrow> write_result list \<Rightarrow> socket \<Rightarrow> 'st \<Rightarrow> ('st, 'w) server \<Rightarrow> ('st, 'w) server" where
  "acceptConn now addr script sock noState s =
    (case newClient now (length (conns s)) addr script sock (lsn s) noState (shared s) of
       (ctx, w, r) \<Rightarrow> s\<lparr>shared := w, conns := conns s @ [(ctx, r)]\<rparr>)"

definition watchDisconnects :: "('st, 'w) server \<Rightarrow> ('st, 'w) server" where
  "watchDisconnects s = (case disconnectListener (\<lambda>i. fst (conns s ! i)) (lsn s) (shared s) of
     (l, w) \<Rightarrow> s\<lparr>lsn := l, shared := w\<rparr>)"

text \<open>The steps by which it ends: \<^verbatim>\<open>Accept\<close> fails on a closed port.\<close>

inductive own_step :: "('st, 'w) server \<Rightarrow> ('st, 'w) server \<Rightarrow> bool" where
  closed_accept: "accepting s \<Longrightarrow> \<not> portOpen s \<Longrightarrow> own_step s (acceptFailed s)"
| watcher_done: "watching s \<Longrightarrow> ctxDone s \<Longrightarrow> own_step s (s\<lparr>watching := False\<rparr>)"
| shut_down: "listenPc s = Waiting \<Longrightarrow> ctxDone s \<Longrightarrow> own_step s (s\<lparr>lsn := sharedDown True (lsn s), listenPc := Closing\<rparr>)"
| close_port: "listenPc s = Closing \<Longrightarrow> own_step s (s\<lparr>portOpen := False, listenPc := Draining\<rparr>)"
| joined: "listenPc s = Draining \<Longrightarrow> \<not> accepting s \<Longrightarrow> \<not> watching s \<Longrightarrow> own_step s (s\<lparr>listenPc := Returned\<rparr>)"

text \<open>All steps. A goroutine of a connection may change the connections and what is shared, and put
  events into the disconnect channel.\<close>

inductive listen_step :: "('st, 'w) server \<Rightarrow> ('st, 'w) server \<Rightarrow> bool" where
  own: "own_step s s' \<Longrightarrow> listen_step s s'"
| accept: "accepting s \<Longrightarrow> portOpen s \<Longrightarrow> listen_step s (acceptConn now addr script sock noState s)"
| accept_error: "accepting s \<Longrightarrow> listen_step s (acceptFailed s)"
| event: "watching s \<Longrightarrow> disconnectChannel (lsn s) \<noteq> [] \<Longrightarrow> listen_step s (watchDisconnects s)"
| client: "length cs = length (conns s) \<Longrightarrow>
    listen_step s (s\<lparr>lsn := (lsn s)\<lparr>disconnectChannel := disconnectChannel (lsn s) @ evs\<rparr>, shared := w, conns := cs\<rparr>)"
| cancel: "listen_step s (s\<lparr>ctxDone := True\<rparr>)"

inductive_cases own_stepE: "own_step s s'"

abbreviation listen_steps :: "('st, 'w) server \<Rightarrow> ('st, 'w) server \<Rightarrow> bool" where
  "listen_steps \<equiv> listen_step\<^sup>*\<^sup>*"

subsection \<open>What holds at all times\<close>

definition listen_inv :: "('st, 'w) server \<Rightarrow> bool" where
  "listen_inv s \<longleftrightarrow> (case listenPc s of
       Waiting \<Rightarrow> \<not> shuttingDown (lsn s) \<and> portOpen s
     | Closing \<Rightarrow> shuttingDown (lsn s) \<and> portOpen s \<and> ctxDone s
     | Draining \<Rightarrow> shuttingDown (lsn s) \<and> \<not> portOpen s \<and> ctxDone s
     | Returned \<Rightarrow> shuttingDown (lsn s) \<and> \<not> portOpen s \<and> ctxDone s \<and> \<not> accepting s \<and> \<not> watching s)
    \<and> (\<not> accepting s \<longrightarrow> shuttingDown (lsn s)) \<and> (\<not> watching s \<longrightarrow> ctxDone s)"

lemma watch_frame [simp]:
  "listenPc (watchDisconnects s) = listenPc s" "portOpen (watchDisconnects s) = portOpen s"
  "ctxDone (watchDisconnects s) = ctxDone s" "accepting (watchDisconnects s) = accepting s"
  "watching (watchDisconnects s) = watching s" "shuttingDown (lsn (watchDisconnects s)) = shuttingDown (lsn s)"
  "conns (watchDisconnects s) = conns s"
  by (simp_all add: watchDisconnects_def disconnectListener_def Let_def split: list.split)

lemma accept_frame [simp]:
  "listenPc (acceptConn now addr script sock noState s) = listenPc s"
  "portOpen (acceptConn now addr script sock noState s) = portOpen s"
  "ctxDone (acceptConn now addr script sock noState s) = ctxDone s"
  "accepting (acceptConn now addr script sock noState s) = accepting s"
  "watching (acceptConn now addr script sock noState s) = watching s"
  "lsn (acceptConn now addr script sock noState s) = lsn s"
  by (simp_all add: acceptConn_def split: prod.split)

lemma own_inv: "own_step s s' \<Longrightarrow> listen_inv s \<Longrightarrow> listen_inv s'"
  by (induction rule: own_step.induct)
    (auto simp: listen_inv_def acceptFailed_def sharedDown_def split: listen_pc.splits)

lemma step_inv: "listen_step s s' \<Longrightarrow> listen_inv s \<Longrightarrow> listen_inv s'"
  by (induction rule: listen_step.induct)
    (auto simp: own_inv, auto simp: listen_inv_def acceptFailed_def split: listen_pc.splits)

lemma steps_inv: "listen_steps s s' \<Longrightarrow> listen_inv s \<Longrightarrow> listen_inv s'"
  by (induction rule: rtranclp_induct) (auto intro: step_inv)

lemma start_inv: "Listen bindErr w l = Inr s \<Longrightarrow> listen_inv s"
  by (auto simp: Listen_def listen_inv_def sharedDown_def Let_def split: option.splits)

text \<open>After the port is closed no connection is added.\<close>

lemma closed_step:
  assumes "listen_step s s'" and "listen_inv s" and "listenPc s \<in> {Draining, Returned}"
  shows "listenPc s' \<in> {Draining, Returned} \<and> length (conns s') = length (conns s)"
  using assms by (induction rule: listen_step.induct) (auto simp: listen_inv_def acceptFailed_def elim: own_stepE)

lemma closed_steps:
  assumes "listen_steps s s'" and "listen_inv s" and "listenPc s \<in> {Draining, Returned}"
  shows "listenPc s' \<in> {Draining, Returned} \<and> length (conns s') = length (conns s)"
  using assms
proof (induction rule: rtranclp_induct)
  case (step y z)
  then have "listen_inv y" using steps_inv by blast
  then show ?case using step closed_step [of y z] by simp
qed simp

subsection \<open>The shutdown\<close>

text \<open>What is left to do. Every own step lowers it, and there is one until the caller has returned.\<close>

definition left_over :: "('st, 'w) server \<Rightarrow> nat" where
  "left_over s = (case listenPc s of Waiting \<Rightarrow> 3 | Closing \<Rightarrow> 2 | Draining \<Rightarrow> 1 | Returned \<Rightarrow> 0)
     + (if accepting s then 1 else 0) + (if watching s then 1 else 0)"

lemma own_lowers: "own_step s s' \<Longrightarrow> listen_inv s \<Longrightarrow> left_over s' < left_over s"
  by (induction rule: own_step.induct) (auto simp: left_over_def listen_inv_def acceptFailed_def split: listen_pc.splits)

lemma own_enabled:
  assumes "listen_inv s" and "ctxDone s" and "listenPc s \<noteq> Returned"
  shows "\<exists>s'. own_step s s'"
proof (cases "listenPc s")
  case Draining
  then show ?thesis using assms joined closed_accept watcher_done by (auto simp: listen_inv_def) blast
qed (use assms shut_down close_port in blast)+

lemma own_done: "own_step s s' \<Longrightarrow> ctxDone s' = ctxDone s"
  by (induction rule: own_step.induct) (auto simp: acceptFailed_def)

lemma own_run:
  assumes "(own_step ^^ n) s s'" and "listen_inv s"
  shows "listen_inv s' \<and> ctxDone s' = ctxDone s \<and> left_over s' + n \<le> left_over s"
  using assms
proof (induction n arbitrary: s')
  case (Suc n)
  then obtain t where "(own_step ^^ n) s t" "own_step t s'" by auto
  then show ?case using Suc own_inv own_done own_lowers [of t s'] by fastforce
qed simp

text \<open>
  C35: a listener serves until its context is cancelled and then stops: no error of \<^verbatim>\<open>Accept\<close> ends the
  accept loop earlier; when \<^verbatim>\<open>Listen\<close> has returned, the port is closed, both goroutines have ended and no
  connection is ever added again; and after the cancellation the steps of the listener alone, in any
  order, bring it to its return within five steps.
\<close>

theorem listener_lifecycle:
  assumes "Listen bindErr w l = Inr s0" and "listen_steps s0 s"
  shows "(\<not> ctxDone s \<longrightarrow> accepting s \<and> watching s \<and> portOpen s)
    \<and> (listenPc s = Returned \<longrightarrow> \<not> portOpen s \<and> \<not> accepting s \<and> \<not> watching s
        \<and> (\<forall>s'. listen_steps s s' \<longrightarrow> length (conns s') = length (conns s)))
    \<and> (ctxDone s \<longrightarrow> (\<forall>n s'. (own_step ^^ n) s s' \<longrightarrow> n \<le> 5 \<and> (listenPc s' = Returned \<or> (\<exists>s''. own_step s' s''))))"
proof -
  have inv: "listen_inv s" by (rule steps_inv [OF assms(2) start_inv [OF assms(1)]])
  have "accepting s \<and> watching s \<and> portOpen s" if "\<not> ctxDone s"
    using inv that by (auto simp: listen_inv_def split: listen_pc.splits)
  moreover have "\<not> portOpen s \<and> \<not> accepting s \<and> \<not> watching s" if "listenPc s = Returned"
    using inv that by (simp add: listen_inv_def)
  moreover have "n \<le> 5 \<and> (listenPc s' = Returned \<or> (\<exists>s''. own_step s' s''))" if "ctxDone s" "(own_step ^^ n) s s'" for n s'
  proof -
    have "left_over s \<le> 5" by (simp add: left_over_def split: listen_pc.split)
    then show ?thesis using own_run [OF that(2) inv] own_enabled [of s'] that(1) by auto
  qed
  ultimately show ?thesis using closed_steps [OF _ inv] by blast
qed

text \<open>A listener that is cancelled after \<^verbatim>\<open>Accept\<close> has failed once.\<close>

definition idle_listener :: "(unit, unit) StratumListener" where
  "idle_listener = NewListener () \<lparr>Handlers = \<lambda>_ _. None, ListenerOnConnect = None, ListenerOnDisconnect = None,
     BinaryFirstByte = None, StateGenerator = None, Port = '':5555''\<rparr>"

theorem listener_lifecycle_witness:
  "\<exists>s0 s. Listen None () idle_listener = Inr s0 \<and> listen_steps s0 s \<and> failures s = 1 \<and> ctxDone s
    \<and> (\<forall>n s'. (own_step ^^ n) s s' \<longrightarrow> n \<le> 5 \<and> (listenPc s' = Returned \<or> (\<exists>s''. own_step s' s'')))"
proof -
  obtain s0 where s0: "Listen None () idle_listener = Inr s0" "accepting s0" "failures s0 = 0" "\<not> shuttingDown (lsn s0)"
    by (simp add: Listen_def Let_def sharedDown_def)
  let ?s = "(acceptFailed s0)\<lparr>ctxDone := True\<rparr>"
  have r: "listen_steps s0 ?s"
    using accept_error [OF s0(2)] cancel [of "acceptFailed s0"] by (meson converse_rtranclp_into_rtranclp rtranclp.rtrancl_refl)
  have "failures ?s = 1" using s0 by (simp add: acceptFailed_def)
  with listener_lifecycle [OF s0(1) r] s0(1) r show ?thesis by (intro exI [of _ s0] exI [of _ ?s]) simp
qed

end
