(* ===== verification/MockConn.thy ===== *)
theory MockConn
  imports StratumContext
begin

text \<open>
  \<^verbatim>\<open>src/gostratum/mock_connection.go\<close>: the connection of the tests, over two channels without buffers, and
  \<^verbatim>\<open>NewMockContext\<close> of \<^verbatim>\<open>stratum_context.go\<close>. What happens while an operation waits at a channel is given:
  the other side is there, the channel is closed, or the timer fires. \<open>None\<close> is a panic. Times are
  nanoseconds since 1970.
\<close>

subsection \<open>The connection\<close>

record MockConnection =
  mockId :: string
  mockClosed :: bool
  readDeadline :: int
  writeDeadline :: int

text \<open>What a wait ends with: data from the sender, a receiver, the end of the channel, the timer.\<close>

datatype read_wait = Arrived "byte list" | InClosed | ReadTimer

datatype write_wait = Handed | OutClosed | WriteTimer

definition NewMockConnection :: "nat \<Rightarrow> MockConnection \<times> nat" where
  "NewMockConnection channelCounter = (let n = channelCounter + 1 in
     (\<lparr>mockId = ''mc_'' @ fmt_dec (int n), mockClosed = False, readDeadline = 0, writeDeadline = 0\<rparr>, n))"

text \<open>A goroutine sends the data into the channel of the reader, unless the connection is closed before;
  if it is closed meanwhile, the panic is recovered. The result is what reaches the channel.\<close>

definition AsyncWriteTestDataToReadBuffer :: "string \<Rightarrow> bool \<Rightarrow> MockConnection \<Rightarrow> byte list option" where
  "AsyncWriteTestDataToReadBuffer s closedMeanwhile mc =
    (if mockClosed mc then None else if closedMeanwhile then None else Some (str_bytes s))"

text \<open>The handler gets what was written, if the channel is not closed first.\<close>

definition ReadTestDataFromBuffer :: "(byte list \<Rightarrow> 'w \<Rightarrow> 'w) \<Rightarrow> byte list option \<Rightarrow> 'w \<Rightarrow> 'w" where
  "ReadTestDataFromBuffer handler written w = (case written of None \<Rightarrow> w | Some bs \<Rightarrow> handler bs w)"

definition AsyncReadTestDataFromBuffer :: "(byte list \<Rightarrow> 'w \<Rightarrow> 'w) \<Rightarrow> byte list option \<Rightarrow> 'w \<Rightarrow> 'w" where
  "AsyncReadTestDataFromBuffer handler written w = (case written of None \<Rightarrow> w | Some bs \<Rightarrow> handler bs w)"

definition MockRead :: "int \<Rightarrow> nat \<Rightarrow> read_wait \<Rightarrow> MockConnection \<Rightarrow> (byte list \<times> go_error option)" where
  "MockRead now n ev mc = (if mockClosed mc then ([], Some ErrEOF)
     else if 0 < readDeadline mc \<and> readDeadline mc \<le> now then ([], Some ErrDeadlineExceeded)
     else case ev of
       Arrived data \<Rightarrow> (take n data, None)
     | InClosed \<Rightarrow> ([], Some ErrEOF)
     | ReadTimer \<Rightarrow> ([], Some ErrDeadlineExceeded))"

definition MockWrite :: "int \<Rightarrow> byte list \<Rightarrow> write_wait \<Rightarrow> MockConnection \<Rightarrow> (nat \<times> go_error option) option" where
  "MockWrite now b ev mc = (if mockClosed mc then Some (0, Some ErrEOF)
     else if 0 < writeDeadline mc \<and> writeDeadline mc \<le> now then Some (0, Some ErrDeadlineExceeded)
     else case ev of
       Handed \<Rightarrow> Some (length b, None)
     | OutClosed \<Rightarrow> None
     | WriteTimer \<Rightarrow> Some (0, Some ErrDeadlineExceeded))"

text \<open>Without a deadline there is no timer.\<close>

definition read_possible :: "MockConnection \<Rightarrow> read_wait \<Rightarrow> bool" where
  "read_possible mc ev \<longleftrightarrow> ev = ReadTimer \<longrightarrow> 0 < readDeadline mc"

definition write_possible :: "MockConnection \<Rightarrow> write_wait \<Rightarrow> bool" where
  "write_possible mc ev \<longleftrightarrow> ev = WriteTimer \<longrightarrow> 0 < writeDeadline mc"

text \<open>Closing; the number says how often the channels have been closed by it.\<close>

definition MockClose :: "MockConnection \<Rightarrow> MockConnection \<times> nat" where
  "MockClose mc = (if mockClosed mc then (mc, 0) else (mc\<lparr>mockClosed := True\<rparr>, 1))"

definition SetReadDeadline :: "int option \<Rightarrow> MockConnection \<Rightarrow> MockConnection" where
  "SetReadDeadline t mc = (case t of None \<Rightarrow> mc\<lparr>readDeadline := 0\<rparr> | Some t \<Rightarrow> mc\<lparr>readDeadline := t\<rparr>)"

definition SetWriteDeadline :: "int option \<Rightarrow> MockConnection \<Rightarrow> MockConnection" where
  "SetWriteDeadline t mc = (case t of None \<Rightarrow> mc\<lparr>writeDeadline := 0\<rparr> | Some t \<Rightarrow> mc\<lparr>writeDeadline := t\<rparr>)"

definition SetDeadline :: "int option \<Rightarrow> MockConnection \<Rightarrow> MockConnection" where
  "SetDeadline t mc = SetWriteDeadline t (SetReadDeadline t mc)"

text \<open>Both addresses: the network and the name.\<close>

definition MockAddr :: "MockConnection \<Rightarrow> string \<times> string" where
  "MockAddr mc = (''mock'', mockId mc)"

text \<open>\<open>uuid1\<close> and \<open>uuid2\<close> are the two random names; nobody is told of a disconnect.\<close>

definition NewMockContext ::
    "nat \<Rightarrow> string \<Rightarrow> string \<Rightarrow> 'st \<Rightarrow> write_result list \<Rightarrow> 'st StratumContext \<times> MockConnection" where
  "NewMockContext channelCounter uuid1 uuid2 state script =
     (\<lparr>RemoteAddr = ''127.0.0.1'', WalletAddr = uuid1, WorkerName = uuid2, RemoteApp = ''mock.context'', Id = 0,
       disconnecting = False, sv2Enabled = False, sv2ChannelID = 0, State = state, Extranonce = [],
       onDisconnect = None, sent = [], net = script, connClosed = False, asyncDisconnect = False, queued = 0\<rparr>,
      fst (NewMockConnection channelCounter))"

subsection \<open>How it differs from a socket\<close>

text \<open>A closed connection reads and writes nothing, and closing it again has no effect.\<close>

lemma mock_closed:
  assumes "MockClose mc = (mc', k)"
  shows "MockRead now n ev mc' = ([], Some ErrEOF)" and "MockWrite now b ew mc' = Some (0, Some ErrEOF)"
    and "MockClose mc' = (mc', 0)" and "k \<le> 1"
  using assms by (auto simp: MockClose_def MockRead_def MockWrite_def split: if_splits)

text \<open>A read that is given less room than a message needs loses the rest of it.\<close>

lemma mock_read_truncates:
  assumes "\<not> mockClosed mc" and "readDeadline mc = 0"
  shows "MockRead now n (Arrived data) mc = (take n data, None)"
  using assms by (simp add: MockRead_def)

text \<open>A write that waits for its reader panics when the connection is closed.\<close>

lemma mock_write_race:
  assumes "\<not> mockClosed mc" and "writeDeadline mc = 0"
  shows "write_possible mc OutClosed" and "MockWrite now b OutClosed mc = None"
  using assms by (simp_all add: MockWrite_def write_possible_def)

text \<open>Otherwise a write hands over everything or nothing, and fails only for a deadline or the end.\<close>

lemma mock_write_result:
  assumes "MockWrite now b ev mc = Some (k, e)" and "write_possible mc ev"
  shows "k = length b \<and> e = None \<or> k = 0 \<and> (e = Some ErrEOF \<and> mockClosed mc \<or> e = Some ErrDeadlineExceeded \<and> 0 < writeDeadline mc)"
  using assms by (auto simp: MockWrite_def write_possible_def split: if_splits write_wait.splits)

text \<open>Clearing the deadline makes both operations wait without limit; a deadline before 1970 counts as none.\<close>

lemma mock_deadlines:
  "readDeadline (SetDeadline None mc) = 0" "writeDeadline (SetDeadline None mc) = 0"
  "t \<le> 0 \<Longrightarrow> ev \<noteq> ReadTimer \<Longrightarrow> \<not> mockClosed mc \<Longrightarrow> MockRead now n ev (SetReadDeadline (Some t) mc) = MockRead now n ev (SetReadDeadline None mc)"
  by (simp_all add: SetDeadline_def SetReadDeadline_def SetWriteDeadline_def MockRead_def)

lemma mock_names: "mockId (fst (NewMockConnection i)) = mockId (fst (NewMockConnection j)) \<Longrightarrow> i = j"
  using fmt_dec_inject [of "int (i + 1)" "int (j + 1)"] by (simp add: NewMockConnection_def Let_def)

end
