(* ===== verification/JobRaces.thy ===== *)
theory JobRaces
  imports ClientListenerLemmas "HOL-Library.Multiset"
begin

text \<open>
  Several job goroutines of \<^verbatim>\<open>src/cryptixstratum/client_handler.go\<close> that serve the same connection at the same
  time, as when two notifications come shortly after each other: the part of \<^verbatim>\<open>NewBlockAvailable\<close> that fixes
  the difficulty, one atomic action after the other. Each method of the mining state and of the share
  handler takes its lock once, so each is one action; so is a write, which fails when another writer holds the lock for
  its three attempts.
\<close>

subsection \<open>The actions of one goroutine\<close>

datatype job_pc = AtInitialize | AtRegister | AtGreet | AtSolo | AtRead | AtCurrent f64 | AtStore f64
  | AtAnnounce f64 | AtRestart | Adjusted bool

definition adjust_atom ::
    "int \<Rightarrow> bool \<Rightarrow> f64 \<Rightarrow> f64 \<Rightarrow> job_pc \<Rightarrow> 'tx client \<Rightarrow> shareHandler \<Rightarrow> (job_pc \<times> 'tx client \<times> shareHandler) option" where
  "adjust_atom now soloMining minDiff netDiff pc client sh = (case pc of
     AtInitialize \<Rightarrow> (case InitializeIfNeeded (RemoteApp client) minDiff (State client) of
         None \<Rightarrow> None
       | Some (isNew, ms) \<Rightarrow> Some (if isNew then AtRegister else AtSolo, client\<lparr>State := ms\<rparr>, sh))
   | AtRegister \<Rightarrow> Some (if \<not> soloMining \<and> \<not> IsSV2 client then AtGreet else AtSolo, client,
       snd (setClientVardiff now client minDiff sh))
   | AtGreet \<Rightarrow> (case sendClientDiff minDiff client sh of (client, sh) \<Rightarrow> Some (AtSolo, client, sh))
   | AtSolo \<Rightarrow> Some (if soloMining then AtCurrent netDiff else AtRead, client, setSoloDiff netDiff sh)
   | AtRead \<Rightarrow> (case getClientVardiff now client sh of (varDiff, sh) \<Rightarrow> Some (AtCurrent varDiff, client, sh))
   | AtCurrent varDiff \<Rightarrow>
       (let currentDiff = GetStratumDiffValue (State client);
            varDiff = (if f64_eq varDiff 0 then currentDiff else varDiff)
        in Some (if f64_eq varDiff currentDiff then Adjusted True else AtStore varDiff, client, sh))
   | AtStore varDiff \<Rightarrow> (case SetStratumDiff varDiff (State client) of
         None \<Rightarrow> None
       | Some (_, ms) \<Rightarrow> Some (AtAnnounce varDiff, client\<lparr>State := ms\<rparr>, sh))
   | AtAnnounce varDiff \<Rightarrow>
       (if IsSV2 client
        then (case sendSV2Target varDiff client of
            None \<Rightarrow> None
          | Some (Some err, client) \<Rightarrow> Some (Adjusted False, sv2SendFailed err ErrFailedSetDiff client sh)
          | Some (None, client) \<Rightarrow> Some (AtRestart, client, sh))
        else (case sendClientDiff varDiff client sh of (client, sh) \<Rightarrow> Some (AtRestart, client, sh)))
   | AtRestart \<Rightarrow> Some (Adjusted True, client, startClientVardiff now client sh)
   | Adjusted on \<Rightarrow> Some (Adjusted on, client, sh))"

text \<open>Alone, a goroutine computes what \<open>adjustDiff\<close> says.\<close>

primrec adjust_steps ::
    "nat \<Rightarrow> int \<Rightarrow> bool \<Rightarrow> f64 \<Rightarrow> f64 \<Rightarrow> job_pc \<Rightarrow> 'tx client \<Rightarrow> shareHandler \<Rightarrow> (job_pc \<times> 'tx client \<times> shareHandler) option" where
  "adjust_steps 0 now soloMining minDiff netDiff pc client sh = Some (pc, client, sh)"
| "adjust_steps (Suc n) now soloMining minDiff netDiff pc client sh =
     (case adjust_atom now soloMining minDiff netDiff pc client sh of
        None \<Rightarrow> None
      | Some (pc, client, sh) \<Rightarrow> adjust_steps n now soloMining minDiff netDiff pc client sh)"

lemma steps_done: "adjust_steps n now solo minDiff netDiff (Adjusted on) cl sh = Some (Adjusted on, cl, sh)"
  by (induction n) (simp_all add: adjust_atom_def)

lemma steps_add:
  "adjust_steps (m + n) now solo minDiff netDiff pc cl sh = (case adjust_steps m now solo minDiff netDiff pc cl sh of
     None \<Rightarrow> None | Some (pc, cl, sh) \<Rightarrow> adjust_steps n now solo minDiff netDiff pc cl sh)"
  by (induction m arbitrary: pc cl sh) (simp_all split: option.split prod.split)

lemma solo_change:
  "adjust_steps (3 + n) now solo minDiff netDiff (AtStore d) cl sh
    = map_option (\<lambda>(on, cl, sh). (Adjusted on, cl, sh)) (changeDiff now d cl sh)"
  unfolding steps_add
  by (simp add: numeral_3_eq_3 adjust_atom_def changeDiff_def Let_def steps_done split: option.split prod.split)

lemma solo_compare:
  "adjust_steps (4 + n) now solo minDiff netDiff (AtCurrent vd) cl sh
    = (let cur = GetStratumDiffValue (State cl); d = (if f64_eq vd 0 then cur else vd)
       in if f64_eq d cur then Some (Adjusted True, cl, sh)
          else map_option (\<lambda>(on, cl, sh). (Adjusted on, cl, sh)) (changeDiff now d cl sh))"
proof -
  have n: "4 + n = Suc (3 + n)" by simp
  show ?thesis unfolding n adjust_steps.simps(2)
    by (simp add: adjust_atom_def Let_def steps_done solo_change)
qed

lemma solo_choose:
  "adjust_steps (6 + n) now solo minDiff netDiff AtSolo cl sh = (case chooseDiff now solo netDiff cl sh of (d, sh) \<Rightarrow>
     if f64_eq d (GetStratumDiffValue (State cl)) then Some (Adjusted True, cl, sh)
     else map_option (\<lambda>(on, cl, sh). (Adjusted on, cl, sh)) (changeDiff now d cl sh))"
proof (cases solo)
  case True
  have n: "6 + n = Suc (4 + Suc n)" by simp
  show ?thesis unfolding n adjust_steps.simps(2)
    using True by (simp add: adjust_atom_def solo_compare [of "Suc n", simplified] chooseDiff_def Let_def)
next
  case False
  have n: "6 + n = Suc (Suc (4 + n))" by simp
  show ?thesis unfolding n adjust_steps.simps(2)
    using False by (simp add: adjust_atom_def solo_compare chooseDiff_def Let_def split: prod.split)
qed

lemma solo_adjust:
  "adjust_steps 9 now solo minDiff netDiff AtInitialize cl sh
    = map_option (\<lambda>(on, cl, sh). (Adjusted on, cl, sh)) (adjustDiff now solo minDiff netDiff cl sh)"
proof -
  have nine: "9 = Suc (Suc (Suc (6 + 0)))" "9 = Suc (6 + 2)" "9 = Suc (Suc (6 + 1))" by simp_all
  show ?thesis
  proof (cases "InitializeIfNeeded (RemoteApp cl) minDiff (State cl)")
    case None
    then show ?thesis unfolding nine(2) adjust_steps.simps(2) by (simp add: adjust_atom_def adjustDiff_def initClient_def)
  next
    case (Some r)
    then obtain new ms where r: "InitializeIfNeeded (RemoteApp cl) minDiff (State cl) = Some (new, ms)" by (cases r) auto
    consider "\<not> new" | "new" "\<not> solo \<and> \<not> IsSV2 cl" | "new" "solo \<or> IsSV2 cl" by blast
    then show ?thesis
    proof cases
      case 1
      then show ?thesis unfolding nine(2) adjust_steps.simps(2)
        by (simp add: adjust_atom_def [of _ _ _ _ AtInitialize] r solo_choose [of 2, simplified] adjustDiff_def initClient_def Let_def split: prod.split)
    next
      case 2
      then show ?thesis unfolding nine(1) adjust_steps.simps(2)
        by (simp add: adjust_atom_def [of _ _ _ _ AtInitialize] adjust_atom_def [of _ _ _ _ AtRegister] adjust_atom_def [of _ _ _ _ AtGreet]
            r solo_choose [of 0, simplified] adjustDiff_def initClient_def IsSV2_def Let_def split: prod.split)
    next
      case 3
      then show ?thesis unfolding nine(3) adjust_steps.simps(2)
        by (auto simp: adjust_atom_def [of _ _ _ _ AtInitialize] adjust_atom_def [of _ _ _ _ AtRegister]
            r solo_choose [of 1, simplified] adjustDiff_def initClient_def IsSV2_def Let_def split: prod.split)
    qed
  qed
qed

subsection \<open>Several goroutines\<close>

text \<open>What a run leaves behind: the difficulties that were stored, and those whose announcement failed.\<close>

datatype diff_event = Changed f64 | Lost f64

definition diff_events :: "f64 \<Rightarrow> job_pc \<Rightarrow> 'tx client \<Rightarrow> 'tx client \<Rightarrow> diff_event list" where
  "diff_events minDiff pc cl cl' = (case pc of
     AtInitialize \<Rightarrow> if initialized (State cl) then [] else [Changed minDiff]
   | AtStore d \<Rightarrow> [Changed d]
   | AtGreet \<Rightarrow> if sent cl' = sent cl then [Lost minDiff] else []
   | AtAnnounce d \<Rightarrow> if sent cl' = sent cl then [Lost d] else []
   | _ \<Rightarrow> [])"

text \<open>A goroutine knows the difficulty of the network from its own template. Meanwhile anything else may happen
  to the share handler and to the connection: the lock may be taken, writes may fail, it may be closed,
  other messages may be sent, templates may be stored. Only its difficulty is changed by these goroutines alone.\<close>

inductive adjust_run :: "bool \<Rightarrow> f64 \<Rightarrow> (f64 \<times> job_pc) list \<Rightarrow> 'tx client \<Rightarrow> shareHandler \<Rightarrow> diff_event list
    \<Rightarrow> (f64 \<times> job_pc) list \<Rightarrow> 'tx client \<Rightarrow> shareHandler \<Rightarrow> bool"
  for solo minDiff js cl sh where
  start: "adjust_run solo minDiff js cl sh [] js cl sh"
| act: "adjust_run solo minDiff js cl sh tr js' cl' sh' \<Longrightarrow> i < length js' \<Longrightarrow> js' ! i = (netDiff, pc)
    \<Longrightarrow> adjust_atom now solo minDiff netDiff pc cl' sh' = Some (pc', cl'', sh'')
    \<Longrightarrow> adjust_run solo minDiff js cl sh (tr @ diff_events minDiff pc cl' cl'') (js'[i := (netDiff, pc')]) cl'' sh''"
| others: "adjust_run solo minDiff js cl sh tr js' cl' sh' \<Longrightarrow> IsSV2 cl'' = IsSV2 cl' \<Longrightarrow>
    initialized (State cl'') = initialized (State cl') \<Longrightarrow> GetStratumDiffValue (State cl'') = GetStratumDiffValue (State cl') \<Longrightarrow>
    sent cl'' = sent cl' @ ws \<Longrightarrow> \<forall>w\<in>set ws. told w = None \<Longrightarrow> adjust_run solo minDiff js cl sh tr js' cl'' sh''"

definition changes :: "diff_event list \<Rightarrow> f64 list" where
  "changes tr = concat (map (\<lambda>e. case e of Changed d \<Rightarrow> [d] | Lost d \<Rightarrow> []) tr)"

definition losses :: "diff_event list \<Rightarrow> f64 list" where
  "losses tr = concat (map (\<lambda>e. case e of Changed d \<Rightarrow> [] | Lost d \<Rightarrow> [d]) tr)"

definition all_told :: "wire list \<Rightarrow> f64 list" where
  "all_told ws = concat (map (\<lambda>w. case told w of None \<Rightarrow> [] | Some d \<Rightarrow> [d]) ws)"

lemma ledger_simps [simp]:
  "changes [] = []" "changes (a @ b) = changes a @ changes b" "changes [Changed d] = [d]" "changes [Lost d] = []"
  "losses [] = []" "losses (a @ b) = losses a @ losses b" "losses [Changed d] = []" "losses [Lost d] = [d]"
  "all_told [] = []" "all_told (u @ v) = all_told u @ all_told v" "told w = Some d \<Longrightarrow> all_told [w] = [d]"
  "\<forall>w\<in>set ws. told w = None \<Longrightarrow> all_told ws = []"
  by (simp_all add: changes_def losses_def all_told_def)

text \<open>A stored difficulty whose announcement is still to come.\<close>

definition due :: "f64 \<Rightarrow> job_pc \<Rightarrow> f64 multiset" where
  "due minDiff pc = (case pc of AtAnnounce d \<Rightarrow> {#d#} | AtRegister \<Rightarrow> {#minDiff#} | AtGreet \<Rightarrow> {#minDiff#} | _ \<Rightarrow> {#})"

definition dues :: "f64 \<Rightarrow> (f64 \<times> job_pc) list \<Rightarrow> f64 multiset" where
  "dues minDiff js = sum_list (map (\<lambda>j. due minDiff (snd j)) js)"

lemma dues_update:
  "i < length js \<Longrightarrow> dues m (js[i := (n, pc')]) + due m (snd (js ! i)) = dues m js + due m pc'"
proof (induction js arbitrary: i)
  case (Cons j js)
  then show ?case by (cases i) (auto simp: dues_def ac_simps)
qed simp

text \<open>The books on difficulties: each that was stored was announced, lost or is due.\<close>

definition diff_ledger :: "f64 \<Rightarrow> 'tx client \<Rightarrow> diff_event list \<Rightarrow> (f64 \<times> job_pc) list \<Rightarrow> 'tx client \<Rightarrow> bool" where
  "diff_ledger minDiff cl tr js cl' \<longleftrightarrow> \<not> IsSV2 cl'
     \<and> GetStratumDiffValue (State cl') = last (GetStratumDiffValue (State cl) # changes tr)
     \<and> (\<exists>news. all_told (sent cl') = all_told (sent cl) @ news
          \<and> mset (changes tr) = mset news + mset (losses tr) + dues minDiff js)"

lemma send_diff_either:
  assumes "sendClientDiff d cl sh = (cl', sh')"
  shows "State cl' = State cl \<and> IsSV2 cl' = IsSV2 cl
    \<and> (sent cl' = sent cl \<or> (\<exists>w. sent cl' = sent cl @ [w] \<and> told w = Some d))"
proof -
  let ?e = "\<lparr>eventId = ANil, jsonrpc = ''2.0'', Method = ''mining.set_difficulty'', Params = [AFloat d]\<rparr>"
  obtain r c where s: "Send ?e cl = (r, c)" by fastforce
  have "told (WEvent ?e) = Some d" by (simp add: told_def)
  then show ?thesis
    using assms snd.out_client [OF s] snd.out_sent [OF s]
    by (auto simp: sendClientDiff_def s IsSV2_def handler split: option.splits if_splits)
qed

text \<open>An action that stores no difficulty and announces none.\<close>

lemma ledger_stays:
  assumes "diff_ledger m cl tr js c" and "i < length js" and "js ! i = (n, pc)"
    and "diff_events m pc c c' = []" and "due m pc' = due m pc" and "State c' = State c" "IsSV2 c' = IsSV2 c" "sent c' = sent c"
  shows "diff_ledger m cl (tr @ diff_events m pc c c') (js[i := (n, pc')]) c'"
  using assms dues_update [of i js m n pc'] by (simp add: diff_ledger_def)

text \<open>An action that announces the difficulty that is due, or fails to.\<close>

lemma ledger_told:
  assumes inv: "diff_ledger m cl tr js c" and i: "i < length js" "js ! i = (n, pc)"
    and due: "due m pc = {#d#}" "due m pc' = {#}" and ev: "diff_events m pc c c' = (if sent c' = sent c then [Lost d] else [])"
    and send: "sendClientDiff d c sh = (c', sh')"
  shows "diff_ledger m cl (tr @ diff_events m pc c c') (js[i := (n, pc')]) c'"
proof -
  obtain news where news: "all_told (sent c) = all_told (sent cl) @ news"
    "mset (changes tr) = mset news + mset (losses tr) + dues m js" using inv by (auto simp: diff_ledger_def)
  have js: "dues m js = add_mset d (dues m (js[i := (n, pc')]))"
    using dues_update [OF i(1), of m n pc'] i(2) due by simp
  from send_diff_either [OF send] show ?thesis
  proof (elim conjE disjE exE)
    assume "sent c' = sent c" "State c' = State c" "IsSV2 c' = IsSV2 c"
    then show ?thesis using inv news js by (auto simp: diff_ledger_def ev)
  next
    fix w assume w: "sent c' = sent c @ [w]" "told w = Some d" "State c' = State c" "IsSV2 c' = IsSV2 c"
    then have "\<exists>ns. all_told (sent c') = all_told (sent cl) @ ns
        \<and> mset (changes tr) = mset ns + mset (losses tr) + dues m (js[i := (n, pc')])"
      using news js by (intro exI [of _ "news @ [d]"]) simp
    then show ?thesis using inv w by (simp add: diff_ledger_def ev)
  qed
qed

text \<open>An action that stores a difficulty, whose announcement is due then.\<close>

lemma ledger_stored:
  assumes inv: "diff_ledger m cl tr js c" and i: "i < length js" "js ! i = (n, pc)"
    and due: "due m pc = {#}" "due m pc' = {#d#}" and ev: "diff_events m pc c c' = [Changed d]"
    and c': "GetStratumDiffValue (State c') = d" "IsSV2 c' = IsSV2 c" "sent c' = sent c"
  shows "diff_ledger m cl (tr @ diff_events m pc c c') (js[i := (n, pc')]) c'"
  using inv c' dues_update [OF i(1), of m n pc'] i(2) due by (auto simp: diff_ledger_def ev)

lemma ledger_step:
  assumes inv: "diff_ledger m cl tr js c" and i: "i < length js" and j: "js ! i = (n, pc)"
    and atom: "adjust_atom now False m n pc c sh = Some (pc', c', sh')"
  shows "diff_ledger m cl (tr @ diff_events m pc c c') (js[i := (n, pc')]) c'"
proof -
  have v2: "\<not> IsSV2 c" using inv by (simp add: diff_ledger_def)
  note stays = ledger_stays [OF inv i j] and atom = atom [unfolded adjust_atom_def]
  show ?thesis
  proof (cases pc)
    case AtInitialize
    then obtain isNew ms where r: "InitializeIfNeeded (RemoteApp c) m (State c) = Some (isNew, ms)"
      and res: "pc' = (if isNew then AtRegister else AtSolo)" "c' = c\<lparr>State := ms\<rparr>"
      using atom by (auto split: option.splits prod.splits)
    show ?thesis
    proof (cases isNew)
      case True
      then have "\<not> initialized (State c)" using r by (auto simp: InitializeIfNeeded_def split: if_splits)
      then show ?thesis using True InitializeIfNeeded_value [OF r] AtInitialize
        by (intro ledger_stored [OF inv i j, where d = m]) (simp_all add: res due_def diff_events_def IsSV2_def)
    next
      case False
      then have "initialized (State c)" "ms = State c" using InitializeIfNeeded_value [OF r] by simp_all
      then show ?thesis using False AtInitialize by (intro stays) (simp_all add: res due_def diff_events_def)
    qed
  next
    case AtGreet
    then show ?thesis
      using atom by (intro ledger_told [OF inv i j, where d = m and sh = sh and sh' = sh'])
        (auto simp: due_def diff_events_def split: prod.splits)
  next
    case (AtStore d)
    then obtain old ms where r: "SetStratumDiff d (State c) = Some (old, ms)" and res: "pc' = AtAnnounce d" "c' = c\<lparr>State := ms\<rparr>"
      using atom by (auto split: option.splits)
    then show ?thesis using SetStratumDiff_value [OF r] AtStore
      by (intro ledger_stored [OF inv i j, where d = d]) (simp_all add: due_def diff_events_def IsSV2_def)
  next
    case (AtAnnounce d)
    then show ?thesis
      using atom v2 by (intro ledger_told [OF inv i j, where d = d and sh = sh and sh' = sh'])
        (auto simp: due_def diff_events_def split: prod.splits)
  qed (intro stays; use atom v2 in \<open>auto simp: due_def diff_events_def Let_def split: prod.splits\<close>)+
qed

lemma ledger_run:
  assumes "adjust_run False m js cl sh tr js' cl' sh'" and "\<not> IsSV2 cl" and "\<forall>j\<in>set js. snd j = AtInitialize"
  shows "diff_ledger m cl tr js' cl'"
  using assms(1)
proof (induction rule: adjust_run.induct)
  case start
  have "dues m js = {#}" using assms(3) by (induction js) (auto simp: dues_def due_def)
  then show ?case using assms(2) by (simp add: diff_ledger_def)
next
  case (act tr js' cl' sh' i netDiff pc now pc' cl'' sh'')
  then show ?case by (intro ledger_step) auto
next
  case (others tr js' cl' sh' cl'' ws sh'')
  then show ?case by (simp add: diff_ledger_def)
qed

text \<open>
  C11: job goroutines that serve a Stratum V1 pool miner and overlap, in any order of their actions and whatever
  happens to the connection and to the share handler in between. When all of them are done, the difficulty by which the
  miner's shares are judged is the last one that was stored, or the old one if none was; and the difficulties that
  the miner was told meanwhile are exactly those that were stored, each as often, less those whose announcement
  failed. The order may differ (see below). So if no announcement failed and a difficulty was stored, the miner
  was told the one in use.
\<close>

theorem races_announce:
  assumes "adjust_run False minDiff js cl sh tr js' cl' sh'" and "\<not> IsSV2 cl"
    and "\<forall>j\<in>set js. snd j = AtInitialize" and "\<forall>j\<in>set js'. \<exists>on. snd j = Adjusted on"
  shows "GetStratumDiffValue (State cl') = last (GetStratumDiffValue (State cl) # changes tr)
    \<and> (\<exists>news. all_told (sent cl') = all_told (sent cl) @ news \<and> mset news + mset (losses tr) = mset (changes tr)
         \<and> (losses tr = [] \<and> changes tr \<noteq> [] \<longrightarrow> GetStratumDiffValue (State cl') \<in> set news))"
proof -
  note l = ledger_run [OF assms(1-3), unfolded diff_ledger_def]
  obtain news where news: "all_told (sent cl') = all_told (sent cl) @ news"
    "mset (changes tr) = mset news + mset (losses tr) + dues minDiff js'" using l by blast
  have "dues minDiff js' = {#}" using assms(4) by (induction js') (auto simp: dues_def due_def)
  then have eq: "mset news + mset (losses tr) = mset (changes tr)" using news(2) by simp
  have "last (changes tr) \<in> set news" if "losses tr = []" "changes tr \<noteq> []"
  proof -
    have "set news = set (changes tr)" using eq that(1) by (metis add.right_neutral mset.simps(1) set_mset_mset)
    then show ?thesis using that(2) by simp
  qed
  then show ?thesis using l news(1) eq by auto
qed

subsection \<open>Which announcement is the last\<close>

lemma healthy_state [simp]: "healthy (cl\<lparr>State := ms\<rparr>) = healthy cl" "healthy (cl\<lparr>sent := ws\<rparr>) = healthy cl"
  by (simp_all add: healthy_def IsSV2_def)

text \<open>A run without its record.\<close>

definition adjust_ends :: "bool \<Rightarrow> f64 \<Rightarrow> (f64 \<times> job_pc) list \<Rightarrow> 'tx client \<Rightarrow> shareHandler
    \<Rightarrow> (f64 \<times> job_pc) list \<Rightarrow> 'tx client \<Rightarrow> shareHandler \<Rightarrow> bool" where
  "adjust_ends solo minDiff js cl sh js' cl' sh' \<longleftrightarrow> (\<exists>tr. adjust_run solo minDiff js cl sh tr js' cl' sh')"

lemma ends_start: "adjust_ends solo m js cl sh js cl sh"
  unfolding adjust_ends_def by (blast intro: start)

lemma ends_share_handler: "adjust_ends solo m js cl sh js' cl' sh' \<Longrightarrow> adjust_ends solo m js cl sh js' cl' sh''"
  unfolding adjust_ends_def by (elim exE, rule exI, rule others [where ws = "[]"]) auto

lemma pair_acts:
  assumes "adjust_ends solo m js cl sh [(n, p), (n', q)] cl' sh'"
  shows "adjust_atom now solo m n p cl' sh' = Some (p', cl'', sh'') \<Longrightarrow> adjust_ends solo m js cl sh [(n, p'), (n', q)] cl'' sh''"
    and "adjust_atom now solo m n' q cl' sh' = Some (q', cl'', sh'') \<Longrightarrow> adjust_ends solo m js cl sh [(n, p), (n', q')] cl'' sh''"
proof -
  obtain tr where r: "adjust_run solo m js cl sh tr [(n, p), (n', q)] cl' sh'" using assms by (auto simp: adjust_ends_def)
  show "adjust_atom now solo m n p cl' sh' = Some (p', cl'', sh'') \<Longrightarrow> adjust_ends solo m js cl sh [(n, p'), (n', q)] cl'' sh''"
    "adjust_atom now solo m n' q cl' sh' = Some (q', cl'', sh'') \<Longrightarrow> adjust_ends solo m js cl sh [(n, p), (n', q')] cl'' sh''"
    using act [OF r, of 0 n p now p' cl'' sh''] act [OF r, of 1 n' q now q' cl'' sh''] by (auto simp: adjust_ends_def)
qed

lemma vardiff_solo: "fst (getClientVardiff now cl (setSoloDiff d sh)) = fst (getClientVardiff now cl sh)"
  by (simp add: getClientVardiff_def setSoloDiff_def getCreateStats_def Let_def split: prod.split option.split)

text \<open>Both goroutines read the difficulty of the worker, and in between it changes.\<close>

lemma both_read:
  assumes "initialized (State cl)" and "fst (getClientVardiff now cl sh) = d"
    and "worker_diffs finite_f64 sh'" and "fst (getClientVardiff now cl sh') = e"
  shows "\<exists>sh''. adjust_ends False minDiff [(n, AtInitialize), (n, AtInitialize)] cl sh [(n, AtCurrent d), (n, AtCurrent e)] cl sh''"
proof -
  let ?r = "adjust_ends False minDiff [(n, AtInitialize), (n, AtInitialize)] cl sh"
  let ?j = "\<lambda>p q. [(n, p), (n, q)]"
  have init: "InitializeIfNeeded (RemoteApp cl) minDiff (State cl) = Some (False, State cl)"
    using assms(1) by (simp add: InitializeIfNeeded_def)
  obtain sh1 where sh1: "getClientVardiff now cl (setSoloDiff n sh) = (d, sh1)"
    using assms(2) vardiff_solo [of now cl n sh] by (metis prod.collapse)
  obtain sh2 where sh2: "getClientVardiff now cl (setSoloDiff n sh') = (e, sh2)"
    using assms(4) vardiff_solo [of now cl n sh'] by (metis prod.collapse)
  note at = adjust_atom_def init sh1 sh2
  have "?r (?j AtInitialize AtInitialize) cl sh" by (rule ends_start)
  then have "?r (?j AtSolo AtInitialize) cl sh" by (rule pair_acts(1) [where now = now]) (simp add: at)
  then have "?r (?j AtSolo AtSolo) cl sh" by (rule pair_acts(2) [where now = now]) (simp add: at)
  then have "?r (?j AtRead AtSolo) cl (setSoloDiff n sh)" by (rule pair_acts(1) [where now = now]) (simp add: at)
  then have "?r (?j (AtCurrent d) AtSolo) cl sh1" by (rule pair_acts(1) [where now = now]) (simp add: at)
  then have "?r (?j (AtCurrent d) AtSolo) cl sh'" by (rule ends_share_handler)
  then have "?r (?j (AtCurrent d) AtRead) cl (setSoloDiff n sh')" by (rule pair_acts(2) [where now = now]) (simp add: at)
  then have "?r (?j (AtCurrent d) (AtCurrent e)) cl sh2" by (rule pair_acts(2) [where now = now]) (simp add: at)
  then show ?thesis ..
qed

text \<open>Then the second one stores and announces while the first one waits between storing and announcing.\<close>

lemma overtakes:
  assumes run: "adjust_ends False minDiff js cl0 sh0 [(n, AtCurrent (Fin d)), (n, AtCurrent (Fin e))] cl sh"
    and h: "healthy cl" and c: "GetStratumDiffValue (State cl) = Fin c" and ne: "distinct [0, c, d, e]"
    and "diff_ok (Fin d)" and "diff_ok (Fin e)"
  shows "\<exists>ms ws sh'. adjust_ends False minDiff js cl0 sh0 [(n, Adjusted True), (n, Adjusted True)] (cl\<lparr>State := ms, sent := ws\<rparr>) sh'
    \<and> initialized ms = initialized (State cl) \<and> GetStratumDiffValue ms = Fin e \<and> announced ws = Some (Fin d)"
proof -
  let ?r = "adjust_ends False minDiff js cl0 sh0" and ?j = "\<lambda>p q. [(n, p), (n, q)]"
  have v2: "\<not> IsSV2 cl" using h by (simp add: healthy_def)
  have ne: "\<not> f64_eq (Fin d) 0" "\<not> f64_eq (Fin e) 0" "\<not> f64_eq (Fin d) (Fin c)" "\<not> f64_eq (Fin e) (Fin d)"
    using ne by (auto simp: f64_eq_def zero_f64_def)
  obtain o1 ms1 where ms1: "SetStratumDiff (Fin d) (State cl) = Some (o1, ms1)" "GetStratumDiffValue ms1 = Fin d"
    using SetStratumDiff_ok [OF assms(5)] by blast
  obtain o2 ms where ms2: "SetStratumDiff (Fin e) ms1 = Some (o2, ms)" "GetStratumDiffValue ms = Fin e"
    using SetStratumDiff_ok [OF assms(6)] by blast
  let ?cl1 = "cl\<lparr>State := ms1\<rparr>" and ?cl2 = "cl\<lparr>State := ms\<rparr>"
  obtain w where w: "sendClientDiff (Fin e) ?cl2 sh = (?cl2\<lparr>sent := sent cl @ [w]\<rparr>, sh)" "told w = Some (Fin e)"
    using sendClientDiff_quiet [of ?cl2 "Fin e" sh] h by auto
  let ?cl3 = "?cl2\<lparr>sent := sent cl @ [w]\<rparr>" and ?sh3 = "startClientVardiff now (?cl2\<lparr>sent := sent cl @ [w]\<rparr>) sh"
  obtain u where u: "sendClientDiff (Fin d) ?cl3 ?sh3 = (?cl3\<lparr>sent := (sent cl @ [w]) @ [u]\<rparr>, ?sh3)" "told u = Some (Fin d)"
    using sendClientDiff_quiet [of ?cl3 "Fin d" ?sh3] h by auto
  let ?ws = "(sent cl @ [w]) @ [u]"
  note at = adjust_atom_def c ne ms1 ms2 Let_def
  from run have "?r (?j (AtStore (Fin d)) (AtCurrent (Fin e))) cl sh" by (rule pair_acts(1)) (simp add: at)
  then have "?r (?j (AtAnnounce (Fin d)) (AtCurrent (Fin e))) ?cl1 sh" by (rule pair_acts(1)) (simp add: at)
  then have "?r (?j (AtAnnounce (Fin d)) (AtStore (Fin e))) ?cl1 sh" by (rule pair_acts(2)) (simp add: at)
  then have "?r (?j (AtAnnounce (Fin d)) (AtAnnounce (Fin e))) ?cl2 sh" by (rule pair_acts(2)) (simp add: at)
  then have "?r (?j (AtAnnounce (Fin d)) AtRestart) ?cl3 sh" by (rule pair_acts(2)) (use v2 w in \<open>simp add: adjust_atom_def IsSV2_def\<close>)
  then have "?r (?j (AtAnnounce (Fin d)) (Adjusted True)) ?cl3 ?sh3" by (rule pair_acts(2)) (simp add: adjust_atom_def)
  then have "?r (?j AtRestart (Adjusted True)) (?cl2\<lparr>sent := ?ws\<rparr>) ?sh3"
    by (rule pair_acts(1)) (use v2 u in \<open>simp add: adjust_atom_def IsSV2_def\<close>)
  then have "?r (?j (Adjusted True) (Adjusted True)) (?cl2\<lparr>sent := ?ws\<rparr>) (startClientVardiff now (?cl2\<lparr>sent := ?ws\<rparr>) ?sh3)"
    by (rule pair_acts(1)) (simp add: adjust_atom_def)
  moreover have "announced ?ws = Some (Fin d)" using u(2) by (simp only: announced_snoc) simp
  moreover have "initialized ms = initialized (State cl)"
    using SetStratumDiff_value [OF ms1(1)] SetStratumDiff_value [OF ms2(1)] by simp
  ultimately show ?thesis using ms2(2) by blast
qed

lemma overtaken_run:
  assumes "healthy cl" and "initialized (State cl)"
    and "GetStratumDiffValue (State cl) = Fin c" and "distinct [0, c, d, e]" and "diff_ok (Fin d)" and "diff_ok (Fin e)"
    and "fst (getClientVardiff now cl sh) = Fin d"
    and "worker_diffs finite_f64 sh'" and "fst (getClientVardiff now cl sh') = Fin e"
  shows "\<exists>cl' sh''. adjust_ends False minDiff [(netDiff, AtInitialize), (netDiff, AtInitialize)] cl sh
      [(netDiff, Adjusted True), (netDiff, Adjusted True)] cl' sh''
    \<and> initialized (State cl') \<and> healthy cl' \<and> GetStratumDiffValue (State cl') = Fin e \<and> announced (sent cl') = Some (Fin d)"
proof -
  from both_read [OF assms(2,7-9)] obtain sh'' where
    "adjust_ends False minDiff [(netDiff, AtInitialize), (netDiff, AtInitialize)] cl sh
      [(netDiff, AtCurrent (Fin d)), (netDiff, AtCurrent (Fin e))] cl sh''" by blast
  from overtakes [OF this assms(1,3-6)] obtain ms ws sh3 where
    run: "adjust_ends False minDiff [(netDiff, AtInitialize), (netDiff, AtInitialize)] cl sh
      [(netDiff, Adjusted True), (netDiff, Adjusted True)] (cl\<lparr>State := ms, sent := ws\<rparr>) sh3"
    and "initialized ms" "GetStratumDiffValue ms = Fin e" "announced ws = Some (Fin d)"
    using assms(2) by blast
  then show ?thesis using assms(1) by (intro exI [of _ "cl\<lparr>State := ms, sent := ws\<rparr>"] exI [of _ sh3]) simp
qed

text \<open>
  But it need not be the last one that the miner was told. Two job goroutines of a connection read the
  difficulty of the worker, between them the difficulty thread changes it from \<open>d\<close> to \<open>e\<close>; the first one is
  overtaken between storing \<open>d\<close> and announcing it. Then the miner works at \<open>d\<close>, and its shares are judged
  by \<open>e\<close>.
\<close>

theorem overtaken_announcement:
  assumes "healthy cl" and "initialized (State cl)"
    and "GetStratumDiffValue (State cl) = Fin c" and "distinct [0, c, d, e]" and "diff_ok (Fin d)" and "diff_ok (Fin e)"
    and "fst (getClientVardiff now cl sh) = Fin d"
    and "worker_diffs finite_f64 sh'" and "fst (getClientVardiff now cl sh') = Fin e"
  shows "\<exists>cl' sh''. adjust_ends False minDiff [(netDiff, AtInitialize), (netDiff, AtInitialize)] cl sh
      [(netDiff, Adjusted True), (netDiff, Adjusted True)] cl' sh''
    \<and> healthy cl' \<and> GetStratumDiffValue (State cl') = Fin e \<and> announced (sent cl') = Some (Fin d)"
  using overtaken_run [OF assms] by blast

text \<open>The difference stays: while the difficulty of the worker does not change, no goroutine announces it again.\<close>

lemma difference_stays:
  assumes "initialized (State cl)" and "GetStratumDiffValue (State cl) = Fin e"
    and "fst (getClientVardiff now cl sh) = Fin e"
  shows "\<exists>sh'. adjustDiff now False minDiff netDiff cl sh = Some (True, cl, sh')"
proof -
  obtain sh1 where "getClientVardiff now cl (setSoloDiff netDiff sh) = (Fin e, sh1)"
    using assms(3) vardiff_solo [of now cl netDiff sh] by (metis prod.collapse)
  then show ?thesis using assms(1,2)
    by (simp add: adjustDiff_def initClient_def InitializeIfNeeded_def chooseDiff_def f64_eq_def Let_def)
qed

subsection \<open>Two goroutines at work\<close>

definition racing_miner :: "unit client" where
  "racing_miner = sample_miner\<lparr>State := sample_mining, sent := [WEvent \<lparr>eventId = ANil, jsonrpc = ''2.0'',
     Method = ''mining.set_difficulty'', Params = [AFloat (Fin 1)]\<rparr>]\<rparr>"

definition racing_shares :: "f64 \<Rightarrow> shareHandler" where
  "racing_shares d = newShareHandler\<lparr>stats := [workerStatsKey racing_miner \<mapsto> 0], heap := \<lambda>_. newWorkStats\<lparr>MinDiff := d\<rparr>\<rparr>"

lemma racing:
  "healthy racing_miner" "agrees racing_miner" "initialized (State racing_miner)" "GetStratumDiffValue (State racing_miner) = Fin 1"
  "fst (getClientVardiff now racing_miner (racing_shares d)) = d" "finite_f64 d \<Longrightarrow> worker_diffs finite_f64 (racing_shares d)"
  by (simp_all add: racing_miner_def sample_miner_def sample_mining_def healthy_def agrees_def IsSV2_def announced_def told_def
      GetStratumDiffValue_def one_f64_def racing_shares_def getClientVardiff_def getCreateStats_def worker_diffs_def Let_def)

theorem overtaken_announcement_witness:
  "\<exists>cl' sh''. adjust_ends False (Fin 1) [(Fin 9, AtInitialize), (Fin 9, AtInitialize)] racing_miner (racing_shares (Fin 2))
      [(Fin 9, Adjusted True), (Fin 9, Adjusted True)] cl' sh''
    \<and> GetStratumDiffValue (State cl') = Fin 4 \<and> announced (sent cl') = Some (Fin 2)"
  using overtaken_announcement [of racing_miner 1 2 4 5 "racing_shares (Fin 2)" "racing_shares (Fin 4)" "Fin 1" "Fin 9"] racing
  by (auto simp: diff_ok_def)

theorem races_announce_witness:
  "\<exists>tr cl' sh''. adjust_run False (Fin 1) [(Fin 9, AtInitialize), (Fin 9, AtInitialize)] racing_miner (racing_shares (Fin 2)) tr
      [(Fin 9, Adjusted True), (Fin 9, Adjusted True)] cl' sh''
    \<and> GetStratumDiffValue (State cl') = Fin 4 \<and> Fin 4 = last (Fin 1 # changes tr)"
proof -
  obtain tr cl' sh'' where run: "adjust_run False (Fin 1) [(Fin 9, AtInitialize), (Fin 9, AtInitialize)] racing_miner (racing_shares (Fin 2)) tr
      [(Fin 9, Adjusted True), (Fin 9, Adjusted True)] cl' sh''" and v: "GetStratumDiffValue (State cl') = Fin 4"
    using overtaken_run [of racing_miner 1 2 4 5 "racing_shares (Fin 2)" "racing_shares (Fin 4)" "Fin 1" "Fin 9"] racing
    by (auto simp: diff_ok_def adjust_ends_def)
  have v1: "\<not> IsSV2 racing_miner" by (simp add: racing_miner_def sample_miner_def IsSV2_def)
  have ready: "\<forall>j\<in>set [(Fin 9, AtInitialize), (Fin 9, AtInitialize)]. snd j = AtInitialize" by simp
  have ended: "\<forall>j\<in>set [(Fin 9, Adjusted True), (Fin 9, Adjusted True)]. \<exists>on. snd j = Adjusted on" by auto
  from races_announce [OF run v1 ready ended] have "Fin 4 = last (Fin 1 # changes tr)" using v racing(4) by simp
  then show ?thesis using run v by blast
qed

end
