(* ===== verification/Writers.thy ===== *)
theory Writers
  imports Json "HOL-Library.Multiset"
begin

text \<open>
  The goroutines that write to one connection, one atomic action after the other: \<^verbatim>\<open>Reply\<close>, \<^verbatim>\<open>Send\<close>,
  \<^verbatim>\<open>WriteRaw\<close>, \<^verbatim>\<open>writeWithBackoff\<close>, \<^verbatim>\<open>write\<close> and \<^verbatim>\<open>Disconnect\<close> of \<^verbatim>\<open>src/gostratum/stratum_context.go\<close>. The
  lock is a number that is compared and swapped; the socket takes a message in pieces and may refuse at
  any time; a failed write starts a goroutine that disconnects.
\<close>

subsection \<open>The actions of one goroutine\<close>

text \<open>A goroutine that writes a message, with the bytes that the socket took, or one that disconnects.
  \<open>AtSwap i\<close> is the compare-and-swap of attempt \<open>i\<close>, \<open>AtRelease\<close> the deferred release of the lock.\<close>

datatype write_pc = AtEntry | AtSwap nat | AtDeadline | AtWrite | AtRelease "go_error option" | Returned "go_error option"

datatype close_pc = CloserSwap | CloserClose | CloserOffer | CloserDone

datatype task = Writer wire nat write_pc | Closer close_pc

record 'st shared_conn =
  conn :: "'st StratumContext"
  writeLock :: u32
  line :: "byte list"

text \<open>What the socket does next, if it is asked: take some more bytes, or refuse.\<close>

datatype net_choice = Take nat | Refuse

definition marshal_error :: "wire \<Rightarrow> go_error option" where
  "marshal_error w = (case w of
     WResponse r \<Rightarrow> if response_ok r then None else Some (ErrOther ''failed encoding jsonrpc response'')
   | WEvent e \<Rightarrow> if event_ok e then None else Some (ErrOther ''failed encoding jsonrpc event'')
   | WRaw bs \<Rightarrow> None)"

definition write_atom :: "net_choice \<Rightarrow> wire \<Rightarrow> nat \<Rightarrow> write_pc \<Rightarrow> 'st shared_conn \<Rightarrow> nat \<times> write_pc \<times> 'st shared_conn \<times> task list" where
  "write_atom c w n pc sh = (case pc of
     AtEntry \<Rightarrow>
       (if disconnecting (conn sh) then (n, Returned (Some ErrorDisconnected), sh, [])
        else if marshal_error w \<noteq> None then (n, Returned (marshal_error w), sh, [])
        else (n, AtSwap 0, sh, []))
   | AtSwap i \<Rightarrow>
       (if \<not> i < 3 then (n, Returned (Some (ErrOther ''failed writing to socket after 3 attempts'')), sh, [])
        else if writeLock sh = 0 then (n, AtDeadline, sh\<lparr>writeLock := 1\<rparr>, [])
        else (n, AtSwap (i + 1), sh, []))
   | AtDeadline \<Rightarrow>
       (if connClosed (conn sh) \<or> c = Refuse
        then (n, AtRelease (Some (ErrOther ''failed setting write deadline for connection'')), sh, [])
        else (n, AtWrite, sh, []))
   | AtWrite \<Rightarrow>
       (if n = length (wire_bytes w)
        then (n, AtRelease None, sh\<lparr>conn := (conn sh)\<lparr>sent := sent (conn sh) @ [w]\<rparr>\<rparr>, [])
        else case (if connClosed (conn sh) then Refuse else c) of
          Take k \<Rightarrow> (let more = take (Suc k) (drop n (wire_bytes w))
                    in (n + length more, AtWrite, sh\<lparr>line := line sh @ more\<rparr>, []))
        | Refuse \<Rightarrow> (n, AtRelease (Some (ErrOther ''write'')), sh, [Closer CloserSwap]))
   | AtRelease e \<Rightarrow> (n, Returned e, sh\<lparr>writeLock := 0\<rparr>, [])
   | Returned e \<Rightarrow> (n, Returned e, sh, []))"

definition close_atom :: "close_pc \<Rightarrow> 'st StratumContext \<Rightarrow> close_pc \<times> 'st StratumContext" where
  "close_atom pc sc = (case pc of
     CloserSwap \<Rightarrow> if disconnecting sc then (CloserDone, sc) else (CloserClose, sc\<lparr>disconnecting := True\<rparr>)
   | CloserClose \<Rightarrow> (CloserOffer, sc\<lparr>connClosed := True\<rparr>)
   | CloserOffer \<Rightarrow> (CloserDone, if onDisconnect sc = Some True then sc\<lparr>queued := queued sc + 1\<rparr> else sc)
   | CloserDone \<Rightarrow> (CloserDone, sc))"

fun task_atom :: "net_choice \<Rightarrow> task \<Rightarrow> 'st shared_conn \<Rightarrow> task \<times> 'st shared_conn \<times> task list" where
  "task_atom c (Writer w n pc) sh = (case write_atom c w n pc sh of (n, pc, sh, new) \<Rightarrow> (Writer w n pc, sh, new))"
| "task_atom c (Closer pc) sh = (case close_atom pc (conn sh) of (pc, sc) \<Rightarrow> (Closer pc, sh\<lparr>conn := sc\<rparr>, []))"

text \<open>Alone, the goroutine that disconnects computes \<open>Disconnect\<close>.\<close>

lemma solo_close: "((\<lambda>(pc, sc). close_atom pc sc) ^^ 3) (CloserSwap, sc) = (CloserDone, Disconnect sc)"
  by (auto simp: numeral_3_eq_3 close_atom_def Disconnect_def Let_def split: option.splits bool.splits)

subsection \<open>Several goroutines\<close>

fun active :: "task \<Rightarrow> bool" where
  "active (Writer w n pc) \<longleftrightarrow> (\<forall>e. pc \<noteq> Returned e)"
| "active (Closer pc) \<longleftrightarrow> pc \<noteq> CloserDone"

text \<open>In any order, with the number of actions taken, while the listener may empty or fill the channel.\<close>

inductive conn_run :: "task list \<Rightarrow> 'st shared_conn \<Rightarrow> nat \<Rightarrow> task list \<Rightarrow> 'st shared_conn \<Rightarrow> bool"
  for ts sh where
  start: "conn_run ts sh 0 ts sh"
| act: "conn_run ts sh k ts' sh' \<Longrightarrow> i < length ts' \<Longrightarrow> active (ts' ! i) \<Longrightarrow> task_atom c (ts' ! i) sh' = (t, sh'', new)
    \<Longrightarrow> conn_run ts sh (Suc k) (ts'[i := t] @ new) sh''"
| channel: "conn_run ts sh k ts' sh' \<Longrightarrow> onDisconnect (conn sh') \<noteq> None
    \<Longrightarrow> conn_run ts sh k ts' (sh'\<lparr>conn := (conn sh')\<lparr>onDisconnect := Some room\<rparr>\<rparr>)"

definition at_start :: "task \<Rightarrow> bool" where
  "at_start t \<longleftrightarrow> (\<exists>w. t = Writer w 0 AtEntry) \<or> t = Closer CloserSwap"

text \<open>The parts of a task that the invariant adds up.\<close>

fun holds :: "task \<Rightarrow> nat" where
  "holds (Writer w n pc) = (case pc of AtDeadline \<Rightarrow> 1 | AtWrite \<Rightarrow> 1 | AtRelease e \<Rightarrow> 1 | _ \<Rightarrow> 0)"
| "holds (Closer pc) = 0"

fun under_way :: "task \<Rightarrow> byte list" where
  "under_way (Writer w n AtWrite) = take n (wire_bytes w)"
| "under_way t = []"

text \<open>The writes that are over, with the bytes that went out.\<close>

fun ended :: "task \<Rightarrow> (wire \<times> nat) multiset" where
  "ended (Writer w n (AtRelease e)) = (if e = None \<or> 0 < n then {#(w, n)#} else {#})"
| "ended (Writer w n (Returned e)) = (if e = None \<or> 0 < n then {#(w, n)#} else {#})"
| "ended t = {#}"

fun budget :: "task \<Rightarrow> nat" where
  "budget (Writer w n pc) = (case pc of
     AtEntry \<Rightarrow> length (wire_bytes w) + 11
   | AtSwap i \<Rightarrow> length (wire_bytes w) + 7 + (3 - i)
   | AtDeadline \<Rightarrow> length (wire_bytes w) + 6
   | AtWrite \<Rightarrow> (length (wire_bytes w) - n) + 5
   | AtRelease e \<Rightarrow> 1
   | Returned e \<Rightarrow> 0)"
| "budget (Closer pc) = (case pc of CloserSwap \<Rightarrow> 3 | CloserClose \<Rightarrow> 2 | CloserOffer \<Rightarrow> 1 | CloserDone \<Rightarrow> 0)"

definition whole :: "wire \<times> nat \<Rightarrow> bool" where
  "whole s \<longleftrightarrow> snd s = length (wire_bytes (fst s))"

definition piece :: "wire \<times> nat \<Rightarrow> byte list" where
  "piece s = take (snd s) (wire_bytes (fst s))"

text \<open>The counts of one writer.\<close>

fun writer_ok :: "task \<Rightarrow> bool" where
  "writer_ok (Writer w n pc) = (case pc of
     AtWrite \<Rightarrow> n \<le> length (wire_bytes w)
   | AtRelease e \<Rightarrow> if e = None then n = length (wire_bytes w) else n = 0 \<or> n < length (wire_bytes w)
   | Returned e \<Rightarrow> if e = None then n = length (wire_bytes w) else n = 0 \<or> n < length (wire_bytes w)
   | _ \<Rightarrow> n = 0)"
| "writer_ok (Closer pc) = True"

subsection \<open>The line is made of whole messages and of beginnings\<close>

lemma under_way_only: "holds t = 0 \<Longrightarrow> under_way t = []"
  by (cases t rule: under_way.cases) auto

lemma under_way_alone:
  assumes "i < length ts" and "sum_list (map holds ts) \<le> holds (ts ! i)"
  shows "concat (map under_way ts) = under_way (ts ! i)"
  using assms
proof (induction ts arbitrary: i)
  case (Cons u ts)
  have none: "concat (map under_way us) = []" if "sum_list (map holds us) = 0" for us
    using that by (auto simp: under_way_only)
  show ?case
  proof (cases i)
    case 0
    then show ?thesis using Cons.prems none [of ts] by simp
  next
    case (Suc j)
    then have "holds u + sum_list (map holds ts) \<le> holds (ts ! j)" "j < length ts" using Cons.prems by simp_all
    moreover from this have "holds (ts ! j) \<le> sum_list (map holds ts)" by (simp add: member_le_sum_list)
    ultimately show ?thesis using Suc Cons.IH [of j] by (simp add: under_way_only)
  qed
qed simp

lemma under_way_same:
  assumes "i < length ts" and "under_way t = under_way (ts ! i)" and "concat (map under_way new) = []"
  shows "concat (map under_way (ts[i := t] @ new)) = concat (map under_way ts)"
proof -
  have "map under_way (ts[i := t]) = map under_way ts"
    using assms(1,2) by (metis list_update_id map_update)
  then show ?thesis using assms(3) by (simp del: concat_eq_Nil_conv)
qed

definition write_inv :: "byte list \<Rightarrow> wire list \<Rightarrow> task list \<Rightarrow> 'st shared_conn \<Rightarrow> bool" where
  "write_inv line0 sent0 ts sh \<longleftrightarrow> list_all writer_ok ts
     \<and> sum_list (map holds ts) \<le> 1 \<and> writeLock sh = of_nat (sum_list (map holds ts))
     \<and> (\<exists>segs. mset segs = sum_list (map ended ts)
          \<and> line sh = line0 @ concat (map piece segs) @ concat (map under_way ts)
          \<and> sent (conn sh) = sent0 @ map fst (filter whole segs))"

text \<open>One goroutine moves on and writes \<open>bs\<close>; if its write is over, \<open>xs\<close> is the new segment.\<close>

lemma inv_update:
  assumes inv: "write_inv l s ts sh" and i: "i < length ts" and t: "writer_ok t" and new: "new = [] \<or> new = [Closer CloserSwap]"
    and lock: "sum_list (map holds (ts[i := t])) \<le> 1" "writeLock sh' = of_nat (sum_list (map holds (ts[i := t])))"
    and ended: "ended t = ended (ts ! i) + mset xs"
    and line: "line sh' = line sh @ bs"
      "concat (map piece xs) @ concat (map under_way (ts[i := t])) = concat (map under_way ts) @ bs"
    and sent: "sent (conn sh') = sent (conn sh) @ map fst (filter whole xs)"
  shows "write_inv l s (ts[i := t] @ new) sh'"
proof -
  obtain segs where segs: "mset segs = sum_list (map ended ts)"
    "line sh = l @ concat (map piece segs) @ concat (map under_way ts)" "sent (conn sh) = s @ map fst (filter whole segs)"
    using inv unfolding write_inv_def by (elim conjE exE) (rule that)
  have "list_all writer_ok (ts[i := t] @ new)"
    using inv t new i by (auto simp: write_inv_def list_all_iff dest: set_update_subset_insert [THEN subsetD])
  moreover have holds: "sum_list (map holds (ts[i := t] @ new)) = sum_list (map holds (ts[i := t]))" using new by auto
  moreover have "mset (segs @ xs) = sum_list (map ended (ts[i := t] @ new))"
  proof -
    have "sum_list (map ended (ts[i := t] @ new)) + ended (ts ! i) = mset segs + (ended (ts ! i) + mset xs)"
      using sum_step [OF i, of ended t new] new by (auto simp: segs(1) ended)
    then show ?thesis by (simp add: ac_simps)
  qed
  moreover have "line sh' = l @ concat (map piece (segs @ xs)) @ concat (map under_way (ts[i := t] @ new))"
    using new line(2) by (auto simp: line(1) segs(2))
  moreover have "sent (conn sh') = s @ map fst (filter whole (segs @ xs))" by (simp add: sent segs(3))
  ultimately show ?thesis using lock unfolding write_inv_def holds by (intro conjI exI [of _ "segs @ xs"])
qed

text \<open>Most actions leave the socket alone.\<close>

lemma inv_quiet:
  assumes inv: "write_inv l s ts sh" and i: "i < length ts" and t: "writer_ok t"
    and same: "holds t = holds (ts ! i)" "ended t = ended (ts ! i)" "under_way t = under_way (ts ! i)"
    and sh: "writeLock sh' = writeLock sh" "line sh' = line sh" "sent (conn sh') = sent (conn sh)"
  shows "write_inv l s (ts[i := t] @ []) sh'"
proof (rule inv_update [OF inv i t, where xs = "[]" and bs = "[]"])
  have "map holds (ts[i := t]) = map holds ts" using same(1) by (metis list_update_id map_update)
  then show "sum_list (map holds (ts[i := t])) \<le> 1" "writeLock sh' = of_nat (sum_list (map holds (ts[i := t])))"
    using inv sh(1) by (simp_all add: write_inv_def)
  show "concat (map piece []) @ concat (map under_way (ts[i := t])) = concat (map under_way ts) @ []"
    using under_way_same [OF i same(3), of "[]"] by simp
qed (use same sh in simp_all)

text \<open>The actions of a writer with the lock, or that takes it.\<close>

lemma holder_counts:
  assumes "write_inv l s ts sh" and "i < length ts"
  shows "sum_list (map holds (ts[i := t])) + holds (ts ! i) = sum_list (map holds ts) + holds t"
    and "holds (ts ! i) \<le> sum_list (map holds ts)" and "sum_list (map holds ts) \<le> 1"
    and "writeLock sh = of_nat (sum_list (map holds ts))" and "writer_ok (ts ! i)"
    and "holds (ts ! i) = 1 \<Longrightarrow> holds t \<le> 1 \<Longrightarrow> concat (map under_way (ts[i := t])) = under_way t
      \<and> concat (map under_way ts) = under_way (ts ! i)"
proof -
  show sum: "sum_list (map holds (ts[i := t])) + holds (ts ! i) = sum_list (map holds ts) + holds t"
    using sum_step [OF assms(2), of holds t "[]"] by simp
  show below: "holds (ts ! i) \<le> sum_list (map holds ts)" using assms(2) by (simp add: member_le_sum_list)
  show one: "sum_list (map holds ts) \<le> 1" "writeLock sh = of_nat (sum_list (map holds ts))" using assms(1) by (simp_all add: write_inv_def)
  show "writer_ok (ts ! i)" using assms by (simp add: write_inv_def list_all_length)
  show "concat (map under_way (ts[i := t])) = under_way t \<and> concat (map under_way ts) = under_way (ts ! i)"
    if "holds (ts ! i) = 1" "holds t \<le> 1"
    using under_way_alone [of i "ts[i := t]"] under_way_alone [of i ts] sum below one that assms(2) by simp
qed

lemma inv_lock:
  assumes inv: "write_inv l s ts sh" and i: "i < length ts" and t: "ts ! i = Writer w n (AtSwap k)"
    and free: "writeLock sh = 0"
  shows "write_inv l s (ts[i := Writer w n AtDeadline] @ []) (sh\<lparr>writeLock := 1\<rparr>)"
proof -
  note c = holder_counts [OF inv i]
  have "sum_list (map holds ts) = 0" using free c(3,4) by (cases "sum_list (map holds ts)") auto
  then have "sum_list (map holds (ts[i := Writer w n AtDeadline])) = 1"
    using c(1) [of "Writer w n AtDeadline"] t by simp
  moreover have "n = 0" using c(5) t by simp
  moreover have "concat (map under_way (ts[i := Writer w n AtDeadline])) = concat (map under_way ts)"
    using under_way_same [OF i, of "Writer w n AtDeadline" "[]"] t by simp
  ultimately show ?thesis using t by (intro inv_update [OF inv i, where xs = "[]" and bs = "[]"]) simp_all
qed

lemma inv_release:
  assumes inv: "write_inv l s ts sh" and i: "i < length ts" and t: "ts ! i = Writer w n (AtRelease e)"
  shows "write_inv l s (ts[i := Writer w n (Returned e)] @ []) (sh\<lparr>writeLock := 0\<rparr>)"
proof -
  note c = holder_counts [OF inv i]
  have "sum_list (map holds (ts[i := Writer w n (Returned e)])) = 0"
    using c(1) [of "Writer w n (Returned e)"] c(2,3) t by (simp del: sum_list_eq_0_iff)
  moreover have "concat (map under_way (ts[i := Writer w n (Returned e)])) = concat (map under_way ts)"
    using under_way_same [OF i, of "Writer w n (Returned e)" "[]"] t by simp
  ultimately show ?thesis
    using t c(5) by (intro inv_update [OF inv i, where xs = "[]" and bs = "[]"]) (simp_all del: sum_list_eq_0_iff)
qed

lemma inv_socket:
  assumes inv: "write_inv l s ts sh" and i: "i < length ts" and w: "ts ! i = Writer w n AtWrite"
    and atom: "task_atom c (Writer w n AtWrite) sh = (t, sh', new)"
  shows "write_inv l s (ts[i := t] @ new) sh'"
proof -
  note atom = atom [unfolded task_atom.simps write_atom_def]
  have ht: "holds t = 1" using atom by (auto split: if_splits net_choice.splits simp: Let_def)
  note counts = holder_counts [OF inv i]
  have n: "n \<le> length (wire_bytes w)" using counts(5) w by simp
  have lock: "sum_list (map holds (ts[i := t])) \<le> 1" "writeLock sh = of_nat (sum_list (map holds (ts[i := t])))"
    using counts(1) [of t] counts(3,4) w ht by simp_all
  have out: "concat (map under_way (ts[i := t])) = under_way t" "concat (map under_way ts) = take n (wire_bytes w)"
    using counts(6) [of t] ht w by simp_all
  consider (complete) "n = length (wire_bytes w)" | (took) k where "n \<noteq> length (wire_bytes w)" "\<not> connClosed (conn sh)" "c = Take k"
    | (refuse) "n \<noteq> length (wire_bytes w)" "connClosed (conn sh) \<or> c = Refuse"
    by (cases c) auto
  then show ?thesis
  proof cases
    case complete
    then have "t = Writer w n (AtRelease None)" "new = []" "sh' = sh\<lparr>conn := (conn sh)\<lparr>sent := sent (conn sh) @ [w]\<rparr>\<rparr>"
      using atom by auto
    then show ?thesis using w complete lock out
      by (intro inv_update [OF inv i, where xs = "[(w, n)]" and bs = "[]"]) (simp_all add: piece_def whole_def)
  next
    case (took k)
    let ?m = "take (Suc k) (drop n (wire_bytes w))"
    have "t = Writer w (n + length ?m) AtWrite" "new = []" "sh' = sh\<lparr>line := line sh @ ?m\<rparr>"
      using atom took by (auto simp: Let_def)
    moreover have "take (n + length ?m) (wire_bytes w) = take n (wire_bytes w) @ ?m"
      by (simp add: take_add min_def)
    ultimately show ?thesis using w lock out n
      by (intro inv_update [OF inv i, where xs = "[]" and bs = ?m]) simp_all
  next
    case refuse
    then have "t = Writer w n (AtRelease (Some (ErrOther ''write'')))" "new = [Closer CloserSwap]" "sh' = sh"
      using atom by auto
    then show ?thesis using w lock out n refuse
      by (intro inv_update [OF inv i, where xs = "if 0 < n then [(w, n)] else []" and bs = "[]"])
        (simp_all add: piece_def whole_def)
  qed
qed

lemma write_inv_step:
  assumes inv: "write_inv l s ts sh" and i: "i < length ts" and a: "active (ts ! i)" and atom: "task_atom c (ts ! i) sh = (t, sh', new)"
  shows "write_inv l s (ts[i := t] @ new) sh'"
proof (cases "ts ! i")
  case (Closer pc)
  obtain pc' sc where c: "close_atom pc (conn sh) = (pc', sc)" by fastforce
  moreover have "sent sc = sent (conn sh)" using c by (auto simp: close_atom_def split: close_pc.splits if_splits)
  ultimately show ?thesis using atom Closer by (auto intro!: inv_quiet [OF inv i, simplified])
next
  case (Writer w n pc)
  note ok = holder_counts(5) [OF inv i, unfolded Writer] and atom' = atom [unfolded Writer task_atom.simps write_atom_def]
  show ?thesis
  proof (cases pc)
    case (AtSwap k)
    show ?thesis
    proof (cases "k < 3 \<and> writeLock sh = 0")
      case True
      then show ?thesis using atom' AtSwap inv_lock [OF inv i] Writer by auto
    next
      case False
      then show ?thesis using atom' ok Writer AtSwap
        by (auto split: if_splits intro!: inv_quiet [OF inv i, simplified])
    qed
  next
    case AtWrite
    then show ?thesis using inv_socket [OF inv i] Writer atom by simp
  next
    case (AtRelease e)
    then show ?thesis using atom' inv_release [OF inv i] Writer by auto
  next
    case (Returned e)
    then show ?thesis using a Writer by simp
  qed (use atom' ok Writer in \<open>auto split: if_splits intro!: inv_quiet [OF inv i, simplified]\<close>)
qed

lemma write_inv_start: "list_all at_start ts \<Longrightarrow> writeLock sh = 0 \<Longrightarrow> write_inv (line sh) (sent (conn sh)) ts sh"
proof -
  assume s: "list_all at_start ts" and l: "writeLock sh = 0"
  have "list_all writer_ok ts \<and> sum_list (map holds ts) = 0 \<and> sum_list (map ended ts) = {#} \<and> concat (map under_way ts) = []"
    using s by (induction ts) (auto simp: at_start_def)
  then show "write_inv (line sh) (sent (conn sh)) ts sh"
    unfolding write_inv_def by (intro conjI exI [of _ "[]"]) (simp_all add: l del: sum_list_eq_0_iff)
qed

lemma write_inv_run:
  assumes "conn_run ts sh k ts' sh'" and "list_all at_start ts" and "writeLock sh = 0"
  shows "write_inv (line sh) (sent (conn sh)) ts' sh'"
  using assms
proof (induction rule: conn_run.induct)
  case start
  then show ?case by (rule write_inv_start)
next
  case (act k ts' sh' i c t sh'' new)
  then show ?case by (intro write_inv_step)
next
  case (channel k ts' sh' room)
  then show ?case by (simp add: write_inv_def)
qed

text \<open>The messages whose write succeeded.\<close>

fun succeeded :: "task \<Rightarrow> wire multiset" where
  "succeeded (Writer w n (AtRelease None)) = {#w#}"
| "succeeded (Writer w n (Returned None)) = {#w#}"
| "succeeded t = {#}"

lemma ended_whole: "writer_ok t \<Longrightarrow> image_mset fst (filter_mset whole (ended t)) = succeeded t"
  by (cases t rule: succeeded.cases) (auto simp: whole_def)

lemma succeeded_sum:
  "list_all writer_ok ts \<Longrightarrow> image_mset fst (filter_mset whole (sum_list (map ended ts))) = sum_list (map succeeded ts)"
  by (induction ts) (simp_all add: ended_whole)

lemma ended_le: "list_all writer_ok ts \<Longrightarrow> (w, n) \<in># sum_list (map ended ts) \<Longrightarrow> n \<le> length (wire_bytes w)"
proof (induction ts)
  case (Cons t ts)
  have "n \<le> length (wire_bytes w)" if "(w, n) \<in># ended t" "writer_ok t"
    using that by (cases t rule: ended.cases) (auto split: if_splits)
  then show ?case using Cons by auto
qed simp

subsection \<open>Every schedule ends\<close>

lemma budget_step:
  assumes "active t" and "writer_ok t" and "task_atom c t sh = (t', sh', new)"
  shows "Suc (budget t' + sum_list (map budget new)) \<le> budget t"
proof (cases t)
  case (Closer pc)
  then show ?thesis using assms(1,3)
    by (auto simp: close_atom_def split: close_pc.splits if_splits)
next
  case (Writer w n pc)
  note atom = assms(3) [unfolded Writer task_atom.simps write_atom_def]
  show ?thesis
  proof (cases pc)
    case (AtSwap i)
    then show ?thesis using atom Writer by (cases "i < 3") (auto split: if_splits)
  next
    case AtWrite
    then show ?thesis using atom assms(2) Writer by (auto simp: Let_def split: if_splits net_choice.splits)
  qed (use atom assms(1) Writer in \<open>auto split: if_splits\<close>)
qed

lemma budget_run:
  assumes "conn_run ts sh k ts' sh'" and "list_all at_start ts" and "writeLock sh = 0"
  shows "k + sum_list (map budget ts') \<le> sum_list (map budget ts)"
  using assms
proof (induction rule: conn_run.induct)
  case (act k ts' sh' i c t sh'' new)
  have "writer_ok (ts' ! i)"
    using write_inv_run [OF act.hyps(1)] act.prems act.hyps(2) by (simp add: write_inv_def list_all_length)
  from budget_step [OF act.hyps(3) this act.hyps(4)] have "Suc (budget t + sum_list (map budget new)) \<le> budget (ts' ! i)" .
  then show ?case using sum_step [OF act.hyps(2), of budget t new] act.IH act.prems by simp
qed simp_all

subsection \<open>A failed write closes the connection\<close>

fun will_close :: "task \<Rightarrow> nat" where
  "will_close t = (if t = Closer CloserClose then 1 else 0)"

fun will_offer :: "task \<Rightarrow> nat" where
  "will_offer t = (if t = Closer CloserOffer then 1 else 0)"

definition broken :: "task \<Rightarrow> bool" where
  "broken t \<longleftrightarrow> (\<exists>w n. t = Writer w n (AtRelease (Some (ErrOther ''write''))) \<or> t = Writer w n (Returned (Some (ErrOther ''write''))))"

definition close_inv :: "task list \<Rightarrow> 'st shared_conn \<Rightarrow> bool" where
  "close_inv ts sh \<longleftrightarrow>
     sum_list (map will_close ts) + of_bool (connClosed (conn sh)) = of_bool (disconnecting (conn sh))
     \<and> sum_list (map will_offer ts) + queued (conn sh) \<le> of_bool (connClosed (conn sh))
     \<and> (Closer CloserDone \<in> set ts \<longrightarrow> disconnecting (conn sh))
     \<and> ((\<exists>t\<in>set ts. broken t) \<longrightarrow> (\<exists>pc. Closer pc \<in> set ts))"

lemma closer_stays:
  assumes "Closer pc \<in> set ts" and "i < length ts" and "\<And>pc. ts ! i = Closer pc \<Longrightarrow> \<exists>pc'. t = Closer pc'"
  shows "\<exists>pc. Closer pc \<in> set (ts[i := t])"
proof -
  obtain j where j: "j < length ts" "ts ! j = Closer pc" using assms(1) by (auto simp: in_set_conv_nth)
  then have "\<exists>pc. ts[i := t] ! j = Closer pc" using assms(2,3) by (cases "j = i") auto
  then show ?thesis using j(1) by (metis length_list_update nth_mem)
qed

text \<open>A writer changes nothing of this, apart from the goroutine it may start.\<close>

lemma writer_frame:
  assumes "task_atom c (Writer w n pc) sh = (t, sh', new)"
  obtains n' pc' where "t = Writer w n' pc'" "disconnecting (conn sh') = disconnecting (conn sh)"
    "connClosed (conn sh') = connClosed (conn sh)" "queued (conn sh') = queued (conn sh)"
    "new = [] \<and> (broken t \<longrightarrow> broken (Writer w n pc)) \<or> new = [Closer CloserSwap]"
  using assms by (auto simp: write_atom_def broken_def marshal_error_def Let_def
      split: write_pc.splits if_splits net_choice.splits wire.splits)

lemma close_inv_step:
  assumes inv: "close_inv ts sh" and i: "i < length ts" and a: "active (ts ! i)" and atom: "task_atom c (ts ! i) sh = (t, sh', new)"
  shows "close_inv (ts[i := t] @ new) sh'"
proof -
  let ?ts = "ts[i := t] @ new"
  note sums = sum_step [OF i, of will_close t new] sum_step [OF i, of will_offer t new]
  from inv have parts: "sum_list (map will_close ts) + of_bool (connClosed (conn sh)) = of_bool (disconnecting (conn sh))"
    "sum_list (map will_offer ts) + queued (conn sh) \<le> of_bool (connClosed (conn sh))"
    "Closer CloserDone \<in> set ts \<longrightarrow> disconnecting (conn sh)" "(\<exists>t\<in>set ts. broken t) \<longrightarrow> (\<exists>pc. Closer pc \<in> set ts)"
    unfolding close_inv_def by blast+
  have mem: "u \<in> set ?ts \<Longrightarrow> u \<in> set ts \<or> u = t \<or> u \<in> set new" for u
    using set_update_subset_insert [of ts i t] by auto
  have below: "will_close (ts ! i) \<le> sum_list (map will_close ts)" "will_offer (ts ! i) \<le> sum_list (map will_offer ts)"
    using i by (simp_all add: member_le_sum_list del: will_close.simps will_offer.simps)
  show ?thesis
  proof (cases "ts ! i")
    case (Writer w n pc)
    from writer_frame [OF atom [unfolded Writer]] obtain n' pc' where t: "t = Writer w n' pc'"
      and same: "disconnecting (conn sh') = disconnecting (conn sh)" "connClosed (conn sh') = connClosed (conn sh)"
        "queued (conn sh') = queued (conn sh)"
      and new: "new = [] \<and> (broken t \<longrightarrow> broken (ts ! i)) \<or> new = [Closer CloserSwap]"
      unfolding Writer by blast
    have "sum_list (map will_close new) = 0" "sum_list (map will_offer new) = 0" using new by auto
    then have "sum_list (map will_close ?ts) = sum_list (map will_close ts)" "sum_list (map will_offer ?ts) = sum_list (map will_offer ts)"
      using sums unfolding t Writer by (simp_all del: map_append sum_list_eq_0_iff)
    moreover have "disconnecting (conn sh')" if "Closer CloserDone \<in> set ?ts"
    proof -
      from that have "Closer CloserDone \<in> set ts" using mem [of "Closer CloserDone"] new by (auto simp: t)
      then show ?thesis using parts(3) same(1) by simp
    qed
    moreover have "\<exists>pc. Closer pc \<in> set ?ts" if some: "\<exists>u\<in>set ?ts. broken u"
    proof (cases "new = []")
      case True
      obtain u where u: "u \<in> set ?ts" "broken u" using some by blast
      have "u \<in> set ts \<or> u = t" using mem [OF u(1)] True by simp
      then have "\<exists>u\<in>set ts. broken u" using u(2) new True i by (cases "u = t") auto
      then obtain pc0 where "Closer pc0 \<in> set ts" using parts(4) by blast
      from closer_stays [OF this i, of t] show ?thesis using Writer by auto
    qed (use new in auto)
    ultimately show ?thesis unfolding close_inv_def same using parts(1,2) by simp
  next
    case (Closer pc)
    obtain pc' sc where c: "close_atom pc (conn sh) = (pc', sc)" by fastforce
    then have t: "t = Closer pc'" "sh' = sh\<lparr>conn := sc\<rparr>" "new = []" using atom Closer by simp_all
    have "\<exists>pc. Closer pc \<in> set ?ts" using closer_stays [of pc ts i t] Closer i t by (metis append_Nil2 nth_mem)
    moreover obtain a b a' b' where ab: "sum_list (map will_close ?ts) = a'" "sum_list (map will_offer ?ts) = b'"
      "sum_list (map will_close ts) = a" "sum_list (map will_offer ts) = b" by blast
    have ab': "a' + will_close (Closer pc) = a + will_close (Closer pc')" "b' + will_offer (Closer pc) = b + will_offer (Closer pc')"
      "will_close (Closer pc) \<le> a" "will_offer (Closer pc) \<le> b"
      using sums below unfolding ab by (simp_all add: Closer t(1) t(3) del: will_close.simps will_offer.simps)
    have finished: "Closer CloserDone \<in> set ?ts \<Longrightarrow> Closer CloserDone \<in> set ts \<or> pc' = CloserDone"
      using mem [of "Closer CloserDone"] by (auto simp: t)
    have "a' + of_bool (connClosed sc) = of_bool (disconnecting sc) \<and> b' + queued sc \<le> of_bool (connClosed sc)
      \<and> (Closer CloserDone \<in> set ?ts \<longrightarrow> disconnecting sc)"
      using parts(1-3) [unfolded ab] ab' finished c a [unfolded Closer] by (cases pc) (auto simp: close_atom_def of_bool_def split: if_splits)
    moreover have "conn sh' = sc" by (simp add: t(2))
    ultimately show ?thesis unfolding close_inv_def ab by (metis (no_types))
  qed
qed

lemma close_inv_run:
  assumes "conn_run ts sh k ts' sh'" and "list_all at_start ts"
    and "\<not> disconnecting (conn sh)" and "\<not> connClosed (conn sh)" and "queued (conn sh) = 0"
  shows "close_inv ts' sh'"
  using assms
proof (induction rule: conn_run.induct)
  case start
  have "sum_list (map will_close ts) = 0 \<and> sum_list (map will_offer ts) = 0 \<and> Closer CloserDone \<notin> set ts \<and> (\<forall>t\<in>set ts. \<not> broken t)"
    using start(1) by (induction ts) (auto simp: at_start_def broken_def simp del: sum_list_eq_0_iff)
  note z = this
  show ?case unfolding close_inv_def by (simp only: z start of_bool_eq simp_thms) (use z in blast)
next
  case (act k ts' sh' i c t sh'' new)
  then show ?case by (intro close_inv_step)
next
  case (channel k ts' sh' room)
  then show ?case by (simp add: close_inv_def)
qed

subsection \<open>What one writer reports\<close>

text \<open>The error a goroutine returns is one that the operations on a connection report that nobody else
  writes to, for some outcome of their attempts.\<close>

definition put :: "wire \<Rightarrow> 'st StratumContext \<Rightarrow> go_error option \<times> 'st StratumContext" where
  "put w = (case w of WResponse r \<Rightarrow> Reply r | WEvent e \<Rightarrow> Send e | WRaw bs \<Rightarrow> WriteRaw bs)"

lemma put_eq: "put w sc = (if disconnecting sc then (Some ErrorDisconnected, sc)
    else if marshal_error w \<noteq> None then (marshal_error w, sc) else writeWithBackoff w sc)"
  by (auto simp: put_def Reply_def Send_def WriteRaw_def marshal_error_def split: wire.split)

definition outcomes :: "wire \<Rightarrow> go_error option set" where
  "outcomes w = {None, Some (ErrOther ''failed setting write deadline for connection''), Some (ErrOther ''write'')}"

fun reports :: "task \<Rightarrow> bool" where
  "reports (Writer w n pc) = (case pc of
     AtEntry \<Rightarrow> True
   | AtRelease e \<Rightarrow> marshal_error w = None \<and> e \<in> outcomes w
   | Returned e \<Rightarrow> e = Some ErrorDisconnected \<or> marshal_error w \<noteq> None \<and> e = marshal_error w
       \<or> marshal_error w = None \<and> e \<in> insert (Some (ErrOther ''failed writing to socket after 3 attempts'')) (outcomes w)
   | _ \<Rightarrow> marshal_error w = None)"
| "reports (Closer pc) = True"

lemma reports_step: "task_atom c t sh = (t', sh', new) \<Longrightarrow> reports t \<Longrightarrow> reports t' \<and> list_all reports new"
  by (cases t) (auto simp: write_atom_def outcomes_def Let_def split: write_pc.splits if_splits net_choice.splits prod.splits)

lemma reports_run: "conn_run ts sh k ts' sh' \<Longrightarrow> list_all at_start ts \<Longrightarrow> list_all reports ts'"
proof (induction rule: conn_run.induct)
  case start
  then show ?case by (auto simp: list_all_iff at_start_def)
next
  case (act k ts' sh' i c t sh'' new)
  have "reports (ts' ! i)" using act.IH act.prems act.hyps(2) by (simp add: list_all_length)
  from reports_step [OF act.hyps(4) this] show ?case
    using act.IH act.prems act.hyps(2) set_update_subset_insert [of ts' i t] by (auto simp: list_all_iff)
qed

lemma writer_result:
  assumes "conn_run ts sh k ts' sh'" and "list_all at_start ts" and "Writer w n (Returned e) \<in> set ts'"
  shows "\<exists>b rs. fst (put w (sc\<lparr>disconnecting := b, net := rs\<rparr>)) = e"
proof -
  have r: "reports (Writer w n (Returned e))" using reports_run [OF assms(1,2)] assms(3) by (auto simp: list_all_iff)
  let ?sc = "\<lambda>rs. sc\<lparr>disconnecting := False, net := rs\<rparr>"
  have ev: "fst (writeWithBackoff w (?sc [WriteOk])) = None"
    "fst (writeWithBackoff w (?sc [DeadlineFailed])) = Some (ErrOther ''failed setting write deadline for connection'')"
    "fst (writeWithBackoff w (?sc [WriteFailed])) = Some (ErrOther ''write'')"
    "fst (writeWithBackoff w (?sc [LockBusy, LockBusy, LockBusy])) = Some (ErrOther ''failed writing to socket after 3 attempts'')"
    by (simp_all add: writeWithBackoff_outcome)
  consider "e = Some ErrorDisconnected" | "marshal_error w \<noteq> None" "e = marshal_error w"
    | "marshal_error w = None" "e \<in> insert (Some (ErrOther ''failed writing to socket after 3 attempts'')) (outcomes w)"
    using r by auto
  then show ?thesis
  proof cases
    case 1
    then have "fst (put w (sc\<lparr>disconnecting := True, net := []\<rparr>)) = e" by (simp add: put_eq)
    then show ?thesis by blast
  next
    case 2
    then have "fst (put w (sc\<lparr>disconnecting := False, net := []\<rparr>)) = e" by (simp add: put_eq)
    then show ?thesis by blast
  next
    case 3
    then obtain rs where "e = fst (writeWithBackoff w (?sc rs))" using ev unfolding outcomes_def by (metis insertE emptyE)
    then have "fst (put w (sc\<lparr>disconnecting := False, net := rs\<rparr>)) = e" using 3(1) by (simp add: put_eq)
    then show ?thesis by blast
  qed
qed

subsection \<open>A message after half a message\<close>

text \<open>The lock is released before the goroutine that disconnects has run, so the next writer finds the
  connection open.\<close>

lemma first_acts:
  assumes "\<exists>k. conn_run ts sh k (t # us) s" and "active t" and "task_atom c t s = (t', s', new)"
  shows "\<exists>k. conn_run ts sh k ((t' # us) @ new) s'"
  using assms act [of ts sh _ "t # us" s 0 c t' s' new] by fastforce

lemma second_acts:
  assumes "\<exists>k. conn_run ts sh k (t # u # us) s" and "active u" and "task_atom c u s = (u', s', [])"
  shows "\<exists>k. conn_run ts sh k (t # u' # us) s'"
  using assms act [of ts sh _ "t # u # us" s 1 c u' s' "[]"] by fastforce

lemma third_acts:
  assumes "\<exists>k. conn_run ts sh k [t, u, Closer pc] s" and "pc \<noteq> CloserDone" and "task_atom Refuse (Closer pc) s = (v', s', [])"
  shows "\<exists>k. conn_run ts sh k [t, u, v'] s'"
  using assms act [of ts sh _ "[t, u, Closer pc]" s 2 Refuse v' s' "[]"] by (fastforce simp: numeral_2_eq_2)

lemma beginning_run:
  assumes "marshal_error a = None" and "marshal_error b = None" and "wire_bytes b \<noteq> []"
    and "0 < m" and "m < length (wire_bytes a)"
    and "writeLock sh = 0" and "\<not> disconnecting (conn sh)" and "\<not> connClosed (conn sh)"
  shows "\<exists>k sh'. conn_run [Writer a 0 AtEntry, Writer b 0 AtEntry] sh k
       [Writer a m (Returned (Some (ErrOther ''write''))), Writer b (length (wire_bytes b)) (Returned None), Closer CloserSwap] sh'
    \<and> line sh' = line sh @ take m (wire_bytes a) @ wire_bytes b \<and> conn sh' = (conn sh)\<lparr>sent := sent (conn sh) @ [b]\<rparr> \<and> writeLock sh' = 0"
proof -
  let ?r = "\<lambda>ts s. \<exists>k. conn_run [Writer a 0 AtEntry, Writer b 0 AtEntry] sh k ts s"
  let ?b = "Writer b 0 AtEntry" and ?a = "Writer a m (Returned (Some (ErrOther ''write'')))"
  note one = first_acts [where new = "[]", simplified] and two = second_acts
  let ?s1 = "sh\<lparr>writeLock := 1\<rparr>"
  let ?s2 = "?s1\<lparr>line := line sh @ take m (wire_bytes a)\<rparr>"
  let ?s3 = "?s2\<lparr>writeLock := 0\<rparr>"
  let ?s4 = "?s2\<lparr>line := line sh @ take m (wire_bytes a) @ wire_bytes b\<rparr>"
  let ?s5 = "?s4\<lparr>conn := (conn sh)\<lparr>sent := sent (conn sh) @ [b]\<rparr>\<rparr>"
  note at = write_atom_def assms(1-3,6-8)
  have "?r [Writer a 0 AtEntry, ?b] sh" using start by blast
  then have "?r [Writer a 0 (AtSwap 0), ?b] sh" by (rule one [where c = Refuse]) (simp_all add: at)
  then have "?r [Writer a 0 AtDeadline, ?b] ?s1" by (rule one [where c = Refuse]) (simp_all add: at)
  then have "?r [Writer a 0 AtWrite, ?b] ?s1" by (rule one [where c = "Take 0"]) (simp_all add: at)
  then have "?r [Writer a m AtWrite, ?b] ?s2"
    by (rule one [where c = "Take (m - 1)"]) (use assms(4,5) in \<open>auto simp: at Let_def min_def\<close>)
  from first_acts [OF this, of Refuse _ _ "[Closer CloserSwap]"]
  have "?r [Writer a m (AtRelease (Some (ErrOther ''write''))), ?b, Closer CloserSwap] ?s2" using assms(5) by (simp add: at)
  then have "?r [?a, ?b, Closer CloserSwap] ?s3" by (rule one [where c = Refuse]) (simp_all add: at)
  then have "?r [?a, Writer b 0 (AtSwap 0), Closer CloserSwap] ?s3" by (rule two [where c = Refuse]) (simp_all add: at)
  then have "?r [?a, Writer b 0 AtDeadline, Closer CloserSwap] ?s2" by (rule two [where c = Refuse]) (simp_all add: at)
  then have "?r [?a, Writer b 0 AtWrite, Closer CloserSwap] ?s2" by (rule two [where c = "Take 0"]) (simp_all add: at)
  then have "?r [?a, Writer b (length (wire_bytes b)) AtWrite, Closer CloserSwap] ?s4"
    by (rule two [where c = "Take (length (wire_bytes b) - 1)"]) (use assms(3) in \<open>simp_all add: at Let_def\<close>)
  then have "?r [?a, Writer b (length (wire_bytes b)) (AtRelease None), Closer CloserSwap] ?s5"
    by (rule two [where c = Refuse]) (simp_all add: at)
  then have "?r [?a, Writer b (length (wire_bytes b)) (Returned None), Closer CloserSwap] (?s5\<lparr>writeLock := 0\<rparr>)"
    by (rule two [where c = Refuse]) (simp_all add: at)
  then obtain k where "conn_run [Writer a 0 AtEntry, ?b] sh k
    [?a, Writer b (length (wire_bytes b)) (Returned None), Closer CloserSwap] (?s5\<lparr>writeLock := 0\<rparr>)" ..
  then show ?thesis by (intro exI [of _ k] exI [of _ "?s5\<lparr>writeLock := 0\<rparr>"]) simp
qed

text \<open>Two messages on a new connection, and the disconnect that follows.\<close>

definition sample_conn :: "bool shared_conn" where
  "sample_conn = \<lparr>conn = sample_client, writeLock = 0, line = []\<rparr>"

lemmas sample = sample_conn_def sample_client_def marshal_error_def wire_bytes_def

lemma sample_run:
  "\<exists>k sh. conn_run [Writer (WRaw [1, 2, 3]) 0 AtEntry, Writer (WRaw [4, 5]) 0 AtEntry] sample_conn k
     [Writer (WRaw [1, 2, 3]) 2 (Returned (Some (ErrOther ''write''))), Writer (WRaw [4, 5]) 2 (Returned None), Closer CloserDone] sh
   \<and> line sh = [1, 2, 4, 5]"
proof -
  let ?a = "Writer (WRaw [1, 2, 3]) 2 (Returned (Some (ErrOther ''write'')))" and ?b = "Writer (WRaw [4, 5]) 2 (Returned None)"
  let ?r = "conn_run [Writer (WRaw [1, 2, 3]) 0 AtEntry, Writer (WRaw [4, 5]) 0 AtEntry] sample_conn"
  let ?s = "sample_conn\<lparr>conn := sample_client\<lparr>sent := [WRaw [4, 5]]\<rparr>, line := [1, 2, 4, 5]\<rparr>"
  obtain k sh where run: "?r k [?a, ?b, Closer CloserSwap] sh" and sh: "line sh = [1, 2, 4, 5]" "writeLock sh = 0"
    "conn sh = sample_client\<lparr>sent := [WRaw [4, 5]]\<rparr>"
  proof -
    have bytes: "wire_bytes (WRaw bs) = bs" "marshal_error (WRaw bs) = None" for bs by (simp_all add: sample)
    have begin_state: "writeLock sample_conn = 0" "\<not> disconnecting sample_client" "\<not> connClosed sample_client"
      "line sample_conn = []" "conn sample_conn = sample_client" "sent sample_client = []" by (simp_all add: sample)
    have "\<exists>k sh. ?r k [?a, ?b, Closer CloserSwap] sh \<and> line sh = [1, 2, 4, 5]
        \<and> conn sh = sample_client\<lparr>sent := [WRaw [4, 5]]\<rparr> \<and> writeLock sh = 0"
      using beginning_run [of "WRaw [1, 2, 3]" "WRaw [4, 5]" 2 sample_conn] by (simp add: bytes begin_state numeral_2_eq_2)
    then show thesis using that by blast
  qed
  then have "\<exists>k. ?r k [?a, ?b, Closer CloserSwap] ?s" by (cases sh) (auto simp: sample_conn_def)
  then have "\<exists>k. ?r k [?a, ?b, Closer CloserClose] (?s\<lparr>conn := (conn ?s)\<lparr>disconnecting := True\<rparr>\<rparr>)"
    by (rule third_acts) (simp_all add: close_atom_def sample)
  then have "\<exists>k. ?r k [?a, ?b, Closer CloserOffer] (?s\<lparr>conn := (conn ?s)\<lparr>disconnecting := True, connClosed := True\<rparr>\<rparr>)"
    by (rule third_acts) (simp_all add: close_atom_def sample)
  then have "\<exists>k. ?r k [?a, ?b, Closer CloserDone] (?s\<lparr>conn := (conn ?s)\<lparr>disconnecting := True, connClosed := True, queued := 1\<rparr>\<rparr>)"
    by (rule third_acts) (simp_all add: close_atom_def sample)
  then obtain k where "?r k [?a, ?b, Closer CloserDone] (?s\<lparr>conn := (conn ?s)\<lparr>disconnecting := True, connClosed := True, queued := 1\<rparr>\<rparr>)" ..
  moreover have "line (?s\<lparr>conn := c\<rparr>) = [1, 2, 4, 5]" for c by simp
  ultimately show ?thesis by blast
qed

subsection \<open>Properties\<close>

text \<open>
  C16: however the goroutines that write to one connection interleave, at most one of them has the lock;
  what goes out on the line is, one after the other, the messages whose write succeeded, each whole and
  exactly once, in the order in which they are recorded as sent, and between them only beginnings of
  messages whose write failed; at the end may stand the beginning of the message being written.
\<close>

theorem writes_whole:
  assumes "conn_run ts sh k ts' sh'" and "list_all at_start ts" and "writeLock sh = 0"
  shows "sum_list (map holds ts') \<le> 1
    \<and> mset (sent (conn sh')) = mset (sent (conn sh)) + sum_list (map succeeded ts')
    \<and> (\<exists>segs. mset segs = sum_list (map ended ts') \<and> (\<forall>(w, n)\<in>set segs. n \<le> length (wire_bytes w))
        \<and> sent (conn sh') = sent (conn sh) @ map fst (filter whole segs)
        \<and> line sh' = line sh @ concat (map piece segs) @ concat (map under_way ts'))"
proof -
  note inv = write_inv_run [OF assms, unfolded write_inv_def]
  then obtain segs where segs: "mset segs = sum_list (map ended ts')"
    "line sh' = line sh @ concat (map piece segs) @ concat (map under_way ts')"
    "sent (conn sh') = sent (conn sh) @ map fst (filter whole segs)" by (elim conjE exE) (rule that)
  have ok: "list_all writer_ok ts'" using inv by blast
  have "mset (map fst (filter whole segs)) = sum_list (map succeeded ts')"
    using succeeded_sum [OF ok] by (simp add: segs(1))
  then have "mset (sent (conn sh')) = mset (sent (conn sh)) + sum_list (map succeeded ts')" by (simp add: segs(3))
  moreover have "\<forall>(w, n)\<in>set segs. n \<le> length (wire_bytes w)"
    using ended_le [OF ok] segs(1) by (metis case_prodI2 set_mset_mset)
  ultimately show ?thesis using inv segs by (intro conjI exI [of _ segs]) blast+
qed

theorem writes_whole_witness:
  "\<exists>k sh. conn_run [Writer (WRaw [1, 2, 3]) 0 AtEntry, Writer (WRaw [4, 5]) 0 AtEntry] sample_conn k
     [Writer (WRaw [1, 2, 3]) 2 (Returned (Some (ErrOther ''write''))), Writer (WRaw [4, 5]) 2 (Returned None), Closer CloserDone] sh
   \<and> mset (sent (conn sh)) = {#WRaw [4, 5]#} \<and> line sh = [1, 2, 4, 5]"
proof -
  obtain k sh where run: "conn_run [Writer (WRaw [1, 2, 3]) 0 AtEntry, Writer (WRaw [4, 5]) 0 AtEntry] sample_conn k
     [Writer (WRaw [1, 2, 3]) 2 (Returned (Some (ErrOther ''write''))), Writer (WRaw [4, 5]) 2 (Returned None), Closer CloserDone] sh"
    and line: "line sh = [1, 2, 4, 5]" using sample_run by blast
  have "mset (sent (conn sh)) = mset (sent (conn sample_conn)) + {#WRaw [4, 5]#}"
    using writes_whole [OF run] by (simp add: at_start_def sample_conn_def)
  then show ?thesis using run line by (auto simp: sample)
qed

text \<open>
  C17: every schedule of the goroutines of a connection ends: a writer takes at most eleven actions more
  than its message has bytes, a disconnect three. Then the lock is free, and if the socket refused a
  write, however the schedule went, the connection is disconnecting and closed; it is closed exactly when
  it is disconnecting, and the listener was told at most once.
\<close>

theorem writers_end:
  assumes "conn_run ts sh k ts' sh'" and "list_all at_start ts" and "writeLock sh = 0"
    and "\<not> disconnecting (conn sh)" and "\<not> connClosed (conn sh)" and "queued (conn sh) = 0"
  shows "k \<le> sum_list (map (\<lambda>t. case t of Writer w n pc \<Rightarrow> length (wire_bytes w) + 11 | Closer pc \<Rightarrow> 3) ts)
    \<and> ((\<forall>t\<in>set ts'. \<not> active t) \<longrightarrow> writeLock sh' = 0
        \<and> connClosed (conn sh') = disconnecting (conn sh') \<and> queued (conn sh') \<le> of_bool (disconnecting (conn sh'))
        \<and> (\<forall>w n. Writer w n (Returned (Some (ErrOther ''write''))) \<in> set ts' \<longrightarrow> disconnecting (conn sh')))"
proof -
  have "sum_list (map budget ts) = sum_list (map (\<lambda>t. case t of Writer w n pc \<Rightarrow> length (wire_bytes w) + 11 | Closer pc \<Rightarrow> 3) ts)"
    using assms(2) by (induction ts) (auto simp: at_start_def)
  then have "k \<le> sum_list (map (\<lambda>t. case t of Writer w n pc \<Rightarrow> length (wire_bytes w) + 11 | Closer pc \<Rightarrow> 3) ts)"
    using budget_run [OF assms(1-3)] by simp
  moreover {
    assume over: "\<forall>t\<in>set ts'. \<not> active t"
    have "holds t = 0 \<and> will_close t = 0 \<and> will_offer t = 0" if "t \<in> set ts'" for t
      using over that by (cases t) (auto split: write_pc.split)
    then have "sum_list (map holds ts') = 0 \<and> sum_list (map will_close ts') = 0 \<and> sum_list (map will_offer ts') = 0"
      by (induction ts') simp_all
    note none = this
    have lock: "writeLock sh' = 0" using write_inv_run [OF assms(1-3)] none by (simp add: write_inv_def del: sum_list_eq_0_iff)
    note inv = close_inv_run [OF assms(1,2,4-6), unfolded close_inv_def]
    have same: "connClosed (conn sh') = disconnecting (conn sh')" using inv none by (simp add: of_bool_eq_iff del: sum_list_eq_0_iff)
    moreover have "queued (conn sh') \<le> of_bool (disconnecting (conn sh'))"
      using inv none same by (simp del: sum_list_eq_0_iff)
    moreover have "disconnecting (conn sh')" if "Writer w n (Returned (Some (ErrOther ''write''))) \<in> set ts'" for w n
    proof -
      have "\<exists>t\<in>set ts'. broken t" using that by (auto simp: broken_def)
      then obtain pc where "Closer pc \<in> set ts'" using inv by blast
      moreover from this have "pc = CloserDone" using over by fastforce
      ultimately show ?thesis using inv by blast
    qed
    ultimately have "writeLock sh' = 0 \<and> connClosed (conn sh') = disconnecting (conn sh')
        \<and> queued (conn sh') \<le> of_bool (disconnecting (conn sh'))
        \<and> (\<forall>w n. Writer w n (Returned (Some (ErrOther ''write''))) \<in> set ts' \<longrightarrow> disconnecting (conn sh'))"
      using lock by blast
  }
  ultimately show ?thesis by blast
qed

theorem writers_end_witness:
  "\<exists>k sh. conn_run [Writer (WRaw [1, 2, 3]) 0 AtEntry, Writer (WRaw [4, 5]) 0 AtEntry] sample_conn k
     [Writer (WRaw [1, 2, 3]) 2 (Returned (Some (ErrOther ''write''))), Writer (WRaw [4, 5]) 2 (Returned None), Closer CloserDone] sh
   \<and> k \<le> 27 \<and> writeLock sh = 0 \<and> connClosed (conn sh) \<and> queued (conn sh) \<le> 1"
proof -
  obtain k sh where run: "conn_run [Writer (WRaw [1, 2, 3]) 0 AtEntry, Writer (WRaw [4, 5]) 0 AtEntry] sample_conn k
     [Writer (WRaw [1, 2, 3]) 2 (Returned (Some (ErrOther ''write''))), Writer (WRaw [4, 5]) 2 (Returned None), Closer CloserDone] sh"
    using sample_run by blast
  have "k \<le> 27 \<and> writeLock sh = 0 \<and> connClosed (conn sh) \<and> queued (conn sh) \<le> 1"
    using writers_end [OF run] by (auto simp: at_start_def sample)
  then show ?thesis using run by blast
qed

text \<open>
  When the socket refuses a message after it took a part of it, the message of another goroutine can
  follow on the line directly after that part and be reported as sent: the miner then sees the two as one
  line.
\<close>

theorem message_after_beginning:
  assumes "marshal_error a = None" and "marshal_error b = None" and "wire_bytes b \<noteq> []"
    and "0 < m" and "m < length (wire_bytes a)"
    and "writeLock sh = 0" and "\<not> disconnecting (conn sh)" and "\<not> connClosed (conn sh)"
  shows "\<exists>k sh'. conn_run [Writer a 0 AtEntry, Writer b 0 AtEntry] sh k
       [Writer a m (Returned (Some (ErrOther ''write''))), Writer b (length (wire_bytes b)) (Returned None), Closer CloserSwap] sh'
    \<and> line sh' = line sh @ take m (wire_bytes a) @ wire_bytes b \<and> sent (conn sh') = sent (conn sh) @ [b]"
proof -
  obtain k sh' where "conn_run [Writer a 0 AtEntry, Writer b 0 AtEntry] sh k
       [Writer a m (Returned (Some (ErrOther ''write''))), Writer b (length (wire_bytes b)) (Returned None), Closer CloserSwap] sh'"
    "line sh' = line sh @ take m (wire_bytes a) @ wire_bytes b" "conn sh' = (conn sh)\<lparr>sent := sent (conn sh) @ [b]\<rparr>"
    using beginning_run [OF assms] by blast
  moreover from this(3) have "sent (conn sh') = sent (conn sh) @ [b]" by simp
  ultimately show ?thesis by blast
qed

theorem message_after_beginning_witness:
  "\<exists>k sh. conn_run [Writer (WRaw [1, 2, 3]) 0 AtEntry, Writer (WRaw [4, 5]) 0 AtEntry] sample_conn k
     [Writer (WRaw [1, 2, 3]) 2 (Returned (Some (ErrOther ''write''))), Writer (WRaw [4, 5]) 2 (Returned None), Closer CloserSwap] sh
   \<and> line sh = [1, 2, 4, 5]"
proof -
  have "line sample_conn = []" "writeLock sample_conn = 0" "\<not> disconnecting (conn sample_conn)" "\<not> connClosed (conn sample_conn)"
    by (simp_all add: sample)
  then show ?thesis
    using message_after_beginning [of "WRaw [1, 2, 3]" "WRaw [4, 5]" 2 sample_conn]
    by (auto simp: marshal_error_def wire_bytes_def numeral_2_eq_2)
qed

end
