(* ===== verification/NodeApi.thy ===== *)
theory NodeApi
  imports BridgeServerLemmas
begin

text \<open>
  The rest of \<^verbatim>\<open>src/cryptixstratum/cryptixapi.go\<close>: the connection to the node, reconnecting, the whole
  loop that waits for new blocks, the start; and of \<^verbatim>\<open>cmd/cryptixbridge/main.go\<close>: how the command line
  changes the configuration of the file. The RPC client belongs to another module: what it answers is
  given. \<^verbatim>\<open>flag.Parse\<close> is given as the list of the flags it found, with their values.
\<close>

subsection \<open>The connection to the node\<close>

record cryptixApi =
  address :: string
  blockWaitTime :: int
  cryptix :: bool
  connected :: bool

text \<open>\<open>rpcErr\<close> is the error of \<^verbatim>\<open>NewRPCClient\<close> or \<^verbatim>\<open>Reconnect\<close>, if there was one. \<open>cryptix\<close> says whether there is a
  client.\<close>

definition NewcryptixAPI :: "go_error option \<Rightarrow> string \<Rightarrow> int \<Rightarrow> go_error + cryptixApi" where
  "NewcryptixAPI rpcErr addr wait = (case rpcErr of
     Some err \<Rightarrow> Inl err
   | None \<Rightarrow> Inr \<lparr>address = addr, blockWaitTime = wait, cryptix = True, connected = True\<rparr>)"

definition reconnect :: "go_error option \<Rightarrow> cryptixApi \<Rightarrow> go_error option \<times> cryptixApi" where
  "reconnect rpcErr py = (if cryptix py then (rpcErr, py)
     else case rpcErr of
       Some err \<Rightarrow> (Some err, py)
     | None \<Rightarrow> (None, py\<lparr>cryptix := True\<rparr>))"

subsection \<open>The loop\<close>

text \<open>A round checks that the node is synchronised, reconnects once if that fails, sleeps if
  reconnecting fails too, and then waits for an event. No result means that it is still waiting for the
  node after all its answers.\<close>

record templateLoop =
  nodeApi :: cryptixApi
  blocks :: blockLoop
  sleeps :: nat
  tickerReset :: nat

definition checkNode :: "go_error option \<Rightarrow> (string + bool) list \<Rightarrow> templateLoop
     \<Rightarrow> (templateLoop \<times> (string + bool) list) option" where
  "checkNode rpcErr answers t = (case waitForSync answers of
     None \<Rightarrow> None
   | Some (None, rest) \<Rightarrow> Some (t, rest)
   | Some (Some err, rest) \<Rightarrow> (case reconnect rpcErr (nodeApi t) of
       (None, py) \<Rightarrow> Some (t\<lparr>nodeApi := py\<rparr>, rest)
     | (Some err', py) \<Rightarrow> Some (t\<lparr>nodeApi := py, sleeps := sleeps t + 1\<rparr>, rest)))"

definition templateRound :: "go_error option \<Rightarrow> loop_event \<Rightarrow> (string + bool) list \<Rightarrow> templateLoop
     \<Rightarrow> (templateLoop \<times> (string + bool) list) option" where
  "templateRound rpcErr ev answers t = (case checkNode rpcErr answers t of
     None \<Rightarrow> None
   | Some (t, rest) \<Rightarrow> Some (t\<lparr>blocks := loopRound ev (blocks t),
       tickerReset := (if ev = BlockReady then tickerReset t + 1 else tickerReset t)\<rparr>, rest))"

text \<open>\<^verbatim>\<open>startBlockTemplateListener\<close> on given events; a failed registration is only logged. It ends when the
  context is done.\<close>

fun templateRounds :: "(go_error option \<times> loop_event) list \<Rightarrow> (string + bool) list \<Rightarrow> templateLoop
     \<Rightarrow> (templateLoop \<times> (string + bool) list) option" where
  "templateRounds [] answers t = Some (t, answers)"
| "templateRounds ((rpcErr, ev) # evs) answers t = (case templateRound rpcErr ev answers t of
     None \<Rightarrow> None
   | Some (t, rest) \<Rightarrow> if ev = ContextDone then Some (t, rest) else templateRounds evs rest t)"

definition startBlockTemplateListener :: "cryptixApi \<Rightarrow> templateLoop" where
  "startBlockTemplateListener py = \<lparr>nodeApi = py, blocks = \<lparr>blockReady = False, callbacks = 0, stopped = False\<rparr>,
     sleeps = 0, tickerReset = 0\<rparr>"

text \<open>\<^verbatim>\<open>Start\<close>: the error of the synchronisation check is dropped, and both threads start in any case.\<close>

definition ApiStart :: "(string + bool) list \<Rightarrow> cryptixApi \<Rightarrow> (templateLoop \<times> (string + bool) list) option" where
  "ApiStart answers py = map_option (\<lambda>(err, rest). (startBlockTemplateListener py, rest)) (waitForSync answers)"

subsection \<open>What the loop does\<close>

text \<open>An answer on which the check comes to an end.\<close>

definition decisive :: "string + bool \<Rightarrow> bool" where
  "decisive a \<longleftrightarrow> (case a of Inl _ \<Rightarrow> True | Inr synced \<Rightarrow> synced)"

lemma waitForSync_answers:
  "waitForSync answers = (case dropWhile (\<lambda>a. \<not> decisive a) answers of
     [] \<Rightarrow> None
   | a # rest \<Rightarrow> Some (case a of Inl _ \<Rightarrow> Some (ErrOther ''error fetching server info from cryptix'') | Inr _ \<Rightarrow> None, rest))"
  by (induction answers rule: waitForSync.induct) (auto simp: decisive_def)

lemma checkNode_cases:
  assumes "checkNode rpcErr answers t = Some (t', rest)"
  shows "blocks t' = blocks t" and "tickerReset t' = tickerReset t" and "cryptix (nodeApi t) \<Longrightarrow> nodeApi t' = nodeApi t"
    and "sleeps t' \<le> sleeps t + 1"
  using assms by (auto simp: checkNode_def reconnect_def split: option.splits prod.splits if_splits)

lemma checkNode_runs:
  assumes "waitForSync answers = Some (e, rest)"
  shows "\<exists>t'. checkNode rpcErr answers t = Some (t', rest)"
proof -
  obtain r py where "reconnect rpcErr (nodeApi t) = (r, py)" by fastforce
  then show ?thesis using assms by (auto simp: checkNode_def split: option.split)
qed

text \<open>What a sequence of events does to the callbacks, without the node.\<close>

fun expected_loop :: "loop_event list \<Rightarrow> blockLoop \<Rightarrow> blockLoop" where
  "expected_loop [] l = l"
| "expected_loop (ev # evs) l = (if ev = ContextDone then loopRound ev l else expected_loop evs (loopRound ev l))"

lemma rounds_blocks:
  assumes "templateRounds evs answers t = Some (t', rest)"
  shows "blocks t' = expected_loop (map snd evs) (blocks t)"
  using assms
proof (induction evs arbitrary: answers t)
  case (Cons x evs)
  obtain rpcErr ev where x: "x = (rpcErr, ev)" by fastforce
  obtain t1 r1 where r: "templateRound rpcErr ev answers t = Some (t1, r1)" using Cons.prems by (auto simp: x split: option.splits)
  then have "blocks t1 = loopRound ev (blocks t)"
    by (auto simp: templateRound_def checkNode_cases(1) split: option.splits prod.splits)
  then show ?case using Cons r by (auto simp: x split: if_splits)
qed simp

lemma callbacks_counted:
  "ContextDone \<notin> set evs \<Longrightarrow> callbacks (expected_loop evs l) = callbacks l + length evs"
  by (induction evs arbitrary: l) (auto simp: loopRound_def split: loop_event.split)

text \<open>
  The loop never gives up and never misses an event: as long as each round gets an answer that decides
  the check, synchronised or an error, it survives every failure of the node and of reconnecting,
  and calls back once for each notification and each tick.
\<close>

theorem template_loop_survives:
  assumes "ContextDone \<notin> snd ` set evs" and "length evs \<le> length (filter decisive answers)"
  shows "\<exists>t' rest. templateRounds evs answers t = Some (t', rest) \<and> callbacks (blocks t') = callbacks (blocks t) + length evs"
  using assms
proof (induction evs arbitrary: answers t)
  case (Cons x evs)
  obtain rpcErr ev where x: "x = (rpcErr, ev)" by fastforce
  have ev: "ev \<noteq> ContextDone" using Cons.prems(1) by (auto simp: x)
  have "filter decisive answers \<noteq> []" using Cons.prems(2) by auto
  then obtain a where a: "a \<in> set answers" "decisive a" by (auto simp: filter_empty_conv)
  then obtain b rest where d: "dropWhile (\<lambda>a. \<not> decisive a) answers = b # rest" "decisive b"
    by (metis dropWhile_eq_Nil_conv hd_dropWhile list.exhaust list.sel(1))
  have "filter decisive answers = filter decisive (dropWhile (\<lambda>a. \<not> decisive a) answers)"
    by (induction answers) auto
  then have len: "length evs \<le> length (filter decisive rest)" using Cons.prems(2) d by simp
  have "\<exists>e. waitForSync answers = Some (e, rest)" by (simp add: waitForSync_answers d(1))
  then obtain t1 where t1: "checkNode rpcErr answers t = Some (t1, rest)" using checkNode_runs by blast
  define t2 where "t2 = t1\<lparr>blocks := loopRound ev (blocks t1), tickerReset := (if ev = BlockReady then tickerReset t1 + 1 else tickerReset t1)\<rparr>"
  have "templateRound rpcErr ev answers t = Some (t2, rest)" by (simp add: templateRound_def t1 t2_def)
  moreover have "callbacks (blocks t2) = callbacks (blocks t) + 1"
    using ev checkNode_cases(1) [OF t1] by (simp add: t2_def loopRound_def split: loop_event.split)
  moreover have "ContextDone \<notin> snd ` set evs" using Cons.prems(1) by simp
  ultimately show ?case using Cons.IH [OF _ len, of t2] ev by (simp add: x)
qed simp

text \<open>The bridge starts although the node could not be asked.\<close>

lemma start_ignores_error: "ApiStart (Inl err # answers) py = Some (startBlockTemplateListener py, answers)"
  by (simp add: ApiStart_def)

subsection \<open>The command line\<close>

text \<open>The kinds of flags and their values, as \<^verbatim>\<open>flag\<close> has read them, and the flags of \<^verbatim>\<open>main\<close>.\<close>

datatype flag_value = FString string | FBool bool | FDuration int | FFloat f64 | FUint u64

definition flagSetters :: "(string \<times> (flag_value \<Rightarrow> BridgeConfig \<Rightarrow> BridgeConfig option)) list" where
  "flagSetters =
    (let str = (\<lambda>upd v cfg. case v of FString s \<Rightarrow> Some (upd s cfg) | _ \<Rightarrow> None);
         bool = (\<lambda>upd v cfg. case v of FBool b \<Rightarrow> Some (upd b cfg) | _ \<Rightarrow> None);
         dur = (\<lambda>upd v cfg. case v of FDuration d \<Rightarrow> Some (upd d cfg) | _ \<Rightarrow> None);
         flt = (\<lambda>upd v cfg. case v of FFloat f \<Rightarrow> Some (upd f cfg) | _ \<Rightarrow> None);
         uin = (\<lambda>upd v cfg. case v of FUint n \<Rightarrow> Some (upd n cfg) | _ \<Rightarrow> None)
     in [(''stratum'', str (\<lambda>s cfg. cfg\<lparr>StratumPort := s\<rparr>)),
         (''stratumv2'', bool (\<lambda>b cfg. cfg\<lparr>StratumV2Enabled := b\<rparr>)),
         (''stratumv2port'', str (\<lambda>s cfg. cfg\<lparr>StratumV2Port := s\<rparr>)),
         (''stratumv2fallback'', bool (\<lambda>b cfg. cfg\<lparr>StratumV2Fallback := b\<rparr>)),
         (''stats'', bool (\<lambda>b cfg. cfg\<lparr>PrintStats := b\<rparr>)),
         (''cryptix'', str (\<lambda>s cfg. cfg\<lparr>RPCServer := s\<rparr>)),
         (''blockwait'', dur (\<lambda>d cfg. cfg\<lparr>BlockWaitTime := d\<rparr>)),
         (''mindiff'', flt (\<lambda>f cfg. cfg\<lparr>MinShareDiff := f\<rparr>)),
         (''vardiff'', bool (\<lambda>b cfg. cfg\<lparr>VarDiff := b\<rparr>)),
         (''sharespermin'', uin (\<lambda>n cfg. cfg\<lparr>SharesPerMin := n\<rparr>)),
         (''vardiffstats'', bool (\<lambda>b cfg. cfg\<lparr>VarDiffStats := b\<rparr>)),
         (''vardiffretarget'', dur (\<lambda>d cfg. cfg\<lparr>VarDiffRetarget := d\<rparr>)),
         (''solo'', bool (\<lambda>b cfg. cfg\<lparr>SoloMining := b\<rparr>)),
         (''extranonce'', uin (\<lambda>n cfg. cfg\<lparr>ExtranonceSize := n\<rparr>)),
         (''prom'', str (\<lambda>s cfg. cfg\<lparr>PromPort := s\<rparr>)),
         (''log'', bool (\<lambda>b cfg. cfg\<lparr>UseLogFile := b\<rparr>)),
         (''hcp'', str (\<lambda>s cfg. cfg\<lparr>HealthCheckPort := s\<rparr>))])"

text \<open>The flags are set in their order; one that is not known or has a value of another kind ends the
  program.\<close>

fun applyFlags :: "(string \<times> flag_value) list \<Rightarrow> BridgeConfig \<Rightarrow> BridgeConfig option" where
  "applyFlags [] cfg = Some cfg"
| "applyFlags ((name, v) # args) cfg = (case map_of flagSetters name of
     None \<Rightarrow> None
   | Some setter \<Rightarrow> (case setter v cfg of None \<Rightarrow> None | Some cfg \<Rightarrow> applyFlags args cfg))"

text \<open>\<^verbatim>\<open>main\<close> up to the start of the bridge: \<open>load\<close> is \<^verbatim>\<open>yaml.Unmarshal\<close> on the file, \<open>None\<close> if it cannot be
  read or parsed.\<close>

definition commandConfig :: "(BridgeConfig \<Rightarrow> BridgeConfig option) \<Rightarrow> (string \<times> flag_value) list \<Rightarrow> BridgeConfig option" where
  "commandConfig load args = (case load initialConfig of
     None \<Rightarrow> None
   | Some cfg \<Rightarrow> map_option fillDefaults (applyFlags args cfg))"

definition runMain :: "(BridgeConfig \<Rightarrow> BridgeConfig option) \<Rightarrow> (string \<times> flag_value) list \<Rightarrow> go_error option
     \<Rightarrow> (go_error + bridge) option" where
  "runMain load args connectErr = map_option (ListenAndServe connectErr) (commandConfig load args)"

lemma flag_names_distinct: "distinct (map fst flagSetters)"
  by (simp add: flagSetters_def Let_def)

text \<open>A flag that is not given leaves its field as the file has it. For example the ports:\<close>

lemma flag_keeps:
  assumes "applyFlags args cfg = Some cfg'" and "''stratum'' \<notin> fst ` set args"
  shows "StratumPort cfg' = StratumPort cfg"
  using assms
proof (induction args arbitrary: cfg)
  case (Cons x args)
  obtain name v where x: "x = (name, v)" by fastforce
  obtain setter cfg1 where s: "map_of flagSetters name = Some setter" "setter v cfg = Some cfg1" "applyFlags args cfg1 = Some cfg'"
    using Cons.prems(1) by (auto simp: x split: option.splits)
  have "name \<noteq> ''stratum''" using Cons.prems(2) by (auto simp: x)
  then have "StratumPort cfg1 = StratumPort cfg"
    using s(1,2) by (cases v) (auto simp: flagSetters_def Let_def split: if_splits)
  then show ?case using Cons.IH [OF s(3)] Cons.prems(2) by simp
qed simp

end
