(* ===== verification/Tables.thy ===== *)
theory Tables
  imports VarDiffLemmas Utf8 "HOL-Library.Multiset" "HOL-Library.List_Lexorder" "HOL-Library.Char_ord"
begin

text \<open>
  The table that \<^verbatim>\<open>startStatsThread\<close> of \<^verbatim>\<open>src/cryptixstratum/share_handler.go\<close> prints every ten seconds, and
  the lines of the table of the difficulty thread, as texts. Strings are compared by their bytes, as
  \<^verbatim>\<open>sort.Strings\<close> does.
\<close>

subsection \<open>Columns\<close>

text \<open>\<^verbatim>\<open>fmt\<close> counts runes; a malformed byte counts as one.\<close>

function rune_count :: "string \<Rightarrow> nat" where
  "rune_count s = (if s = [] then 0 else Suc (rune_count (drop (max 1 (rune_len s)) s)))"
  by pat_completeness auto
termination
  by (relation "measure length") auto

declare rune_count.simps [simp del]

fun take_runes :: "nat \<Rightarrow> string \<Rightarrow> string" where
  "take_runes 0 s = []"
| "take_runes (Suc n) s = (if s = [] then [] else take (max 1 (rune_len s)) s @ take_runes n (drop (max 1 (rune_len s)) s))"

definition pad_left :: "nat \<Rightarrow> string \<Rightarrow> string" where
  "pad_left w s = replicate (w - rune_count s) (CHR '' '') @ s"

definition pad_right :: "nat \<Rightarrow> string \<Rightarrow> string" where
  "pad_right w s = s @ replicate (w - rune_count s) (CHR '' '')"

text \<open>\<^verbatim>\<open>%14.14s\<close>\<close>

definition column14 :: "string \<Rightarrow> string" where
  "column14 s = pad_left 14 (take_runes 14 s)"

definition line_break :: string where
  "line_break = [char_of (10 :: nat)]"

text \<open>\<^verbatim>\<open>Round(time.Second)\<close>, away from zero, and \<^verbatim>\<open>String\<close> of a whole number of seconds.\<close>

definition round_second :: "int \<Rightarrow> int" where
  "round_second d = (let m = 1000000000; r = \<bar>go_rem d m\<bar> in
     if d < 0 then (if r + r < m then d + r else max (d - m + r) (- (2 ^ 63)))
     else (if r + r < m then d - r else min (d + m - r) (2 ^ 63 - 1)))"

definition duration_text :: "int \<Rightarrow> string" where
  "duration_text d = (let u = nat \<bar>d\<bar> div 1000000000; s = u mod 60; m = u div 60 in
     (if d < 0 then ''-'' else [])
     @ (if m = 0 then [] else (if m div 60 = 0 then [] else digits_of 10 (m div 60) @ ''h'') @ digits_of 10 (m mod 60) @ ''m'')
     @ digits_of 10 s @ ''s'')"

subsection \<open>The table of the workers\<close>

definition ratioStr :: "WorkStats \<Rightarrow> string" where
  "ratioStr v = fmt_dec (SharesFound v) @ ''/'' @ fmt_dec (StaleShares v) @ ''/'' @ fmt_dec (InvalidShares v)"

definition statsLine :: "int \<Rightarrow> WorkStats \<Rightarrow> string" where
  "statsLine now v = '' '' @ pad_right 15 (statsWorkerName v) @ ''| ''
     @ column14 (stringifyHashrate (GetAverageHashrateGHs now v)) @ '' | '' @ column14 (ratioStr v) @ '' | ''
     @ pad_left 12 (fmt_dec (BlocksFound v)) @ '' | '' @ pad_left 11 (duration_text (round_second (since now (StartTime v))))"

text \<open>The workers in the order in which the range loop yields the keys of the map.\<close>

definition workers_of :: "string list \<Rightarrow> shareHandler \<Rightarrow> WorkStats list" where
  "workers_of keys sh = map (\<lambda>k. heap sh (the (stats sh k))) (filter (\<lambda>k. stats sh k \<noteq> None) keys)"

definition totalRate :: "int \<Rightarrow> WorkStats list \<Rightarrow> f64" where
  "totalRate now vs = foldl (\<lambda>t v. t + GetAverageHashrateGHs now v) 0 vs"

definition joinLines :: "string list \<Rightarrow> string" where
  "joinLines ls = (case ls of [] \<Rightarrow> [] | l # ls \<Rightarrow> l @ concat (map (\<lambda>l. line_break @ l) ls))"

definition double_rule :: string where
  "double_rule = replicate 79 (CHR ''='')"

definition single_rule :: string where
  "single_rule = replicate 79 (CHR ''-'')"

definition version :: string where
  "version = ''v1.2.3''"

definition tableHead :: string where
  "tableHead = line_break @ double_rule @ line_break
     @ ''  worker name   |  avg hashrate  |   acc/stl/inv  |    blocks    |    uptime   '' @ line_break
     @ single_rule @ line_break"

text \<open>There is no table when the estimate of the network panics.\<close>

definition statsTable :: "int \<Rightarrow> int \<Rightarrow> string list \<Rightarrow> shareHandler \<Rightarrow> string option" where
  "statsTable start now keys sh = map_option (\<lambda>network. (let vs = workers_of keys sh in
     tableHead @ joinLines (sort (map (statsLine now) vs))
     @ line_break @ single_rule @ line_break
     @ ''                | '' @ column14 (stringifyHashrate (totalRate now vs)) @ '' | '' @ column14 (ratioStr (overall sh))
     @ '' | '' @ pad_left 12 (fmt_dec (BlocksFound (overall sh))) @ '' | '' @ pad_left 11 (duration_text (round_second (now - start)))
     @ line_break @ single_rule @ line_break
     @ '' Est. Network Hashrate: '' @ stringifyHashrate network
     @ line_break @ replicate 56 (CHR ''='') @ '' cryptix_bridge_'' @ version @ '' ==='' @ line_break))
    (DiffToHash (getSoloDiff sh))"

subsection \<open>The lines of the difficulty thread\<close>

text \<open>The workers that the pass looks at: the tracker runs and time has passed.\<close>

definition vardiffLine :: "int \<Rightarrow> WorkStats \<Rightarrow> string option" where
  "vardiffLine now v = (let duration = minutes (since now (VarDiffStartTime v)); shares = f64_of_int (VarDiffSharesFound v) in
     if VarDiffStartTime v = None \<or> duration \<le> 0 \<or> length windows \<le> VarDiffWindow v then None
     else Some ('' '' @ pad_right 14 (statsWorkerName v) @ ''| '' @ pad_left 11 (fmt_f2 (MinDiff v)) @ '' | ''
       @ pad_left 8 (fmt_dec (int (windows ! VarDiffWindow v))) @ '' | '' @ pad_left 10 (fmt_f2 duration) @ '' | ''
       @ pad_left 11 (fmt_dec (VarDiffSharesFound v)) @ '' | '' @ pad_left 9 (fmt_f2 (shares div duration))))"

definition vardiffHead :: string where
  "vardiffHead = line_break @ ''=== vardiff '' @ replicate 67 (CHR ''='') @ line_break @ line_break
     @ ''  worker name  |    diff     |  window  |  elapsed   |    shares   |   rate    '' @ line_break
     @ single_rule @ line_break"

definition vardiffTable :: "int \<Rightarrow> string list \<Rightarrow> shareHandler \<Rightarrow> string list \<Rightarrow> string" where
  "vardiffTable now keys sh toleranceErrs =
     vardiffHead @ joinLines (sort (List.map_filter (vardiffLine now) (workers_of keys sh)))
     @ line_break @ line_break @ replicate 56 (CHR ''='') @ '' cryptix_bridge_'' @ version @ '' ==='' @ line_break
     @ joinLines toleranceErrs"

subsection \<open>What the tables do not depend on\<close>

lemma sort_cong: "mset xs = mset ys \<Longrightarrow> sort xs = sort ys" for xs ys :: "string list"
  by (rule properties_for_sort) simp_all

lemma workers_mset:
  assumes "distinct ks" and "distinct js" and "set ks = set js"
  shows "mset (workers_of ks sh) = mset (workers_of js sh)"
proof -
  have "mset ks = mset js" using assms by (simp add: set_eq_iff_mset_eq_distinct)
  then show ?thesis by (simp add: workers_of_def mset_filter)
qed

text \<open>The order in which the map is walked through shows in nothing but the total rate.\<close>

theorem stats_table_order:
  assumes "distinct ks" and "distinct js" and "set ks = set js"
    and "DiffToHash (getSoloDiff sh) \<noteq> None"
  shows "\<exists>before after. statsTable start now ks sh
        = Some (before @ column14 (stringifyHashrate (totalRate now (workers_of ks sh))) @ after)
    \<and> statsTable start now js sh
        = Some (before @ column14 (stringifyHashrate (totalRate now (workers_of js sh))) @ after)"
proof -
  have "sort (map (statsLine now) (workers_of ks sh)) = sort (map (statsLine now) (workers_of js sh))"
    using workers_mset [OF assms(1-3)] by (intro sort_cong) simp
  moreover obtain network where "DiffToHash (getSoloDiff sh) = Some network" using assms(4) by blast
  ultimately show ?thesis
    by (intro exI [of _ "tableHead @ joinLines (sort (map (statsLine now) (workers_of ks sh)))
        @ line_break @ single_rule @ line_break @ ''                | ''"] exI) (simp add: statsTable_def Let_def)
qed

lemma vardiff_table_order:
  assumes "distinct ks" and "distinct js" and "set ks = set js"
  shows "vardiffTable now ks sh errs = vardiffTable now js sh errs"
proof -
  have f: "mset (List.map_filter f xs) = mset (List.map_filter f ys)" if "mset xs = mset ys" for f :: "WorkStats \<Rightarrow> string option" and xs ys
    using that by (simp add: List.map_filter_def mset_filter)
  have "sort (List.map_filter (vardiffLine now) (workers_of ks sh)) = sort (List.map_filter (vardiffLine now) (workers_of js sh))"
    by (rule sort_cong, rule f, rule workers_mset [OF assms])
  then show ?thesis unfolding vardiffTable_def by (simp only:)
qed

text \<open>The column of the counters is cut after 14 characters, so that different numbers of invalid shares
  are printed alike.\<close>

lemma counters_cut:
  "column14 (ratioStr (newWorkStats\<lparr>SharesFound := 1000000, StaleShares := 1000, InvalidShares := 1234\<rparr>))
    = column14 (ratioStr (newWorkStats\<lparr>SharesFound := 1000000, StaleShares := 1000, InvalidShares := 1999\<rparr>))"
  by code_simp

lemma uptime_text: "duration_text (round_second 3725499999999) = ''1h2m5s''" "duration_text (round_second 499999999) = ''0s''"
  by code_simp+

end
