(* ===== verification/VarDiffReport.thy ===== *)
theory VarDiffReport
  imports Tables
begin

text \<open>
  The second half of what the difficulty thread of \<^verbatim>\<open>src/cryptixstratum/share_handler.go\<close> prints: the
  messages about workers whose share rate has left the tolerance, in the order in which the pass meets
  them. A message stands in the report exactly when the pass changed the difficulty of the worker.
\<close>

subsection \<open>Numbers with a fixed number of decimals\<close>

text \<open>\<^verbatim>\<open>%.{p}f\<close>: the exact value rounded to \<open>p\<close> decimals, ties to even. \<^verbatim>\<open>%f\<close> has six.\<close>

definition fmt_fixed :: "nat \<Rightarrow> f64 \<Rightarrow> string" where
  "fmt_fixed p d = (case d of
     NaN \<Rightarrow> ''NaN'' | PInf \<Rightarrow> ''+Inf'' | NInf \<Rightarrow> ''-Inf''
   | Fin q \<Rightarrow> (let n = nat (rne (\<bar>q\<bar> * 10 ^ p))
       in (if q < 0 then ''-'' else '''') @ digits_of 10 (n div 10 ^ p) @ ''.''
          @ zero_pad p (digits_of 10 (n mod 10 ^ p))))"

lemma fmt_fixed_2: "fmt_fixed 2 d = fmt_f2 d"
  by (cases d) (simp_all add: fmt_fixed_def fmt_f2_def)

text \<open>\<^verbatim>\<open>int(tolerance*100)\<close>\<close>

definition percent :: "f64 \<Rightarrow> int" where
  "percent tolerance = (case tolerance * f64_of_int 100 of Fin q \<Rightarrow> trunc q | _ \<Rightarrow> 0)"

subsection \<open>The messages of one worker\<close>

definition rateText :: "string \<Rightarrow> f64 \<Rightarrow> string" where
  "rateText name shareRate = name @ '' share rate ('' @ fmt_fixed 6 shareRate @ '') exceeded ''"

definition finalError :: "string \<Rightarrow> f64 \<Rightarrow> f64 \<Rightarrow> string" where
  "finalError name shareRate tolerance = name @ '' final share rate ('' @ fmt_fixed 6 shareRate
     @ '') exceeded tolerance (+/- '' @ fmt_dec (percent tolerance) @ ''%)''"

definition clearedError :: "string \<Rightarrow> f64 \<Rightarrow> nat \<Rightarrow> string" where
  "clearedError name shareRate i = rateText name shareRate @ ''tolerance (+/- ''
     @ fmt_dec (percent (tolerances ! i)) @ ''%) for '' @ fmt_dec (int (windows ! i)) @ ''m window''"

definition upperError :: "string \<Rightarrow> f64 \<Rightarrow> f64 \<Rightarrow> nat \<Rightarrow> string" where
  "upperError name shareRate tolerance window = rateText name shareRate @ ''upper tolerance (+ ''
     @ fmt_dec (percent tolerance) @ ''%) for '' @ fmt_dec (int window) @ ''m window''"

definition lowerError :: "string \<Rightarrow> f64 \<Rightarrow> f64 \<Rightarrow> nat \<Rightarrow> string" where
  "lowerError name shareRate tolerance window = rateText name shareRate @ ''lower tolerance (- ''
     @ fmt_dec (percent tolerance) @ ''%) for '' @ fmt_dec (int window) @ ''m window''"

text \<open>The branches are those of \<open>retarget\<close>. After a breach of a window cleared before, the pass goes on
  with the current window, so that there may be a second message.\<close>

definition toleranceErrs :: "int \<Rightarrow> u64 \<Rightarrow> WorkStats \<Rightarrow> string list" where
  "toleranceErrs now expectedShareRate ws =
    (let worker = statsWorkerName ws;
         diff = MinDiff ws;
         shares = f64_of_int (VarDiffSharesFound ws);
         duration = minutes (since now (VarDiffStartTime ws));
         shareRate = shares div duration;
         ratio = shareRate div f64_of_int (uint expectedShareRate);
         window = windows ! VarDiffWindow ws;
         tolerance = tolerances ! VarDiffWindow ws
     in if VarDiffStartTime ws = None \<or> duration \<le> 0 \<or> length windows \<le> VarDiffWindow ws then []
        else if window = 0
        then (if breached ratio tolerance then [finalError worker shareRate tolerance] else [])
        else
          (case clearedLoop diff ratio 1 ws of (i, ws') \<Rightarrow>
            (if i < VarDiffWindow ws then [clearedError worker shareRate i] else [])
            @ (if i < VarDiffWindow ws' then []
               else if windowShares window expectedShareRate * (1 + tolerance) \<le> shares
               then [upperError worker shareRate tolerance window]
               else if f64_of_int (int window) \<le> duration \<and> shares \<le> windowShares window expectedShareRate * (1 - tolerance)
               then [lowerError worker shareRate tolerance window]
               else [])))"

subsection \<open>Messages and changes of difficulty\<close>

lemma clearedLoop_ends:
  assumes "clearedLoop diff ratio i ws = (j, ws')"
  shows "j < VarDiffWindow ws \<and> ws' = snd (updateVarDiff (diff * ratio) ws) \<or> VarDiffWindow ws \<le> j \<and> ws' = ws"
  using assms
proof (induction diff ratio i ws rule: clearedLoop.induct)
  case (1 diff ratio i ws)
  then show ?case by (subst (asm) (2) clearedLoop.simps) (auto split: if_splits)
qed

text \<open>
  A pass prints a message about a worker exactly when it stops the tracker of the worker and changes
  its difficulty, and at most two.
\<close>

theorem message_iff_retargeted:
  assumes "retarget now rate ws = Some ws'"
  shows "length (toleranceErrs now rate ws) \<le> 2
    \<and> (toleranceErrs now rate ws \<noteq> [] \<longleftrightarrow> VarDiffStartTime ws \<noteq> None \<and> VarDiffStartTime ws' = None)"
proof (cases "VarDiffStartTime ws")
  case None
  then show ?thesis by (simp add: toleranceErrs_def)
next
  case (Some t)
  let ?ratio = "f64_of_int (VarDiffSharesFound ws) div minutes (since now (Some t)) div f64_of_int (uint rate)"
  obtain i ws1 where l: "clearedLoop (MinDiff ws) ?ratio 1 ws = (i, ws1)" by fastforce
  note ends = clearedLoop_ends [OF l] and dead = cleared_guard_dead_holds [of "MinDiff ws" ?ratio ws, unfolded l prod.case]
  let ?w = "windows ! VarDiffWindow ws" and ?tol = "tolerances ! VarDiffWindow ws" and ?d = "minutes (since now (Some t))"
    and ?n = "f64_of_int (VarDiffSharesFound ws)"
  have guard: "\<not> i < VarDiffWindow ws1" using dead by simp
  show ?thesis
  proof (cases "?d \<le> 0 \<or> length windows \<le> VarDiffWindow ws")
    case True
    then have "ws' = ws" using assms by (auto simp: retarget_def Some Let_def split: if_splits)
    then show ?thesis using True Some by (simp add: toleranceErrs_def)
  next
    case False
    show ?thesis
    proof (cases "?w = 0")
      case True
      then have "ws' = (if breached ?ratio ?tol then snd (updateVarDiff (MinDiff ws * ?ratio) ws) else ws)"
        using assms False by (simp add: retarget_def Some Let_def split: if_splits)
      then show ?thesis using True False Some by (simp add: toleranceErrs_def Let_def updateVarDiff_def)
    next
      case window: False
      let ?rest = "if windowShares ?w rate * (1 + ?tol) \<le> ?n then snd (updateVarDiff (MinDiff ws * ?ratio) ws1)
         else if f64_of_int (int ?w) \<le> ?d
         then if ?n \<le> windowShares ?w rate * (1 - ?tol) then snd (updateVarDiff (MinDiff ws * f64_max ?ratio (to_f64 (1 / 10))) ws1)
              else ws1\<lparr>VarDiffWindow := VarDiffWindow ws1 + 1\<rparr>
         else ws1"
      have "ws' = ?rest" using assms False window l guard by (simp add: retarget_def Some Let_def split: if_splits)
      moreover have "VarDiffStartTime ws1 = None \<longleftrightarrow> i < VarDiffWindow ws"
        using ends Some by (auto simp: updateVarDiff_def)
      moreover have "\<exists>c. toleranceErrs now rate ws = (if i < VarDiffWindow ws then [c] else [])
          @ (if windowShares ?w rate * (1 + ?tol) \<le> ?n then [upperError (statsWorkerName ws) (?n div ?d) ?tol ?w]
             else if f64_of_int (int ?w) \<le> ?d \<and> ?n \<le> windowShares ?w rate * (1 - ?tol)
             then [lowerError (statsWorkerName ws) (?n div ?d) ?tol ?w] else [])"
        using False window l guard Some by (simp add: toleranceErrs_def Let_def)
      ultimately show ?thesis using Some by (elim exE) (cases "i < VarDiffWindow ws"; simp add: updateVarDiff_def split: if_splits)
    qed
  qed
qed

text \<open>The whole report: the table of \<open>vardiffTable\<close>, whose lines are sorted, and the messages in the order in
  which the range loop yields the workers.\<close>

definition vardiffReport :: "int \<Rightarrow> u64 \<Rightarrow> string list \<Rightarrow> shareHandler \<Rightarrow> string" where
  "vardiffReport now expectedShareRate keys sh =
     vardiffTable now keys sh (concat (map (toleranceErrs now expectedShareRate) (workers_of keys sh)))"

text \<open>A pass that changes nothing prints no message.\<close>

lemma quiet_report:
  assumes "\<And>v. v \<in> set (workers_of keys sh) \<Longrightarrow>
    \<exists>v'. retarget now rate v = Some v' \<and> VarDiffStartTime v' \<noteq> None"
  shows "vardiffReport now rate keys sh = vardiffTable now keys sh []"
proof -
  have "toleranceErrs now rate v = []" if v: "v \<in> set (workers_of keys sh)" for v
  proof -
    obtain v' where v': "retarget now rate v = Some v'" "VarDiffStartTime v' \<noteq> None" using assms [OF v] by blast
    from message_iff_retargeted [OF v'(1)] v'(2) show ?thesis by simp
  qed
  then have "concat (map (toleranceErrs now rate) (workers_of keys sh)) = []" by simp
  then show ?thesis by (simp only: vardiffReport_def)
qed

end
