(* ===== verification/Startup.thy ===== *)
theory Startup
  imports NodeApi VarDiffReport "HOL-Library.AList"
begin

text \<open>
  The start of the program: \<^verbatim>\<open>src/cmd/cryptixbridge/main.go\<close> from the file to the running bridge, with the
  printed settings; the log and the server of the metrics of \<^verbatim>\<open>stratum_server.go\<close> and \<^verbatim>\<open>prom.go\<close>; the
  defaults of \<^verbatim>\<open>default_client.go\<close>. Reading the file, \<^verbatim>\<open>yaml.Unmarshal\<close>, opening the log file and \<^verbatim>\<open>flag.Parse\<close>
  are given by their results.
\<close>

subsection \<open>The log and the server of the metrics\<close>

datatype log_encoder = JsonLog | ConsoleLog

datatype log_sink = Stdout | LogFile string

datatype log_level = InfoLevel | DebugLevel

text \<open>A logger is a list of cores. The second result of \<^verbatim>\<open>configureZap\<close> is what its cleanup closes; a log
  file that cannot be opened is a panic.\<close>

type_synonym log_core = "log_encoder \<times> log_sink \<times> log_level"

definition configureZap :: "bool \<Rightarrow> BridgeConfig \<Rightarrow> (log_core list \<times> log_sink list) option" where
  "configureZap fileOpens cfg =
    (if \<not> UseLogFile cfg then Some ([(ConsoleLog, Stdout, InfoLevel)], [])
     else if \<not> fileOpens then None
     else Some ([(JsonLog, LogFile ''bridge.log'', InfoLevel), (ConsoleLog, Stdout, InfoLevel)], [LogFile ''bridge.log'']))"

definition DefaultLogger :: "log_core list" where
  "DefaultLogger = [(ConsoleLog, Stdout, DebugLevel)]"

text \<open>\<^verbatim>\<open>promInit\<close>: whether the function of the \<^verbatim>\<open>sync.Once\<close> was started, and the address it serves.\<close>

record promInit =
  promStarted :: bool
  promServes :: "string list"

definition StartPromServer :: "string \<Rightarrow> promInit \<Rightarrow> promInit" where
  "StartPromServer port p = (if promStarted p then p else p\<lparr>promStarted := True, promServes := promServes p @ [port]\<rparr>)"

text \<open>However often it is called, only the first address is served.\<close>

lemma first_prom_server:
  "fold StartPromServer (port # more_ports) \<lparr>promStarted = False, promServes = []\<rparr> = \<lparr>promStarted = True, promServes = [port]\<rparr>"
proof -
  have "fold StartPromServer more_ports \<lparr>promStarted = True, promServes = [port]\<rparr> = \<lparr>promStarted = True, promServes = [port]\<rparr>"
    by (induction more_ports) (simp_all add: StartPromServer_def)
  then show ?thesis by (simp add: StartPromServer_def)
qed

definition DefaultConfig :: "(string \<Rightarrow> bool \<Rightarrow> bool) \<Rightarrow> (unit, 'w) StratumListenerConfig" where
  "DefaultConfig decode = \<lparr>Handlers = \<lambda>_ m. map_option lift_handler (DefaultHandlers decode m),
     ListenerOnConnect = None, ListenerOnDisconnect = None, BinaryFirstByte = None,
     StateGenerator = Some (\<lambda>_. ()), Port = '':5555''\<rparr>"

subsection \<open>The settings as text\<close>

text \<open>\<^verbatim>\<open>%t\<close>, and \<^verbatim>\<open>time.Duration.String\<close>: a fraction is written without the zeros at its end.\<close>

definition bool_text :: "bool \<Rightarrow> string" where
  "bool_text b = (if b then ''true'' else ''false'')"

definition fraction_text :: "nat \<Rightarrow> nat \<Rightarrow> string" where
  "fraction_text p n = (let ds = rev (dropWhile (\<lambda>c. c = CHR ''0'') (rev (zero_pad p (digits_of 10 n))))
     in if ds = [] then [] else CHR ''.'' # ds)"

definition micro_sign :: string where
  "micro_sign = [char_of (194 :: nat), char_of (181 :: nat)]"

definition duration_string :: "int \<Rightarrow> string" where
  "duration_string d = (let u = nat \<bar>d\<bar>; s = u div 1000000000; m = s div 60; h = m div 60 in
     (if d < 0 then ''-'' else [])
     @ (if u = 0 then ''0s''
        else if u < 1000 then digits_of 10 u @ ''ns''
        else if u < 1000000 then digits_of 10 (u div 1000) @ fraction_text 3 (u mod 1000) @ micro_sign @ ''s''
        else if u < 1000000000 then digits_of 10 (u div 1000000) @ fraction_text 6 (u mod 1000000) @ ''ms''
        else (if m = 0 then [] else (if h = 0 then [] else digits_of 10 h @ ''h'') @ digits_of 10 (m mod 60) @ ''m'')
          @ digits_of 10 (s mod 60) @ fraction_text 9 (u mod 1000000000) @ ''s''))"

definition tab :: string where
  "tab = [char_of (9 :: nat)]"

definition rule34 :: string where
  "rule34 = replicate 34 (CHR ''-'')"

text \<open>The lines that \<^verbatim>\<open>main\<close> logs before it starts the bridge, without their time stamps.\<close>

definition settings :: "BridgeConfig \<Rightarrow> string list" where
  "settings cfg =
    [rule34,
     ''initializing bridge'',
     tab @ ''cryptix:          '' @ RPCServer cfg,
     tab @ ''stratum:         '' @ StratumPort cfg,
     tab @ ''stratum v2:      '' @ bool_text (StratumV2Enabled cfg),
     tab @ ''stratum v2 port: '' @ StratumV2Port cfg,
     tab @ ''v2 fallback v1:  '' @ bool_text (StratumV2Fallback cfg),
     tab @ ''prom:            '' @ PromPort cfg,
     tab @ ''stats:           '' @ bool_text (PrintStats cfg),
     tab @ ''log:             '' @ bool_text (UseLogFile cfg),
     tab @ ''min diff:        '' @ fmt_fixed 10 (MinShareDiff cfg),
     tab @ ''var diff:        '' @ bool_text (VarDiff cfg),
     tab @ ''shares per min:  '' @ fmt_dec (uint (SharesPerMin cfg)),
     tab @ ''var diff stats:  '' @ bool_text (VarDiffStats cfg),
     tab @ ''var diff tick:   '' @ duration_string (VarDiffRetarget cfg),
     tab @ ''solo mining:  '' @ tab @ '' '' @ bool_text (SoloMining cfg),
     tab @ ''block wait:      '' @ duration_string (BlockWaitTime cfg),
     tab @ ''extranonce size: '' @ fmt_dec (uint (ExtranonceSize cfg)),
     tab @ ''health check:    '' @ HealthCheckPort cfg,
     rule34]"

text \<open>The statistics table has its own text for whole seconds; both agree.\<close>

lemma whole_seconds: "duration_string (k * 1000000000) = duration_text (k * 1000000000)"
proof -
  have "nat \<bar>k * 1000000000\<bar> = nat \<bar>k\<bar> * 1000000000" by (simp add: abs_mult nat_mult_distrib)
  moreover have "fraction_text 9 0 = []" by code_simp
  moreover have "digits_of 10 0 = ''0''" by code_simp
  moreover have "k * 1000000000 < 0 \<longleftrightarrow> k < 0" by linarith
  ultimately show ?thesis
    by (cases "k = 0") (auto simp: duration_string_def duration_text_def Let_def)
qed

lemma duration_samples:
  "duration_string 0 = ''0s''" "duration_string 500000000 = ''500ms''" "duration_string 1500 = ''1.5'' @ micro_sign @ ''s''"
  "duration_string 10000000000 = ''10s''" "duration_string (- 5400500000000) = ''-1h30m0.5s''"
  by code_simp+

subsection \<open>The command line\<close>

text \<open>The fields that the flags set, by the names of the flags.\<close>

definition flagFields :: "BridgeConfig \<Rightarrow> (string \<times> flag_value) list" where
  "flagFields cfg =
    [(''stratum'', FString (StratumPort cfg)), (''stratumv2'', FBool (StratumV2Enabled cfg)),
     (''stratumv2port'', FString (StratumV2Port cfg)), (''stratumv2fallback'', FBool (StratumV2Fallback cfg)),
     (''stats'', FBool (PrintStats cfg)), (''cryptix'', FString (RPCServer cfg)),
     (''blockwait'', FDuration (BlockWaitTime cfg)), (''mindiff'', FFloat (MinShareDiff cfg)),
     (''vardiff'', FBool (VarDiff cfg)), (''sharespermin'', FUint (SharesPerMin cfg)),
     (''vardiffstats'', FBool (VarDiffStats cfg)), (''vardiffretarget'', FDuration (VarDiffRetarget cfg)),
     (''solo'', FBool (SoloMining cfg)), (''extranonce'', FUint (ExtranonceSize cfg)),
     (''prom'', FString (PromPort cfg)), (''log'', FBool (UseLogFile cfg)), (''hcp'', FString (HealthCheckPort cfg))]"

text \<open>The kinds of the flags.\<close>

fun same_kind :: "flag_value \<Rightarrow> flag_value \<Rightarrow> bool" where
  "same_kind (FString _) (FString _) = True"
| "same_kind (FBool _) (FBool _) = True"
| "same_kind (FDuration _) (FDuration _) = True"
| "same_kind (FFloat _) (FFloat _) = True"
| "same_kind (FUint _) (FUint _) = True"
| "same_kind _ _ = False"

definition flag_ok :: "string \<times> flag_value \<Rightarrow> bool" where
  "flag_ok a \<longleftrightarrow> (\<exists>v. map_of (flagFields initialConfig) (fst a) = Some v \<and> same_kind v (snd a))"

lemma fields_determine: "map_of (flagFields a) = map_of (flagFields b) \<Longrightarrow> a = b"
proof -
  assume e: "map_of (flagFields a) = map_of (flagFields b)"
  have v: "map_of (flagFields a) n = map_of (flagFields b) n" for n by (simp add: e)
  show "a = b"
    using v [of "''stratum''"] v [of "''stratumv2''"] v [of "''stratumv2port''"] v [of "''stratumv2fallback''"]
      v [of "''stats''"] v [of "''cryptix''"] v [of "''blockwait''"] v [of "''mindiff''"] v [of "''vardiff''"]
      v [of "''sharespermin''"] v [of "''vardiffstats''"] v [of "''vardiffretarget''"] v [of "''solo''"]
      v [of "''extranonce''"] v [of "''prom''"] v [of "''log''"] v [of "''hcp''"]
    by (cases a; cases b) (simp add: flagFields_def)
qed

text \<open>One flag changes its own field and no other.\<close>

definition set_flag :: "string \<Rightarrow> flag_value \<Rightarrow> BridgeConfig \<Rightarrow> BridgeConfig option" where
  "set_flag name v cfg = (case map_of flagSetters name of None \<Rightarrow> None | Some setter \<Rightarrow> setter v cfg)"

lemma flag_names: "map_of flagSetters name \<noteq> None \<longleftrightarrow> name \<in> set (map fst (flagFields cfg))"
  by (simp add: flagSetters_def flagFields_def Let_def)

lemma setters_update:
  "list_all (\<lambda>(name, setter). \<forall>v cfg cfg'. setter v cfg = Some cfg' \<longrightarrow> flagFields cfg' = AList.update name v (flagFields cfg)) flagSetters"
  unfolding flagSetters_def Let_def list.pred_inject prod.case
  by (intro conjI allI impI TrueI; simp add: flagFields_def split: flag_value.splits; hypsubst; simp)

lemma setters_kind:
  "list_all (\<lambda>(name, setter). \<forall>v cfg. setter v cfg \<noteq> None \<longleftrightarrow> flag_ok (name, v)) flagSetters"
  unfolding flagSetters_def Let_def list.pred_inject prod.case
  by (intro conjI allI TrueI; simp add: flag_ok_def flagFields_def split: flag_value.split)

lemma set_flag_update:
  assumes "set_flag name v cfg = Some cfg'"
  shows "flagFields cfg' = AList.update name v (flagFields cfg)"
proof -
  obtain setter where s: "map_of flagSetters name = Some setter" "setter v cfg = Some cfg'"
    using assms by (auto simp: set_flag_def split: option.splits)
  show ?thesis using bspec [OF setters_update [unfolded list_all_iff] map_of_SomeD [OF s(1)]] s(2) by (simp only: prod.case)
qed

lemma set_flag_changes:
  "set_flag name v cfg = Some cfg' \<Longrightarrow> map_of (flagFields cfg') = (map_of (flagFields cfg))(name \<mapsto> v)"
  by (simp add: set_flag_update update_conv')

lemma set_flag_ok: "set_flag name v cfg \<noteq> None \<longleftrightarrow> flag_ok (name, v)"
proof (cases "map_of flagSetters name")
  case None
  then have "map_of (flagFields initialConfig) name = None"
    using flag_names [of name initialConfig] by (simp add: map_of_eq_None_iff)
  then show ?thesis using None by (simp add: set_flag_def flag_ok_def)
next
  case (Some setter)
  then have "setter v cfg \<noteq> None \<longleftrightarrow> flag_ok (name, v)"
    using bspec [OF setters_kind [unfolded list_all_iff] map_of_SomeD [OF Some]] by (simp only: prod.case)
  then show ?thesis using Some by (simp add: set_flag_def)
qed

lemma applyFlags_Cons:
  "applyFlags ((name, v) # args) cfg = (case set_flag name v cfg of None \<Rightarrow> None | Some cfg \<Rightarrow> applyFlags args cfg)"
  by (simp add: set_flag_def split: option.split)

declare applyFlags.simps(2) [simp del]

lemma applyFlags_ok: "applyFlags args cfg \<noteq> None \<longleftrightarrow> list_all flag_ok args"
proof (induction args arbitrary: cfg)
  case (Cons a args)
  obtain name v where a: "a = (name, v)" by fastforce
  show ?case
    using Cons set_flag_ok [of name v cfg] by (auto simp: a applyFlags_Cons split: option.split)
qed simp

lemma applyFlags_fields:
  "applyFlags args cfg = Some cfg' \<Longrightarrow> map_of (flagFields cfg') = map_of (flagFields cfg) ++ map_of (rev args)"
proof (induction args arbitrary: cfg)
  case (Cons a args)
  obtain name v where a: "a = (name, v)" by fastforce
  obtain cfg1 where c: "set_flag name v cfg = Some cfg1" "applyFlags args cfg1 = Some cfg'"
    using Cons.prems by (auto simp: a applyFlags_Cons split: option.splits)
  have "(map_of (flagFields cfg))(name \<mapsto> v) ++ map_of (rev args) = map_of (flagFields cfg) ++ map_of (rev (a # args))"
    by (simp add: a)
  then show ?case unfolding Cons.IH [OF c(2)] set_flag_changes [OF c(1)] .
qed simp

lemma applyFlags_order:
  assumes "mset args = mset args'" and "distinct (map fst args)"
  shows "applyFlags args cfg = applyFlags args' cfg"
proof -
  have "map_of (rev args) = map_of (rev args')"
  proof (rule map_of_eqI)
    have d: "distinct (map fst (rev args))" "distinct (map fst (rev args'))"
      using assms by (simp_all flip: rev_map add: mset_eq_imp_distinct_iff [of "map fst args'" "map fst args"])
    have s: "set (rev args) = set (rev args')" using mset_eq_setD [OF assms(1)] by simp
    show "set (map fst (rev args)) = set (map fst (rev args'))" using s by simp
    show "\<forall>k\<in>set (map fst (rev args)). map_of (rev args) k = map_of (rev args') k"
      using d s by (metis map_of_eq_Some_iff not_None_eq)
  qed
  moreover have "list_all flag_ok args = list_all flag_ok args'"
    using mset_eq_setD [OF assms(1)] by (simp add: list_all_iff)
  ultimately show ?thesis
    using applyFlags_ok [of args cfg] applyFlags_ok [of args' cfg] applyFlags_fields fields_determine
    by (cases "applyFlags args cfg"; cases "applyFlags args' cfg") metis+
qed

text \<open>
  C31: the command line overrides the file field by field: it is accepted exactly when each flag is known
  and has a value of its kind, whatever the file says; then a field has the value of the last of its flags,
  and without one the value of the file. So different flags can be given in any order.
\<close>

theorem command_line_overrides:
  "(applyFlags args cfg \<noteq> None \<longleftrightarrow> list_all flag_ok args)
    \<and> (applyFlags args cfg = Some cfg' \<longrightarrow> map_of (flagFields cfg') = map_of (flagFields cfg) ++ map_of (rev args))
    \<and> (mset args = mset args' \<and> distinct (map fst args) \<longrightarrow> applyFlags args cfg = applyFlags args' cfg)"
  using applyFlags_ok applyFlags_fields applyFlags_order by blast

theorem command_line_overrides_witness:
  "let args = [(''stratum'', FString '':1''), (''solo'', FBool True), (''stratum'', FString '':2'')]
   in \<exists>cfg. applyFlags args initialConfig = Some cfg \<and> StratumPort cfg = '':2'' \<and> SoloMining cfg \<and> StratumV2Port cfg = '':5556''"
proof -
  let ?args = "[(''stratum'', FString '':1''), (''solo'', FBool True), (''stratum'', FString '':2'')]"
  have "list_all flag_ok ?args" by (simp add: flag_ok_def flagFields_def)
  then obtain cfg where cfg: "applyFlags ?args initialConfig = Some cfg"
    using command_line_overrides [of ?args initialConfig] by blast
  then have f: "map_of (flagFields cfg) = map_of (flagFields initialConfig) ++ map_of (rev ?args)"
    using command_line_overrides [of ?args initialConfig cfg] by blast
  have v: "map_of (flagFields cfg) n = (map_of (flagFields initialConfig) ++ map_of (rev ?args)) n" for n by (simp only: f)
  have "StratumPort cfg = '':2''" "SoloMining cfg" "StratumV2Port cfg = '':5556''"
    using v [of "''stratum''"] v [of "''solo''"] v [of "''stratumv2port''"]
    by (simp_all add: flagFields_def initialConfig_def)
  then show ?thesis using cfg by (simp add: Let_def)
qed

subsection \<open>The program\<close>

text \<open>How \<^verbatim>\<open>main\<close> ends: it exits with a status, it panics, or it serves. An error of the bridge is only logged,
  so that the status is 0 then.\<close>

datatype outcome = Exits nat | LogPanic | Serves "string list" "log_core list" bridge

definition mainProgram ::
    "(string + byte list) \<Rightarrow> (byte list \<Rightarrow> BridgeConfig \<Rightarrow> string + BridgeConfig) \<Rightarrow> (string \<times> flag_value) list
     \<Rightarrow> bool \<Rightarrow> go_error option \<Rightarrow> outcome" where
  "mainProgram rawCfg unmarshal args fileOpens connectErr = (case rawCfg of
     Inl err \<Rightarrow> Exits 1
   | Inr raw \<Rightarrow> (case unmarshal raw initialConfig of
       Inl err \<Rightarrow> Exits 1
     | Inr cfg \<Rightarrow> (case applyFlags args cfg of
         None \<Rightarrow> Exits 2
       | Some cfg \<Rightarrow> (let cfg = fillDefaults cfg in case configureZap fileOpens cfg of
           None \<Rightarrow> LogPanic
         | Some (logger, cleanup) \<Rightarrow> (case ListenAndServe connectErr cfg of
             Inl err \<Rightarrow> Exits 0
           | Inr b \<Rightarrow> Serves (settings cfg) logger b)))))"

text \<open>It serves exactly when all of these succeed, and then what \<open>runMain\<close> says.\<close>

lemma mainProgram_serves:
  "mainProgram rawCfg unmarshal args fileOpens connectErr = Serves ls logger b \<longleftrightarrow>
     (\<exists>raw cfg. rawCfg = Inr raw \<and> commandConfig (\<lambda>c. case unmarshal raw c of Inl _ \<Rightarrow> None | Inr c \<Rightarrow> Some c) args = Some cfg
        \<and> ls = settings cfg \<and> map_option fst (configureZap fileOpens cfg) = Some logger \<and> ListenAndServe connectErr cfg = Inr b)"
  by (auto simp: mainProgram_def commandConfig_def Let_def split: sum.splits option.splits)

text \<open>The settings are printed as they were read: the bridge raises the difficulty and the waiting time and
  lowers the size of the extranonces afterwards.\<close>

lemma settings_not_normalized:
  assumes "mainProgram rawCfg unmarshal args fileOpens connectErr = Serves ls logger b"
  shows "\<exists>cfg. ls = settings cfg \<and> blockWait b = normalizeBlockWait (BlockWaitTime cfg)
    \<and> minShareDiff (bridgeClients b) = normalizeMinDiff (MinShareDiff cfg)"
  using assms unfolding mainProgram_serves
  by (auto simp: ListenAndServe_def newClientListener_def Let_def split: option.splits if_splits)

end
