(* ===== verification/Spec2Isabelle.thy ===== *)
theory Spec2Isabelle
  imports HasherLemmas MiningState Sv2CodecLemmas StratumContext Prom ShareHandlerLemmas SubmitProps
    SubmitV1 VarDiffLemmas WalletLemmas Sv2HandlerLemmas ClientListenerLemmas StratumListenerLemmas
    BridgeServerLemmas BridgeProps LabelProps JsonProps NoPanic Races
    EndToEnd Accepting MockConn JobRaces Writers Startup
begin

text \<open>
  A verification development for the Cryptix stratum bridge, the Go program under \<^verbatim>\<open>src/\<close>. The bridge
  sits between miners and a Cryptix node: it asks the node for block templates, sends them as jobs to
  the miners that are connected, judges the shares that come back, submits those that solve a block,
  and keeps counters. Miners speak Stratum V1 (lines of JSON) or Stratum V2 (binary frames).

  \<^bold>\<open>Parts, from the bottom up.\<close>

  \<^item> \<^verbatim>\<open>Prelude\<close>, \<^verbatim>\<open>GoStrings\<close>, \<^verbatim>\<open>Codecs\<close>, \<^verbatim>\<open>Float64\<close>: what the program uses of Go. Errors as values, strings
    as lists of characters with the functions of \<^verbatim>\<open>strings\<close>, \<^verbatim>\<open>strconv\<close> and \<^verbatim>\<open>fmt\<close> that occur, little-endian
    words and readers of bytes, and \<^verbatim>\<open>float64\<close> as exact rationals with IEEE rounding, infinities and NaN.
    Machine words keep their width.
  \<^item> \<^verbatim>\<open>Hasher\<close> (\<^verbatim>\<open>hasher.go\<close>): difficulties, targets, the bytes of a header that are hashed, job parameters.
    \<^verbatim>\<open>HasherLemmas\<close>: different headers have different bytes; the compact target as a formula.
  \<^item> \<^verbatim>\<open>MiningState\<close> (\<^verbatim>\<open>mining_state.go\<close>): the ring of 32 jobs and the share difficulty of a connection, which
    job a number finds, and the invariant \<open>mining_ok\<close>.
  \<^item> \<^verbatim>\<open>Sv2Codec\<close> (\<^verbatim>\<open>sv2_codec.go\<close>): frames and payloads; \<^verbatim>\<open>Sv2CodecLemmas\<close>: round trips, and parsers as exact
    descriptions of the layout they accept.
  \<^item> \<^verbatim>\<open>StratumContext\<close> (\<^verbatim>\<open>stratum_context.go\<close>): one connection with its write lock, its retry loop and its
    single disconnect. The environment of a connection is a list of outcomes of writes, the record of
    what was sent, and whether the disconnect channel has room.
  \<^item> \<^verbatim>\<open>Prom\<close> (\<^verbatim>\<open>prom.go\<close>, \<^verbatim>\<open>errors.go\<close>): each metric call as the list of updates it makes.
  \<^item> \<^verbatim>\<open>ShareHandler\<close> (\<^verbatim>\<open>share_handler.go\<close>): submission, duplicates, stale shares, statistics. The
    statistics of workers are shared objects, so they live in a store indexed by references. The node is
    the parameter record \<open>node\<close>. \<^verbatim>\<open>ShareHandlerLemmas\<close>, \<^verbatim>\<open>SubmitProps\<close>, \<^verbatim>\<open>SubmitV1\<close>: the verdict as a decision
    table, the counters, duplicates, extranonces, the answer of the line protocol.
  \<^item> \<^verbatim>\<open>VarDiff\<close>, \<^verbatim>\<open>VarDiffLemmas\<close> (the other half of \<^verbatim>\<open>share_handler.go\<close>): the difficulty of a worker, one
    pass of the difficulty thread, hash rates.
  \<^item> \<^verbatim>\<open>Wallet\<close>, \<^verbatim>\<open>WalletLemmas\<close> (\<^verbatim>\<open>default_client.go\<close>, \<^verbatim>\<open>jsonrpc_event.go\<close>): subscription, authorization,
    wallet addresses.
  \<^item> \<^verbatim>\<open>Sv2Handler\<close>, \<^verbatim>\<open>Sv2HandlerLemmas\<close> (\<^verbatim>\<open>sv2_handler.go\<close>): the loop of a Stratum V2 connection.
  \<^item> \<^verbatim>\<open>ClientListener\<close>, \<^verbatim>\<open>ClientListenerLemmas\<close> (\<^verbatim>\<open>client_handler.go\<close>): connects and disconnects,
    extranonces, and the goroutine that sends one client its job.
  \<^item> \<^verbatim>\<open>StratumListener\<close>, \<^verbatim>\<open>StratumListenerLemmas\<close> (\<^verbatim>\<open>stratum_listener.go\<close>, \<^verbatim>\<open>stratum_client.go\<close>): sockets as
    lists of events, the choice of the protocol by the first byte, the loop over lines, disconnect
    events. The buffered loop refines a loop over single bytes.
  \<^item> \<^verbatim>\<open>BridgeServer\<close>, \<^verbatim>\<open>BridgeServerLemmas\<close> (\<^verbatim>\<open>stratum_server.go\<close>, \<^verbatim>\<open>cryptixapi.go\<close>, \<^verbatim>\<open>main.go\<close>): defaults
    and checks of the configuration, which parts are started with what, the loop that waits for blocks.
  \<^item> \<^verbatim>\<open>Bridge\<close>: the running bridge as a transition system over all these operations. \<^verbatim>\<open>Evolution\<close>: what an
    operation may do to a connection. \<^verbatim>\<open>BridgeLemmas\<close>: the invariant, one lemma for each kind of step.
    \<^verbatim>\<open>BridgeProps\<close>: safety, and that closed connections can be forgotten.
  \<^item> \<^verbatim>\<open>Utf8\<close>, \<^verbatim>\<open>Metrics\<close>, \<^verbatim>\<open>Labels\<close>, \<^verbatim>\<open>LabelProps\<close> (\<^verbatim>\<open>prom.go\<close> again): the declared metrics; which updates and
    label values Prometheus accepts; that the names always fit, and how a Stratum V2 client breaks the
    values. \<^verbatim>\<open>NoPanic\<close>: absence of panics, both of the operations and of Prometheus, for the Stratum V2 loop,
    the job goroutine and every operation of the running bridge.
  \<^item> \<^verbatim>\<open>Json\<close> (\<^verbatim>\<open>jsonrpc_event.go\<close>, \<^verbatim>\<open>stratum_context.go\<close>): the text of messages, written and read as
    \<^verbatim>\<open>encoding/json\<close> does for the two message types. \<^verbatim>\<open>JsonLemmas\<close>: strings and numbers; \<^verbatim>\<open>JsonRead\<close>: the lexer,
    the stack machine and the storing of values; \<^verbatim>\<open>JsonProps\<close>: round trips, lines in pieces, valid strings.
  \<^item> \<^verbatim>\<open>EndToEnd\<close>: a submitted share from the bytes of its line to the text of the answer, for each verdict.
  \<^item> \<^verbatim>\<open>Races\<close>: \<^verbatim>\<open>checkStales\<close> in single atomic actions of several goroutines: the loop ends under every
    schedule, and the verdicts fit together.
  \<^item> \<^verbatim>\<open>Writers\<close> (\<^verbatim>\<open>stratum_context.go\<close>): the goroutines that write to one connection or disconnect it, in single
    atomic actions: the lock excludes, the line consists of whole messages and of beginnings of failed ones,
    every schedule ends, and a failed write closes the connection.
  \<^item> \<^verbatim>\<open>JobRaces\<close> (\<^verbatim>\<open>client_handler.go\<close>): several job goroutines of one connection in single actions, as far as they
    fix the difficulty, while writes may fail: every stored difficulty is announced or its announcement failed,
    which is what stays true of \<open>difficulty_agrees\<close>; and how an announcement is overtaken.
  \<^item> \<^verbatim>\<open>Accepting\<close> (\<^verbatim>\<open>stratum_listener.go\<close>): \<^verbatim>\<open>Listen\<close> with the goroutines that accept connections and handle
    disconnects, up to the shutdown.
  \<^item> \<^verbatim>\<open>NodeApi\<close> (\<^verbatim>\<open>cryptixapi.go\<close>, \<^verbatim>\<open>main.go\<close>): the connection to the node, reconnecting, the whole loop that
    waits for blocks, and the flags of the command line.
  \<^item> \<^verbatim>\<open>Tables\<close>, \<^verbatim>\<open>VarDiffReport\<close> (\<^verbatim>\<open>share_handler.go\<close>): the tables that the statistics threads print, and the
    messages about share rates, one exactly when a pass changes a difficulty. \<^verbatim>\<open>Startup\<close> (\<^verbatim>\<open>main.go\<close>, \<^verbatim>\<open>stratum_server.go\<close>,
    \<^verbatim>\<open>prom.go\<close>): the program from the file to the running bridge, its log and its printed settings; the
    command line as an override of fields. \<^verbatim>\<open>MockConn\<close>
    (\<^verbatim>\<open>mock_connection.go\<close>): the connection of the tests.

  \<^bold>\<open>How the code is rendered.\<close> A Go struct is a record and keeps the names of its fields, as far as they
  are free. A function returns its results and the state it changed. An error is a value; a panic is
  \<^verbatim>\<open>None\<close>, so a theorem that says that an operation returns \<^verbatim>\<open>Some\<close> says that it does not panic by itself. The
  panic of Prometheus at a label that is not valid UTF-8 is not a \<^verbatim>\<open>None\<close>: the operations record the update that would
  be refused in a log that only grows, and that none was refused is \<open>log_good utf8_valid\<close> of the log. Locks make
  the methods of a component atomic, so each is one function; atomics likewise. Goroutines are steps of
  the transition system of \<^verbatim>\<open>Bridge\<close>, each atomic, in any order. Where interleaving inside an operation matters,
  it has a second definition in single actions with a program counter (\<^verbatim>\<open>Races\<close>, \<^verbatim>\<open>Writers\<close>, \<^verbatim>\<open>JobRaces\<close>), and a
  lemma says that a goroutine that runs alone computes the first one.

  \<^bold>\<open>Interfaces.\<close> Where one part relies on another the contract is a locale, interpreted on the model:
  encoders and decoders that compose (\<^verbatim>\<open>Codecs\<close>), floating-point roundings (\<^verbatim>\<open>Float64\<close>), operations that only
  send (\<^verbatim>\<open>StratumContext\<close>), handlers of lines (\<^verbatim>\<open>StratumListenerLemmas\<close>, interpreted on the handlers of
  the bridge in \<^verbatim>\<open>BridgeServerLemmas\<close>), properties of the share handler that each Stratum V2 frame keeps
  (\<^verbatim>\<open>Evolution\<close>, interpreted on the difficulties and, in \<^verbatim>\<open>LabelProps\<close>, on the metrics), and properties of
  label values that the operations hand on (\<^verbatim>\<open>Labels\<close>, interpreted on any string and on valid UTF-8).

  \<^bold>\<open>Termination and bounds.\<close> No definition uses fuel. Both read loops are recursive functions on what is
  left of the stream and are proved to terminate, the line loop in spite of its timeouts. A finite stream
  stands for everything a peer sends before the connection ends. The search for the shortest decimal of
  a \<^verbatim>\<open>float64\<close> tries 1400 numbers of places, from -310 on; 1074 always suffice. The compare-and-swap loop of
  \<^verbatim>\<open>checkStales\<close> and the writers of a connection are bounded by measures over all goroutines. \<^verbatim>\<open>waitForSync\<close> consumes the answers of
  the node and has no result while the node is not synchronised.

  \<^bold>\<open>Assumptions.\<close> The hash function returns 32 bytes. The configured difficulty is a number: NaN passes
  the check of the program and makes it panic (\<open>nan_difficulty_panics\<close>). In the transition system a pass
  of the difficulty thread does not leave a difficulty that is NaN; \<open>bridge_progress\<close> shows that this excludes no
  pass from finite difficulties, so it only concerns passes after a difficulty has overflown to infinity. The address
  decoder of the node accepts bech32 text only, in lower or in upper case but not in both (\<open>bech32_text\<close>).

  \<^bold>\<open>Not modelled.\<close> Most log messages and the help texts; the HTTP servers and the registry of Prometheus
  itself; the parsing of YAML and of the command line, whose results are given; the RPC client, BLAKE2b,
  address decoding and the proof-of-work state of the node, which are parameters; opening ports,
  sleeping, tickers; the methods of \<^verbatim>\<open>StratumContext\<close> as a \<^verbatim>\<open>context.Context\<close>, which never is cancelled, and its
  \<^verbatim>\<open>String\<close>. The components are proved for any function that turns a line into an event, and
  \<^verbatim>\<open>JsonProps\<close> puts \<^verbatim>\<open>UnmarshalEvent\<close> in its place; the sign of a zero in a number is not kept. Prometheus' refusal
  of a label value is a property of the updates, not a step of the transition system. Of \<^verbatim>\<open>ListenAndServe\<close> the
  result is modelled, not what it has opened before an error. Go's \<^verbatim>\<open>int\<close> and \<^verbatim>\<open>int64\<close> counters are integers without a bound. Interleaving inside an
  operation is modelled for \<^verbatim>\<open>checkStales\<close>, for writing and disconnecting, and for the difficulty in a job
  goroutine; elsewhere an operation is one step.
\<close>

end
